(* ===== verification/Prelude.thy ===== *)
theory Prelude
  imports Main "HOL-Library.Multiset"
begin

text \<open>
  What every component of the development shares: the type abbreviations for Go values, the
  collections the components' lemmas are declared into, and the generic facts on association
  lists, sums and \<open>find\<close> that the component proofs rest on.

  A Go \<open>string\<close> or \<open>[]byte\<close> is a list of bytes (the type \<^typ>\<open>string\<close>, whose characters are
  8-bit). A Go \<open>map[string]T\<close> is an association list: its bindings in the order the next
  \<open>range\<close> loop visits them, which the language leaves open. \<open>go_map\<close> says that the keys are
  distinct, so that a lookup does not depend on that order.
\<close>

section \<open>Types\<close>

type_synonym 'v gomap = "(string \<times> 'v) list"

definition go_map :: "'v gomap \<Rightarrow> bool" where
  "go_map m \<longleftrightarrow> distinct (map fst m)"

section \<open>Collections\<close>

named_theorems go_simps \<open>equations that evaluate the models of the standard library\<close>
named_theorems fail_closed \<open>error branches of the operations\<close>

section \<open>Sums as results\<close>

lemma sum_case_Inr_iff:
  "(case x of Inl e \<Rightarrow> Inl (f e) | Inr a \<Rightarrow> g a) = Inr b \<longleftrightarrow> (\<exists>a. x = Inr a \<and> g a = Inr b)"
  by (cases x) auto

lemma not_Inl_imp_Inr: "(\<And>e. x \<noteq> Inl e) \<Longrightarrow> \<exists>a. x = Inr a"
  by (cases x) auto

section \<open>Association lists\<close>

lemma go_map_Nil [simp]: "go_map []"
  by (simp add: go_map_def)

lemma go_map_Cons [simp]: "go_map ((k, v) # m) \<longleftrightarrow> k \<notin> fst ` set m \<and> go_map m"
  by (simp add: go_map_def)

lemma go_map_mset: "mset m = mset m' \<Longrightarrow> go_map m \<Longrightarrow> go_map m'"
  unfolding go_map_def by (metis mset_eq_imp_distinct_iff mset_map)

lemma go_map_lookup: "go_map m \<Longrightarrow> map_of m k = Some v \<longleftrightarrow> (k, v) \<in> set m"
  by (simp add: go_map_def)

lemma map_of_visit_order:
  assumes "go_map m" and "mset m = mset m'"
  shows "map_of m = map_of m'"
proof
  fix k
  have g: "go_map m'" using assms go_map_mset by blast
  have s: "set m = set m'" using assms(2) by (metis set_mset_mset)
  show "map_of m k = map_of m' k"
  proof (cases "map_of m k")
    case None
    with s show ?thesis by (metis map_of_eq_None_iff)
  next
    case (Some v)
    then have "map_of m' k = Some v"
      using assms(1) g s by (simp add: go_map_lookup)
    with Some show ?thesis by simp
  qed
qed

section \<open>First match\<close>

lemma find_append:
  "find P (xs @ ys) = (case find P xs of None \<Rightarrow> find P ys | Some x \<Rightarrow> Some x)"
  by (induction xs) auto

lemma find_None_all: "find P xs = None \<longleftrightarrow> (\<forall>x \<in> set xs. \<not> P x)"
  by (auto simp: find_None_iff)

lemma find_Some_set: "find P xs = Some x \<Longrightarrow> x \<in> set xs \<and> P x"
  by (auto simp: find_Some_iff)

end
