(* ===== verification/GoStrings.thy ===== *)
theory GoStrings
  imports Prelude "HOL-Library.Sublist"
begin

text \<open>
  The functions of Go's package \<open>strings\<close> that the sources call, on byte strings:
  \<open>HasPrefix\<close>, \<open>HasSuffix\<close>, \<open>TrimPrefix\<close>, \<open>TrimSuffix\<close>, \<open>CutPrefix\<close>, \<open>Contains\<close>,
  \<open>Split\<close>/\<open>SplitSeq\<close> and \<open>SplitN\<close> with a one-byte separator, and \<open>TrimSpace\<close>.
\<close>

section \<open>Prefixes and suffixes\<close>

definition HasPrefix :: "string \<Rightarrow> string \<Rightarrow> bool" where
  "HasPrefix s p \<longleftrightarrow> prefix p s"

definition HasSuffix :: "string \<Rightarrow> string \<Rightarrow> bool" where
  "HasSuffix s p \<longleftrightarrow> suffix p s"

definition TrimPrefix :: "string \<Rightarrow> string \<Rightarrow> string" where
  "TrimPrefix s p = (if HasPrefix s p then drop (length p) s else s)"

definition TrimSuffix :: "string \<Rightarrow> string \<Rightarrow> string" where
  "TrimSuffix s p = (if HasSuffix s p then take (length s - length p) s else s)"

definition CutPrefix :: "string \<Rightarrow> string \<Rightarrow> string option" where
  "CutPrefix s p = (if HasPrefix s p then Some (drop (length p) s) else None)"

lemma HasPrefix_append [simp]: "HasPrefix (p @ s) p"
  by (simp add: HasPrefix_def)

lemma HasPrefix_Cons [simp]:
  "HasPrefix (c # s) (d # p) \<longleftrightarrow> c = d \<and> HasPrefix s p"
  "HasPrefix s []"
  "\<not> HasPrefix [] (d # p)"
  by (auto simp: HasPrefix_def)

lemma HasSuffix_append [simp]: "HasSuffix (s @ p) p"
  by (auto simp: HasSuffix_def suffix_def)

lemma HasSuffix_code [code, go_simps]:
  "HasSuffix s p \<longleftrightarrow> length p \<le> length s \<and> drop (length s - length p) s = p"
proof
  assume "HasSuffix s p"
  then obtain t where "s = t @ p" by (auto simp: HasSuffix_def suffix_def)
  then show "length p \<le> length s \<and> drop (length s - length p) s = p" by simp
next
  assume "length p \<le> length s \<and> drop (length s - length p) s = p"
  then have "s = take (length s - length p) s @ p" by (metis append_take_drop_id)
  then show "HasSuffix s p" by (metis HasSuffix_append)
qed

lemma TrimSuffix_append [simp]: "TrimSuffix (s @ p) p = s"
  by (simp add: TrimSuffix_def)

lemma CutPrefix_Some: "CutPrefix s p = Some r \<longleftrightarrow> s = p @ r"
  by (auto simp: CutPrefix_def HasPrefix_def prefix_def)

lemma CutPrefix_None: "CutPrefix s p = None \<longleftrightarrow> \<not> HasPrefix s p"
  by (simp add: CutPrefix_def)

section \<open>Splitting at a one-byte separator\<close>

text \<open>
  \<open>strings.Split(s, sep)\<close> and the iterator \<open>strings.SplitSeq\<close>: the fields between the
  separators, at least one (the empty string has one empty field).
\<close>

fun Split :: "char \<Rightarrow> string \<Rightarrow> string list" where
  "Split sep [] = [[]]"
| "Split sep (c # cs) =
     (if c = sep then [] # Split sep cs
      else (case Split sep cs of f # fs \<Rightarrow> (c # f) # fs | [] \<Rightarrow> [[c]]))"

text \<open>
  \<open>strings.SplitN(s, sep, n)\<close> for a positive \<open>n\<close>: at most \<open>n\<close> fields, the last one the
  unsplit remainder.
\<close>

fun SplitN :: "nat \<Rightarrow> char \<Rightarrow> string \<Rightarrow> string list" where
  "SplitN n sep [] = (if n = 0 then [] else [[]])"
| "SplitN n sep (c # cs) =
     (if n = 0 then [] else if n = 1 then [c # cs]
      else if c = sep then [] # SplitN (n - 1) sep cs
      else (case SplitN n sep cs of f # fs \<Rightarrow> (c # f) # fs | [] \<Rightarrow> [[c]]))"

text \<open>\<open>strings.Join\<close> with a one-byte separator, the inverse of the split.\<close>

fun Join :: "char \<Rightarrow> string list \<Rightarrow> string" where
  "Join sep [] = []"
| "Join sep [f] = f"
| "Join sep (f # g # fs) = f @ sep # Join sep (g # fs)"

lemma Split_neq_Nil [simp]: "Split sep s \<noteq> []"
  by (induction s) (auto split: list.splits)

lemma Join_Cons: "fs \<noteq> [] \<Longrightarrow> Join sep (f # fs) = f @ sep # Join sep fs"
  by (cases fs) auto

lemma Join_Split [simp]: "Join sep (Split sep s) = s"
proof (induction s)
  case Nil
  then show ?case by simp
next
  case (Cons c cs)
  obtain f fs where f: "Split sep cs = f # fs" by (cases "Split sep cs") auto
  show ?case
    using Cons by (cases fs) (auto simp: f Join_Cons)
qed

lemma Split_no_sep: "f \<in> set (Split sep s) \<Longrightarrow> sep \<notin> set f"
  by (induction s arbitrary: f) (auto split: list.splits if_splits)

lemma Split_single: "sep \<notin> set s \<Longrightarrow> Split sep s = [s]"
  by (induction s) auto

lemma Split_append_sep: "sep \<notin> set f \<Longrightarrow> Split sep (f @ sep # s) = f # Split sep s"
  by (induction f) auto

lemma Split_Join:
  "fs \<noteq> [] \<Longrightarrow> (\<forall>f \<in> set fs. sep \<notin> set f) \<Longrightarrow> Split sep (Join sep fs) = fs"
proof (induction sep fs rule: Join.induct)
  case (2 sep f)
  then show ?case by (simp add: Split_single)
next
  case (3 sep f g fs)
  then show ?case by (simp add: Split_append_sep)
qed simp

lemma length_Split: "length (Split sep s) = Suc (count_list s sep)"
  by (induction s) (auto split: list.splits)

lemma SplitN_neq_Nil [simp]: "0 < n \<Longrightarrow> SplitN n sep s \<noteq> []"
  by (induction n sep s rule: SplitN.induct) (auto split: list.splits)

lemma SplitN_Join: "0 < n \<Longrightarrow> Join sep (SplitN n sep s) = s"
proof (induction n sep s rule: SplitN.induct)
  case (1 n sep)
  then show ?case by simp
next
  case (2 n sep c cs)
  show ?case
  proof (cases "n = 1 \<or> c = sep")
    case True
    with 2 show ?thesis by (auto simp: Join_Cons)
  next
    case False
    with 2 have j: "Join sep (SplitN n sep cs) = cs" by simp
    obtain f fs where f: "SplitN n sep cs = f # fs"
      using 2 by (cases "SplitN n sep cs") auto
    from j f False 2 show ?thesis by (cases fs) auto
  qed
qed

lemma length_SplitN: "length (SplitN n sep s) \<le> n"
proof (induction n sep s rule: SplitN.induct)
  case (1 n sep)
  then show ?case by simp
next
  case (2 n sep c cs)
  show ?case
  proof (cases "n \<le> 1 \<or> c = sep")
    case True
    with 2 show ?thesis by auto
  next
    case False
    with 2 have "length (SplitN n sep cs) \<le> n" by simp
    with False show ?thesis by (cases "SplitN n sep cs") auto
  qed
qed

lemma SplitN_append_sep:
  "sep \<notin> set f \<Longrightarrow> 1 < n \<Longrightarrow> SplitN n sep (f @ sep # s) = f # SplitN (n - 1) sep s"
  by (induction f) auto

text \<open>All fields but the last agree with the full split.\<close>

lemma SplitN_take:
  "Suc k \<le> length (SplitN n sep s) \<Longrightarrow> Suc k < n \<Longrightarrow>
   k < length (Split sep s) \<and> SplitN n sep s ! k = Split sep s ! k"
proof (induction n sep s arbitrary: k rule: SplitN.induct)
  case (1 n sep)
  then show ?case by (auto split: if_splits)
next
  case (2 n sep c cs)
  show ?case
  proof (cases "c = sep")
    case True
    show ?thesis
    proof (cases k)
      case 0
      with 2 True show ?thesis by auto
    next
      case (Suc j)
      with 2 True have "j < length (Split sep cs) \<and> SplitN (n - 1) sep cs ! j = Split sep cs ! j"
        by auto
      with 2 True Suc show ?thesis by auto
    qed
  next
    case False
    obtain f fs where f: "SplitN n sep cs = f # fs"
      using 2 by (cases "SplitN n sep cs") auto
    obtain g gs where g: "Split sep cs = g # gs" by (cases "Split sep cs") auto
    from 2 False f have "k < length (Split sep cs) \<and> SplitN n sep cs ! k = Split sep cs ! k"
      by auto
    with 2 False f g show ?thesis by (cases k) auto
  qed
qed

section \<open>Decimal numbers\<close>

text \<open>The decimal digits of a number.\<close>

fun decimal :: "nat \<Rightarrow> string" where
  "decimal n = (if n < 10 then [char_of (48 + n)] else decimal (n div 10) @ [char_of (48 + n mod 10)])"

declare decimal.simps [simp del]

end
