(* ===== verification/Utf8.thy ===== *)
theory Utf8
  imports GoStrings
begin

text \<open>
  Go's package \<open>unicode/utf8\<close> as the sources rely on it (through \<open>regexp\<close>, \<open>encoding/json\<close>
  and \<open>strings.TrimSpace\<close>): the decoder that turns a byte string into its runes, an invalid byte
  being the rune U+FFFD of width one, the encoder of a rune, and validity. A rune is a natural
  number; a decoded string is a list of runes with the number of bytes each takes.
\<close>

section \<open>Decoding\<close>

abbreviation RuneError :: nat where
  "RuneError \<equiv> 65533"

definition byte :: "char \<Rightarrow> nat" where
  "byte c = of_char c"

definition cont :: "char \<Rightarrow> bool" where
  "cont c \<longleftrightarrow> 128 \<le> byte c \<and> byte c \<le> 191"

text \<open>The range of the second byte of a three-byte or four-byte sequence depends on the first.\<close>

definition second_lo :: "nat \<Rightarrow> nat" where
  "second_lo b = (if b = 224 then 160 else if b = 240 then 144 else 128)"

definition second_hi :: "nat \<Rightarrow> nat" where
  "second_hi b = (if b = 237 then 159 else if b = 244 then 143 else 191)"

text \<open>The continuation bytes of a sequence whose first byte is \<open>b0\<close>: the rune and its width.\<close>

definition tail2 :: "nat \<Rightarrow> string \<Rightarrow> (nat \<times> nat) option" where
  "tail2 b0 cs =
     (case cs of
        c1 # _ \<Rightarrow> if cont c1 then Some ((b0 - 192) * 64 + (byte c1 - 128), 2) else None
      | _ \<Rightarrow> None)"

definition tail3 :: "nat \<Rightarrow> string \<Rightarrow> (nat \<times> nat) option" where
  "tail3 b0 cs =
     (case cs of
        c1 # c2 # _ \<Rightarrow>
          if second_lo b0 \<le> byte c1 \<and> byte c1 \<le> second_hi b0 \<and> cont c2
          then Some ((b0 - 224) * 4096 + (byte c1 - 128) * 64 + (byte c2 - 128), 3) else None
      | _ \<Rightarrow> None)"

definition tail4 :: "nat \<Rightarrow> string \<Rightarrow> (nat \<times> nat) option" where
  "tail4 b0 cs =
     (case cs of
        c1 # c2 # c3 # _ \<Rightarrow>
          if second_lo b0 \<le> byte c1 \<and> byte c1 \<le> second_hi b0 \<and> cont c2 \<and> cont c3
          then Some ((b0 - 240) * 262144 + (byte c1 - 128) * 4096
                       + (byte c2 - 128) * 64 + (byte c3 - 128), 4) else None
      | _ \<Rightarrow> None)"

definition multibyte :: "nat \<Rightarrow> string \<Rightarrow> (nat \<times> nat) option" where
  "multibyte b0 cs =
     (if 194 \<le> b0 \<and> b0 \<le> 223 then tail2 b0 cs
      else if 224 \<le> b0 \<and> b0 \<le> 239 then tail3 b0 cs
      else if 240 \<le> b0 \<and> b0 \<le> 244 then tail4 b0 cs
      else None)"

definition DecodeRune :: "string \<Rightarrow> nat \<times> nat" where
  "DecodeRune s =
     (case s of
        [] \<Rightarrow> (RuneError, 0)
      | c # cs \<Rightarrow>
          if byte c < 128 then (byte c, 1)
          else (case multibyte (byte c) cs of Some rw \<Rightarrow> rw | None \<Rightarrow> (RuneError, 1)))"

lemma tail2_Some: "tail2 b0 cs = Some x \<Longrightarrow>
    snd x = 2 \<and> 1 \<le> length cs \<and> (\<forall>c \<in> set (take 1 cs). 128 \<le> byte c) \<and> tail2 b0 (cs @ t) = Some x"
  by (cases cs) (auto simp: tail2_def cont_def split: if_splits)

lemma second_lo_ge: "128 \<le> second_lo b"
  by (simp add: second_lo_def)

lemma tail3_Some: "tail3 b0 cs = Some x \<Longrightarrow>
    snd x = 3 \<and> 2 \<le> length cs \<and> (\<forall>c \<in> set (take 2 cs). 128 \<le> byte c) \<and> tail3 b0 (cs @ t) = Some x"
  using second_lo_ge [of b0]
  by (auto simp: tail3_def cont_def numeral_2_eq_2 split: list.splits if_splits)

lemma tail4_Some: "tail4 b0 cs = Some x \<Longrightarrow>
    snd x = 4 \<and> 3 \<le> length cs \<and> (\<forall>c \<in> set (take 3 cs). 128 \<le> byte c) \<and> tail4 b0 (cs @ t) = Some x"
  using second_lo_ge [of b0]
  by (auto simp: tail4_def cont_def numeral_3_eq_3 split: list.splits if_splits)

lemma multibyte_Some:
  assumes "multibyte b0 cs = Some x"
  shows "2 \<le> snd x \<and> snd x \<le> Suc (length cs) \<and> (\<forall>c \<in> set (take (snd x - 1) cs). 128 \<le> byte c)
    \<and> multibyte b0 (cs @ t) = Some x"
proof -
  consider (two) "194 \<le> b0" "b0 \<le> 223" "tail2 b0 cs = Some x"
    | (three) "224 \<le> b0" "b0 \<le> 239" "tail3 b0 cs = Some x"
    | (four) "240 \<le> b0" "b0 \<le> 244" "tail4 b0 cs = Some x"
    using assms by (auto simp: multibyte_def split: if_splits)
  then show ?thesis
  proof cases
    case two
    with tail2_Some [OF two(3), of t] show ?thesis by (simp add: multibyte_def)
  next
    case three
    with tail3_Some [OF three(3), of t] show ?thesis by (simp add: multibyte_def)
  next
    case four
    with tail4_Some [OF four(3), of t] show ?thesis by (simp add: multibyte_def)
  qed
qed

lemmas multibyte_width = multibyte_Some [where t = "[]", THEN conjunct1]
  multibyte_Some [where t = "[]", THEN conjunct2, THEN conjunct1]

lemma multibyte_append: "multibyte b0 cs = Some x \<Longrightarrow> multibyte b0 (cs @ t) = Some x"
  using multibyte_Some [of b0 cs x t] by blast

lemma multibyte_high:
  "multibyte b0 cs = Some x \<Longrightarrow> c \<in> set (take (snd x - 1) cs) \<Longrightarrow> 128 \<le> byte c"
  using multibyte_Some [of b0 cs x "[]"] by blast

lemma DecodeRune_width: "s \<noteq> [] \<Longrightarrow> 1 \<le> snd (DecodeRune s) \<and> snd (DecodeRune s) \<le> length s"
  by (cases s) (auto simp: DecodeRune_def split: option.split dest: multibyte_width)

text \<open>The decoder looks at no byte past a valid rune, and only an ASCII rune has an ASCII byte.\<close>

lemma DecodeRune_append:
  assumes "s \<noteq> []" and "DecodeRune s \<noteq> (RuneError, 1)"
  shows "DecodeRune (s @ t) = DecodeRune s"
proof -
  obtain c cs where s: "s = c # cs" using assms(1) by (cases s) auto
  show ?thesis
    using assms(2) multibyte_append [of "byte c" cs _ t]
    by (auto simp: s DecodeRune_def split: option.splits)
qed

lemma multibyte_take:
  assumes "multibyte b0 cs = Some x"
  shows "multibyte b0 (take (snd x - 1) cs @ t) = Some x"
proof -
  have two: "tail2 b0 (take 1 cs @ t) = Some x" if "tail2 b0 cs = Some x"
    using that by (cases cs) (auto simp: tail2_def split: if_splits)
  have three: "tail3 b0 (take 2 cs @ t) = Some x" if "tail3 b0 cs = Some x"
    using that by (auto simp: tail3_def split: list.splits if_splits)
  have four: "tail4 b0 (take 3 cs @ t) = Some x" if "tail4 b0 cs = Some x"
    using that by (auto simp: tail4_def split: list.splits if_splits)
  from assms show ?thesis
    using two three four tail2_Some [of b0 cs x "[]"] tail3_Some [of b0 cs x "[]"]
      tail4_Some [of b0 cs x "[]"]
    by (simp add: multibyte_def split: if_splits)
qed

lemma DecodeRune_take:
  assumes "s \<noteq> []" and "DecodeRune s \<noteq> (RuneError, 1)"
  shows "DecodeRune (take (snd (DecodeRune s)) s @ t) = DecodeRune s"
proof -
  obtain c cs where s: "s = c # cs" using assms(1) by (cases s) auto
  show ?thesis
  proof (cases "byte c < 128")
    case True
    then show ?thesis by (simp add: s DecodeRune_def)
  next
    case False
    with assms(2) obtain x where m: "multibyte (byte c) cs = Some x"
      by (auto simp: s DecodeRune_def split: option.splits)
    then have "2 \<le> snd x" by (rule multibyte_width(1))
    then have "take (snd x) (c # cs) = c # take (snd x - 1) cs" by (cases "snd x") auto
    with False m multibyte_take [OF m, of t] show ?thesis by (simp add: s DecodeRune_def)
  qed
qed

lemma DecodeRune_high:
  assumes "DecodeRune (c # cs) = (r, w)" and "(r, w) \<noteq> (RuneError, 1)" and "128 \<le> byte c"
  shows "2 \<le> w \<and> (\<forall>d \<in> set (take w (c # cs)). 128 \<le> byte d)"
proof -
  from assms have m: "multibyte (byte c) cs = Some (r, w)"
    by (auto simp: DecodeRune_def split: option.splits)
  then have "2 \<le> w" using multibyte_width(1) [OF m] by simp
  moreover have "take w (c # cs) = c # take (w - 1) cs"
    using \<open>2 \<le> w\<close> by (cases w) auto
  ultimately show ?thesis
    using multibyte_high [OF m] assms(3) by auto
qed

function decode :: "string \<Rightarrow> (nat \<times> nat) list" where
  "decode s =
     (if s = [] then [] else DecodeRune s # decode (drop (snd (DecodeRune s)) s))"
  by pat_completeness auto
termination
proof (relation "measure length")
  fix s :: string
  assume "s \<noteq> []"
  then show "(drop (snd (DecodeRune s)) s, s) \<in> measure length"
    using DecodeRune_width [of s] by simp
qed simp

declare decode.simps [simp del]

definition runes :: "string \<Rightarrow> nat list" where
  "runes s = map fst (decode s)"

definition valid_utf8 :: "string \<Rightarrow> bool" where
  "valid_utf8 s \<longleftrightarrow> (RuneError, 1) \<notin> set (decode s)"

lemma decode_Nil [simp]: "decode [] = []"
  by (simp add: decode.simps)

lemma decode_nonempty:
  "s \<noteq> [] \<Longrightarrow> decode s = DecodeRune s # decode (drop (snd (DecodeRune s)) s)"
  by (subst decode.simps) simp

lemma decode_ascii: "byte c < 128 \<Longrightarrow> decode (c # s) = (byte c, 1) # decode s"
  by (simp add: decode_nonempty) (simp add: DecodeRune_def)

lemma decode_eq_Nil [simp]: "decode s = [] \<longleftrightarrow> s = []"
  by (cases "s = []") (simp_all add: decode_nonempty)

lemma decode_induct [case_names Nil step]:
  assumes "P []"
    and "\<And>s. s \<noteq> [] \<Longrightarrow> P (drop (snd (DecodeRune s)) s) \<Longrightarrow> P s"
  shows "P s"
  using assms by (induction s rule: decode.induct) metis

lemma decode_width_pos: "x \<in> set (decode s) \<Longrightarrow> 0 < snd x"
proof (induction s rule: decode_induct)
  case Nil
  then show ?case by simp
next
  case (step s)
  then show ?case using DecodeRune_width [of s] by (auto simp: decode_nonempty)
qed

lemma decode_widths: "sum_list (map snd (decode s)) = length s"
proof (induction s rule: decode_induct)
  case Nil
  then show ?case by simp
next
  case (step s)
  then show ?case using DecodeRune_width [of s] by (simp add: decode_nonempty)
qed

text \<open>A rune of width one is ASCII or the replacement of an invalid byte.\<close>

lemma DecodeRune_one: "DecodeRune s = (r, 1) \<Longrightarrow> r < 128 \<or> r = RuneError"
  by (cases s) (auto simp: DecodeRune_def dest!: multibyte_width(1) split: if_splits option.splits)

lemma decode_one: "(r, 1) \<in> set (decode s) \<Longrightarrow> r < 128 \<or> r = RuneError"
proof (induction s rule: decode_induct)
  case Nil
  then show ?case by simp
next
  case (step s)
  then show ?case using DecodeRune_one [of s r] by (auto simp: decode_nonempty)
qed

lemma valid_utf8_code [code]: "valid_utf8 s \<longleftrightarrow> list_all (\<lambda>(r, w). w \<noteq> 1 \<or> r < 128) (decode s)"
  using decode_one [of _ s] by (fastforce simp: valid_utf8_def list_all_iff)

section \<open>Decoding a concatenation, and injectivity on valid strings\<close>

lemma decode_append:
  "valid_utf8 s \<Longrightarrow> decode (s @ t) = decode s @ decode t"
proof (induction s rule: decode_induct)
  case Nil
  then show ?case by simp
next
  case (step s)
  then have "DecodeRune s \<noteq> (RuneError, 1)" and v: "valid_utf8 (drop (snd (DecodeRune s)) s)"
    by (auto simp: valid_utf8_def decode_nonempty)
  with step have "DecodeRune (s @ t) = DecodeRune s" by (simp add: DecodeRune_append)
  with step v DecodeRune_width [of s] show ?case by (simp add: decode_nonempty)
qed

lemma decode_take_append:
  assumes "s \<noteq> []" and "DecodeRune s \<noteq> (RuneError, 1)"
  shows "decode (take (snd (DecodeRune s)) s @ t) = DecodeRune s # decode t"
proof -
  let ?u = "take (snd (DecodeRune s)) s"
  have w: "1 \<le> snd (DecodeRune s)" "snd (DecodeRune s) \<le> length s"
    using DecodeRune_width [OF assms(1)] by simp_all
  then have "length ?u = snd (DecodeRune s)" by simp
  moreover have "?u @ t \<noteq> []" using w assms(1) by auto
  ultimately show ?thesis
    by (simp add: decode_nonempty DecodeRune_take [OF assms])
qed

lemma valid_utf8_append: "valid_utf8 s \<Longrightarrow> valid_utf8 (s @ t) \<longleftrightarrow> valid_utf8 t"
  by (simp add: decode_append valid_utf8_def)

lemma valid_utf8_Nil [simp]: "valid_utf8 []"
  by (simp add: valid_utf8_def)

lemma valid_utf8_ascii: "byte c < 128 \<Longrightarrow> valid_utf8 (c # s) \<longleftrightarrow> valid_utf8 s"
  by (auto simp: valid_utf8_def decode_ascii)

lemma runes_Nil [simp]: "runes [] = []"
  by (simp add: runes_def)

lemma runes_ascii: "byte c < 128 \<Longrightarrow> runes (c # s) = byte c # runes s"
  by (simp add: runes_def decode_ascii)

lemma runes_append: "valid_utf8 s \<Longrightarrow> runes (s @ t) = runes s @ runes t"
  by (simp add: runes_def decode_append)

lemma byte_inj: "byte c = byte d \<longleftrightarrow> c = d"
  by (simp add: byte_def)

lemma byte_bound: "byte c < 256"
proof -
  have "(of_char c :: nat) mod 256 < 256" by simp
  then show ?thesis by (simp add: byte_def)
qed

section \<open>Encoding\<close>

text \<open>\<open>utf8.AppendRune\<close>: a rune that is no Unicode scalar value is written as U+FFFD.\<close>

definition encode3 :: "nat \<Rightarrow> string" where
  "encode3 r = [char_of (224 + r div 4096), char_of (128 + (r div 64) mod 64), char_of (128 + r mod 64)]"

definition EncodeRune :: "nat \<Rightarrow> string" where
  "EncodeRune r =
     (if r < 128 then [char_of r]
      else if r < 2048 then [char_of (192 + r div 64), char_of (128 + r mod 64)]
      else if 1114111 < r \<or> (55296 \<le> r \<and> r \<le> 57343) then encode3 RuneError
      else if r < 65536 then encode3 r
      else [char_of (240 + r div 262144), char_of (128 + (r div 4096) mod 64),
            char_of (128 + (r div 64) mod 64), char_of (128 + r mod 64)])"

lemma char_of_byte [simp]: "char_of (byte c) = c"
  by (simp add: byte_def)

lemma digits64_2: "b < 64 \<Longrightarrow> (a * 64 + b) div 64 = a \<and> (a * 64 + b) mod 64 = (b::nat)"
  by simp

lemma digits64_3:
  assumes "b < 64" and "c < (64::nat)"
  shows "(a * 4096 + b * 64 + c) div 4096 = a \<and> ((a * 4096 + b * 64 + c) div 64) mod 64 = b
    \<and> (a * 4096 + b * 64 + c) mod 64 = c"
proof -
  let ?n = "a * 4096 + b * 64 + c"
  have e: "?n = (a * 64 + b) * 64 + c" by simp
  have q: "?n div 64 = a * 64 + b" and m: "?n mod 64 = c"
    unfolding e using assms(2) digits64_2 by blast+
  have h: "?n div 4096 = ?n div 64 div 64"
    by (simp only: div_mult2_eq [symmetric]) simp
  show ?thesis
    unfolding h q using m digits64_2 [OF assms(1), of a] by blast
qed

lemma digits64_4:
  assumes "b < 64" and "c < 64" and "d < (64::nat)"
  shows "(a * 262144 + b * 4096 + c * 64 + d) div 262144 = a
    \<and> ((a * 262144 + b * 4096 + c * 64 + d) div 4096) mod 64 = b
    \<and> ((a * 262144 + b * 4096 + c * 64 + d) div 64) mod 64 = c
    \<and> (a * 262144 + b * 4096 + c * 64 + d) mod 64 = d"
proof -
  let ?n = "a * 262144 + b * 4096 + c * 64 + d"
  have e: "?n = (a * 4096 + b * 64 + c) * 64 + d" by simp
  have q: "?n div 64 = a * 4096 + b * 64 + c" and m: "?n mod 64 = d"
    unfolding e using assms(3) digits64_2 by blast+
  have h: "?n div 4096 = ?n div 64 div 64" "?n div 262144 = ?n div 64 div 4096"
    by (simp_all only: div_mult2_eq [symmetric]) simp_all
  have k: "a * 4096 + b * 64 + c = (a * 64 + b) * 64 + c" by simp
  have l: "(a * 4096 + b * 64 + c) div 64 = a * 64 + b"
    unfolding k using assms(2) digits64_2 by blast
  show ?thesis
    unfolding h q l using m digits64_3 [OF assms(1,2), of a] digits64_2 [OF assms(1), of a]
    by blast
qed

lemma tail2_encode:
  assumes "tail2 (byte c) cs = Some (r, w)" and "194 \<le> byte c" and "byte c \<le> 223"
  shows "EncodeRune r = take w (c # cs)"
proof -
  obtain c1 ds where cs: "cs = c1 # ds" and c1: "cont c1" and w: "w = 2"
    and r: "r = (byte c - 192) * 64 + (byte c1 - 128)"
    using assms(1) by (auto simp: tail2_def split: list.splits if_splits)
  have lt: "byte c1 - 128 < 64" using c1 by (auto simp: cont_def)
  have "r div 64 = byte c - 192" and "r mod 64 = byte c1 - 128"
    using digits64_2 [OF lt, of "byte c - 192"] by (simp_all add: r)
  moreover have "128 \<le> r" and "r < 2048" using assms(2,3) lt by (auto simp: r)
  moreover have "128 \<le> byte c1" using c1 by (simp add: cont_def)
  ultimately show ?thesis using assms(2) by (simp add: EncodeRune_def cs w)
qed

lemma tail3_encode:
  assumes "tail3 (byte c) cs = Some (r, w)" and "224 \<le> byte c" and "byte c \<le> 239"
  shows "EncodeRune r = take w (c # cs)"
proof -
  obtain c1 c2 ds where cs: "cs = c1 # c2 # ds" and c2: "cont c2" and w: "w = 3"
    and lo: "second_lo (byte c) \<le> byte c1" and hi: "byte c1 \<le> second_hi (byte c)"
    and r: "r = (byte c - 224) * 4096 + (byte c1 - 128) * 64 + (byte c2 - 128)"
    using assms(1) by (auto simp: tail3_def split: list.splits if_splits)
  have b1: "128 \<le> byte c1" "byte c1 \<le> 191"
    using lo hi by (auto simp: second_lo_def second_hi_def split: if_splits)
  have b2: "128 \<le> byte c2" "byte c2 - 128 < 64" using c2 by (auto simp: cont_def)
  have d: "r div 4096 = byte c - 224" "(r div 64) mod 64 = byte c1 - 128" "r mod 64 = byte c2 - 128"
    using digits64_3 [of "byte c1 - 128" "byte c2 - 128" "byte c - 224"] b1 b2 by (simp_all add: r)
  have "2048 \<le> r" using lo assms(2) by (auto simp: r second_lo_def split: if_splits)
  moreover have "r < 65536"
  proof -
    have "byte c - 224 \<le> 15" "byte c1 - 128 \<le> 63" using assms(3) b1 by linarith+
    with b2 show ?thesis unfolding r by linarith
  qed
  moreover have "\<not> (55296 \<le> r \<and> r \<le> 57343)"
  proof -
    have y: "byte c1 - 128 \<le> 63" using b1 by linarith
    consider "byte c - 224 \<le> 12" | "byte c = 237" | "14 \<le> byte c - 224" by linarith
    then show ?thesis
    proof cases
      case 2
      then have "byte c1 - 128 \<le> 31" using hi by (simp add: second_hi_def)
      moreover have "byte c - 224 = 13" using 2 by simp
      ultimately show ?thesis using b2 unfolding r by linarith
    qed (use y b2 r in linarith)+
  qed
  ultimately show ?thesis
    using d b1 b2 assms(2) by (auto simp: EncodeRune_def encode3_def cs w)
qed

lemma tail4_encode:
  assumes "tail4 (byte c) cs = Some (r, w)" and "240 \<le> byte c" and "byte c \<le> 244"
  shows "EncodeRune r = take w (c # cs)"
proof -
  obtain c1 c2 c3 ds where cs: "cs = c1 # c2 # c3 # ds" and c: "cont c2" "cont c3" and w: "w = 4"
    and lo: "second_lo (byte c) \<le> byte c1" and hi: "byte c1 \<le> second_hi (byte c)"
    and r: "r = (byte c - 240) * 262144 + (byte c1 - 128) * 4096
              + (byte c2 - 128) * 64 + (byte c3 - 128)"
    using assms(1) by (auto simp: tail4_def split: list.splits if_splits)
  have b1: "128 \<le> byte c1" "byte c1 \<le> 191"
    using lo hi by (auto simp: second_lo_def second_hi_def split: if_splits)
  have b2: "128 \<le> byte c2" "byte c2 - 128 < 64" "128 \<le> byte c3" "byte c3 - 128 < 64"
    using c by (auto simp: cont_def)
  have d: "r div 262144 = byte c - 240" "(r div 4096) mod 64 = byte c1 - 128"
    "(r div 64) mod 64 = byte c2 - 128" "r mod 64 = byte c3 - 128"
    using digits64_4 [of "byte c1 - 128" "byte c2 - 128" "byte c3 - 128" "byte c - 240"] b1 b2
    by (simp_all add: r)
  have "65536 \<le> r" using lo assms(2) by (auto simp: r second_lo_def split: if_splits)
  moreover have "r \<le> 1114111"
  proof (cases "byte c = 244")
    case True
    then have "byte c1 - 128 \<le> 15" using hi by (simp add: second_hi_def)
    moreover have "byte c - 240 = 4" using True by simp
    ultimately show ?thesis using b2 unfolding r by linarith
  next
    case False
    then have "byte c - 240 \<le> 3" "byte c1 - 128 \<le> 63" using assms(3) b1 by linarith+
    with b2 show ?thesis unfolding r by linarith
  qed
  ultimately show ?thesis
    using d b1 b2 assms(2) by (simp add: EncodeRune_def cs w)
qed

lemma EncodeRune_DecodeRune:
  assumes "s \<noteq> []" and "DecodeRune s \<noteq> (RuneError, 1)"
  shows "EncodeRune (fst (DecodeRune s)) = take (snd (DecodeRune s)) s"
proof -
  obtain c cs where s: "s = c # cs" using assms(1) by (cases s) auto
  show ?thesis
  proof (cases "byte c < 128")
    case True
    then show ?thesis by (simp add: s DecodeRune_def EncodeRune_def)
  next
    case False
    with assms(2) obtain r w where m: "multibyte (byte c) cs = Some (r, w)"
      by (auto simp: s DecodeRune_def split: option.splits)
    then have "EncodeRune r = take w (c # cs)"
      using tail2_encode tail3_encode tail4_encode
      by (auto simp: multibyte_def split: if_splits)
    with False m show ?thesis by (simp add: s DecodeRune_def)
  qed
qed

lemma EncodeRune_ascii: "r < 128 \<Longrightarrow> length (EncodeRune r) = 1"
  by (simp add: EncodeRune_def)

lemma encode_runes: "valid_utf8 s \<Longrightarrow> concat (map EncodeRune (runes s)) = s"
proof (induction s rule: decode_induct)
  case Nil
  then show ?case by simp
next
  case (step s)
  then have "DecodeRune s \<noteq> (RuneError, 1)" and "valid_utf8 (drop (snd (DecodeRune s)) s)"
    by (auto simp: valid_utf8_def decode_nonempty)
  with step show ?case
    by (simp add: runes_def decode_nonempty EncodeRune_DecodeRune)
qed

text \<open>Only an ASCII byte decodes to an ASCII rune.\<close>

lemma DecodeRune_ascii_iff:
  assumes "s \<noteq> []"
  shows "fst (DecodeRune s) < 128 \<longleftrightarrow> byte (hd s) < 128"
proof -
  obtain c cs where s: "s = c # cs" using assms by (cases s) auto
  show ?thesis
  proof (cases "byte c < 128")
    case True
    then show ?thesis by (simp add: s DecodeRune_def)
  next
    case False
    show ?thesis
    proof (cases "DecodeRune s = (RuneError, 1)")
      case True
      with False show ?thesis by (simp add: s)
    next
      case nerr: False
      obtain r w where rw: "DecodeRune s = (r, w)" by (cases "DecodeRune s")
      with nerr False have "2 \<le> w" using DecodeRune_high [of c cs r w] by (simp add: s)
      moreover have "w \<le> length s" using DecodeRune_width [OF assms] rw by simp
      moreover have "EncodeRune r = take w s"
        using EncodeRune_DecodeRune [OF assms nerr] rw by simp
      ultimately have "\<not> r < 128" using EncodeRune_ascii [of r] by auto
      with False rw show ?thesis by (simp add: s)
    qed
  qed
qed

lemma runes_all_ascii: "\<forall>r \<in> set (runes s). r < 128 \<Longrightarrow> runes s = map byte s"
proof (induction s rule: decode_induct)
  case Nil
  then show ?case by simp
next
  case (step s)
  obtain c cs where s: "s = c # cs" using step(1) by (cases s) auto
  have "fst (DecodeRune s) < 128" using step by (simp add: runes_def decode_nonempty)
  then have b: "byte c < 128" using DecodeRune_ascii_iff [OF step(1)] by (simp add: s)
  then have "snd (DecodeRune s) = 1" by (simp add: s DecodeRune_def)
  with step b show ?case by (simp add: s runes_ascii)
qed

text \<open>Two valid strings with the same runes are the same string.\<close>

lemma runes_inj: "valid_utf8 s \<Longrightarrow> valid_utf8 t \<Longrightarrow> runes s = runes t \<longleftrightarrow> s = t"
  using encode_runes by metis

end
