(* ===== verification/GoSpace.thy ===== *)
theory GoSpace
  imports GoStrings Utf8
begin

text \<open>
  \<open>strings.TrimSpace\<close>: it takes the Unicode white space off both ends of a string. A string starts
  (ends) with a white-space rune iff it starts (ends) with the encoding of one, so the trim is
  stated on the encodings; a byte that is not part of a valid encoding is never white space.
\<close>

definition space_runes :: "nat list" where
  "space_runes = [9, 10, 11, 12, 13, 32, 133, 160, 5760, 8192, 8193, 8194, 8195, 8196, 8197, 8198, 8199,
     8200, 8201, 8202, 8232, 8233, 8239, 8287, 12288]"

definition spaces :: "string list" where
  "spaces = map EncodeRune space_runes"

text \<open>Take prefixes from \<open>es\<close> off, as long as there is one.\<close>

function strip :: "string list \<Rightarrow> string \<Rightarrow> string" where
  "strip es s =
     (case find (\<lambda>e. e \<noteq> [] \<and> HasPrefix s e) es of
        None \<Rightarrow> s
      | Some e \<Rightarrow> strip es (drop (length e) s))"
  by pat_completeness auto
termination
proof (relation "measure (\<lambda>(es, s). length s)", goal_cases)
  case (2 es s e)
  then have "e \<noteq> []" "HasPrefix s e" by (auto dest: find_Some_set)
  then show ?case by (cases s) (auto simp: HasPrefix_def)
qed simp

declare strip.simps [simp del]

definition TrimSpace :: "string \<Rightarrow> string" where
  "TrimSpace s = rev (strip (map rev spaces) (rev (strip spaces s)))"

section \<open>Stripping\<close>

definition strippable :: "string list \<Rightarrow> string \<Rightarrow> bool" where
  "strippable es s \<longleftrightarrow> (\<exists>e \<in> set es. e \<noteq> [] \<and> HasPrefix s e)"

lemma strip_None: "find (\<lambda>e. e \<noteq> [] \<and> HasPrefix s e) es = None \<Longrightarrow> strip es s = s"
  by (subst strip.simps) simp

lemma strip_Some:
  "find (\<lambda>e. e \<noteq> [] \<and> HasPrefix s e) es = Some e \<Longrightarrow> strip es s = strip es (drop (length e) s)"
  by (subst strip.simps) simp

lemma strippable_find: "strippable es s \<longleftrightarrow> find (\<lambda>e. e \<noteq> [] \<and> HasPrefix s e) es \<noteq> None"
  by (auto simp: strippable_def find_None_iff)

lemma strip_id: "\<not> strippable es s \<Longrightarrow> strip es s = s"
  by (simp add: strippable_find strip_None)

lemma strip_not_strippable: "\<not> strippable es (strip es s)"
proof (induction es s rule: strip.induct)
  case (1 es s)
  show ?case
  proof (cases "find (\<lambda>e. e \<noteq> [] \<and> HasPrefix s e) es")
    case None
    then show ?thesis by (simp add: strip_None strippable_find)
  next
    case (Some e)
    with 1 show ?thesis by (simp add: strip_Some)
  qed
qed

lemma strip_suffix: "\<exists>p. s = p @ strip es s"
proof (induction es s rule: strip.induct)
  case (1 es s)
  show ?case
  proof (cases "find (\<lambda>e. e \<noteq> [] \<and> HasPrefix s e) es")
    case None
    then show ?thesis by (simp add: strip_None)
  next
    case (Some e)
    with 1 obtain p where "drop (length e) s = p @ strip es (drop (length e) s)" by blast
    then have "s = (take (length e) s @ p) @ strip es s"
      by (metis strip_Some [OF Some] append.assoc append_take_drop_id)
    then show ?thesis by blast
  qed
qed

lemma strippable_prefix: "strippable es s \<Longrightarrow> strippable es (s @ t)"
  by (auto simp: strippable_def HasPrefix_def prefix_def)

text \<open>What is left of a trim has no white space at either end, and trimming again keeps it.\<close>

lemma TrimSpace_ends:
  "\<not> strippable spaces (TrimSpace s)" "\<not> strippable (map rev spaces) (rev (TrimSpace s))"
proof -
  let ?t = "strip spaces s"
  obtain p where "rev ?t = p @ strip (map rev spaces) (rev ?t)" using strip_suffix by blast
  then have "?t = TrimSpace s @ rev p" unfolding TrimSpace_def by (metis rev_append rev_rev_ident)
  then show "\<not> strippable spaces (TrimSpace s)"
    using strip_not_strippable [of spaces s] strippable_prefix by metis
  show "\<not> strippable (map rev spaces) (rev (TrimSpace s))"
    unfolding TrimSpace_def by (simp add: strip_not_strippable)
qed

lemma TrimSpace_id:
  "\<not> strippable spaces s \<Longrightarrow> \<not> strippable (map rev spaces) (rev s) \<Longrightarrow> TrimSpace s = s"
  by (simp add: TrimSpace_def strip_id)

lemma TrimSpace_idem: "TrimSpace (TrimSpace s) = TrimSpace s"
  by (rule TrimSpace_id) (rule TrimSpace_ends)+

text \<open>A token of printable ASCII characters is kept.\<close>

definition outside_ascii :: "char \<Rightarrow> bool" where
  "outside_ascii c \<longleftrightarrow> \<not> (32 < byte c \<and> byte c < 128)"

lemma spaces_outside: "list_all (\<lambda>e. e \<noteq> [] \<and> outside_ascii (hd e) \<and> outside_ascii (last e)) spaces"
  by (simp add: spaces_def space_runes_def EncodeRune_def encode3_def outside_ascii_def byte_def)

lemma space_bytes:
  assumes "e \<in> set spaces"
  shows "e \<noteq> []" "outside_ascii (hd e)" "outside_ascii (hd (rev e))"
  using spaces_outside assms by (auto simp: list_all_iff hd_rev)

lemma prefix_hd: "prefix e s \<Longrightarrow> e \<noteq> [] \<Longrightarrow> hd e \<in> set s"
  by (auto simp: prefix_def)

lemma TrimSpace_printable:
  assumes "\<forall>c \<in> set s. 32 < byte c \<and> byte c < 128"
  shows "TrimSpace s = s"
proof (rule TrimSpace_id)
  have o: "\<not> outside_ascii c" if "c \<in> set s" for c using assms that by (simp add: outside_ascii_def)
  show "\<not> strippable spaces s"
    using o prefix_hd space_bytes by (metis strippable_def HasPrefix_def)
  show "\<not> strippable (map rev spaces) (rev s)"
  proof
    assume "strippable (map rev spaces) (rev s)"
    then obtain e where e: "e \<in> set spaces" "prefix (rev e) (rev s)"
      by (auto simp: strippable_def HasPrefix_def)
    have "hd (rev e) \<in> set (rev s)" using prefix_hd [OF e(2)] space_bytes(1) [OF e(1)] by simp
    then show False using o space_bytes(3) [OF e(1)] by simp
  qed
qed

section \<open>White space around a token\<close>

text \<open>No encoding is a prefix of another one, nor a suffix.\<close>

definition prefix_free :: "'a list list \<Rightarrow> bool" where
  "prefix_free es \<longleftrightarrow> list_all (\<lambda>e. list_all (\<lambda>e'. prefix e e' \<longrightarrow> e = e') es) es"

lemma prefix_free_map: "inj f \<Longrightarrow> prefix_free (map (map f) es) \<Longrightarrow> prefix_free es"
  by (auto simp: prefix_free_def list_all_iff inj_map_eq_map dest: map_mono_prefix)

lemma inj_byte: "inj byte"
  by (rule injI) (simp add: byte_inj)

lemma spaces_bytes: "map (map byte) spaces =
    [[9], [10], [11], [12], [13], [32], [194, 133], [194, 160], [225, 154, 128]]
    @ map (\<lambda>b. [226, 128, b]) [128, 129, 130, 131, 132, 133, 134, 135, 136, 137, 138, 168, 169, 175]
    @ [[226, 129, 159], [227, 128, 128]]"
  by (simp add: spaces_def space_runes_def EncodeRune_def encode3_def byte_def)

lemma spaces_prefix_free: "prefix_free spaces" "prefix_free (map rev spaces)"
proof -
  have "prefix_free (map (map byte) spaces)"
    by (simp add: spaces_bytes prefix_free_def)
  then show "prefix_free spaces" by (rule prefix_free_map [OF inj_byte])
  have "prefix_free (map rev (map (map byte) spaces))"
    by (simp add: spaces_bytes prefix_free_def)
  then have "prefix_free (map (map byte) (map rev spaces))" by (simp add: comp_def rev_map)
  then show "prefix_free (map rev spaces)" by (rule prefix_free_map [OF inj_byte])
qed

lemma strip_one:
  assumes "prefix_free es" and "e \<in> set es" and "e \<noteq> []"
  shows "strip es (e @ t) = strip es t"
proof -
  obtain e' where f: "find (\<lambda>e'. e' \<noteq> [] \<and> HasPrefix (e @ t) e') es = Some e'"
    using assms(2,3) strippable_find [of es "e @ t"] by (auto simp: strippable_def HasPrefix_def)
  then have "e' \<in> set es" "prefix e' (e @ t)" by (auto simp: HasPrefix_def dest: find_Some_set)
  then have "e' = e"
    using assms(1,2) prefix_same_cases [of e' "e @ t" e] by (auto simp: prefix_free_def list_all_iff)
  then show ?thesis using strip_Some [OF f] by simp
qed

lemma strip_many: "prefix_free es \<Longrightarrow> [] \<notin> set es \<Longrightarrow> set ws \<subseteq> set es \<Longrightarrow> strip es (concat ws @ t) = strip es t"
proof (induction ws)
  case (Cons w ws)
  then have "w \<in> set es" "w \<noteq> []" by auto
  with Cons strip_one [of es w "concat ws @ t"] show ?case by simp
qed simp

lemma strip_Nil [simp]: "strip es [] = []"
  by (rule strip_id) (auto simp: strippable_def HasPrefix_def)

lemma TrimSpace_around:
  assumes "set before \<subseteq> set spaces" and "set after \<subseteq> set spaces"
    and "\<forall>c \<in> set tok. 32 < byte c \<and> byte c < 128"
  shows "TrimSpace (concat before @ tok @ concat after) = tok"
proof -
  have ne: "[] \<notin> set spaces" using space_bytes(1) by blast
  have p: "TrimSpace tok = tok" by (rule TrimSpace_printable [OF assms(3)])
  have s1: "strip spaces (concat before @ tok @ concat after) = strip spaces (tok @ concat after)"
    by (rule strip_many [OF spaces_prefix_free(1) ne assms(1)])
  have r: "strip (map rev spaces) (rev (tok @ concat after)) = strip (map rev spaces) (rev tok)"
  proof -
    have "rev (tok @ concat after) = concat (map rev (rev after)) @ rev tok"
      by (simp add: rev_concat rev_map)
    moreover have "set (map rev (rev after)) \<subseteq> set (map rev spaces)" using assms(2) by auto
    moreover have "[] \<notin> set (map rev spaces)" using ne by auto
    ultimately show ?thesis using strip_many [OF spaces_prefix_free(2)] by metis
  qed
  show ?thesis
  proof (cases "tok = []")
    case True
    have "strip spaces (concat after) = []"
      using strip_many [OF spaces_prefix_free(1) ne assms(2), of "[]"] by simp
    then show ?thesis using s1 True by (simp add: TrimSpace_def)
  next
    case False
    have "\<not> strippable spaces (tok @ concat after)"
    proof
      assume "strippable spaces (tok @ concat after)"
      then obtain e where e: "e \<in> set spaces" "prefix e (tok @ concat after)"
        by (auto simp: strippable_def HasPrefix_def)
      then have "hd e = hd tok" using False space_bytes(1) [OF e(1)]
        by (auto simp: prefix_def) (metis hd_append2)
      then have "outside_ascii (hd tok)" using space_bytes(2) [OF e(1)] by simp
      then show False using assms(3) False by (simp add: outside_ascii_def)
    qed
    then have "strip spaces (concat before @ tok @ concat after) = tok @ concat after"
      using s1 strip_id by metis
    moreover have "strip (map rev spaces) (rev tok) = rev tok"
    proof -
      have "\<not> strippable spaces tok" using TrimSpace_ends(1) [of tok] by (simp add: p)
      then show ?thesis using p by (metis TrimSpace_def rev_swap strip_id)
    qed
    ultimately show ?thesis using r by (simp add: TrimSpace_def)
  qed
qed

end
