(* ===== verification/Base64.thy ===== *)
theory Base64
  imports Utf8
begin

text \<open>
  \<open>base64.RawURLEncoding\<close> of \<open>encoding/base64\<close>: the decoder skips carriage returns and newlines,
  rejects every other byte outside the URL alphabet and a last group of one character, and does
  not check the unused bits of the last group.
\<close>

definition sextet :: "char \<Rightarrow> nat option" where
  "sextet c =
     (let b = byte c in
      if 65 \<le> b \<and> b \<le> 90 then Some (b - 65)
      else if 97 \<le> b \<and> b \<le> 122 then Some (b - 71)
      else if 48 \<le> b \<and> b \<le> 57 then Some (b + 4)
      else if b = 45 then Some 62 else if b = 95 then Some 63 else None)"

fun sextets :: "string \<Rightarrow> nat list option" where
  "sextets [] = Some []"
| "sextets (c # cs) =
     (if byte c = 10 \<or> byte c = 13 then sextets cs
      else (case sextet c of
              None \<Rightarrow> None
            | Some v \<Rightarrow> map_option ((#) v) (sextets cs)))"

fun quanta :: "nat list \<Rightarrow> string option" where
  "quanta [] = Some []"
| "quanta [a] = None"
| "quanta [a, b] = Some [char_of (4 * a + b div 16)]"
| "quanta [a, b, c] = Some [char_of (4 * a + b div 16), char_of (16 * (b mod 16) + c div 4)]"
| "quanta (a # b # c # d # rest) =
     map_option (\<lambda>t. char_of (4 * a + b div 16) # char_of (16 * (b mod 16) + c div 4)
                       # char_of (64 * (c mod 4) + d) # t) (quanta rest)"

definition RawURL_DecodeString :: "string \<Rightarrow> string option" where
  "RawURL_DecodeString s = (case sextets s of None \<Rightarrow> None | Some vs \<Rightarrow> quanta vs)"

section \<open>The encoder, and the round trip\<close>

definition alphabet :: "nat \<Rightarrow> char" where
  "alphabet v = (if v < 26 then char_of (v + 65) else if v < 52 then char_of (v + 71)
                 else if v < 62 then char_of (v - 4) else if v = 62 then CHR ''-'' else CHR ''_'')"

fun RawURL_EncodeToString :: "string \<Rightarrow> string" where
  "RawURL_EncodeToString [] = []"
| "RawURL_EncodeToString [x] = [alphabet (byte x div 4), alphabet (16 * (byte x mod 4))]"
| "RawURL_EncodeToString [x, y] =
     [alphabet (byte x div 4), alphabet (16 * (byte x mod 4) + byte y div 16),
      alphabet (4 * (byte y mod 16))]"
| "RawURL_EncodeToString (x # y # z # rest) =
     alphabet (byte x div 4) # alphabet (16 * (byte x mod 4) + byte y div 16)
     # alphabet (4 * (byte y mod 16) + byte z div 64) # alphabet (byte z mod 64)
     # RawURL_EncodeToString rest"

lemma byte_char_of: "n < 256 \<Longrightarrow> byte (char_of n) = n"
  by (simp add: byte_def)

lemma byte_alphabet: "v < 64 \<Longrightarrow> byte (alphabet v) =
    (if v < 26 then v + 65 else if v < 52 then v + 71 else if v < 62 then v - 4
     else if v = 62 then 45 else 95)"
proof -
  have "byte (CHR ''-'') = 45" "byte (CHR ''_'') = 95" by (simp_all add: byte_def)
  then show "v < 64 \<Longrightarrow> ?thesis" by (simp add: alphabet_def byte_char_of)
qed

lemma sextet_alphabet: "v < 64 \<Longrightarrow> sextet (alphabet v) = Some v"
proof -
  assume v: "v < 64"
  have "v < 26 \<or> (\<not> v < 26 \<and> v < 52) \<or> (\<not> v < 52 \<and> v < 62) \<or> v = 62 \<or> v = 63" using v by linarith
  then show ?thesis
    by (elim disjE) (use v in \<open>auto simp: sextet_def byte_alphabet Let_def\<close>)
qed

lemma byte_alphabet_no_newline: "v < 64 \<Longrightarrow> byte (alphabet v) \<noteq> 10 \<and> byte (alphabet v) \<noteq> 13"
  by (auto simp: byte_alphabet)

lemma sextets_alphabet: "v < 64 \<Longrightarrow> sextets (alphabet v # s) = map_option ((#) v) (sextets s)"
  by (simp add: sextet_alphabet byte_alphabet_no_newline)

lemma byte_lt: "byte x div 4 < 64" "byte x div 16 < 16" "byte x div 64 < 4"
  using byte_bound [of x] by auto

lemma sextet_bounds: "(p :: nat) < 4 \<Longrightarrow> q < 16 \<Longrightarrow> 16 * p + q < 64"
  "(q :: nat) < 16 \<Longrightarrow> p < 4 \<Longrightarrow> 4 * q + p < 64"
  by simp_all

theorem base64_roundtrip: "RawURL_DecodeString (RawURL_EncodeToString s) = Some s"
proof (induction s rule: RawURL_EncodeToString.induct)
  case 1
  then show ?case by (simp add: RawURL_DecodeString_def)
next
  case (2 x)
  have "4 * (byte x div 4) + 16 * (byte x mod 4) div 16 = byte x" by simp
  then show ?case
    using byte_lt [of x] by (simp add: RawURL_DecodeString_def sextets_alphabet del: sextets.simps(2))
next
  case (3 x y)
  then show ?case
    using byte_lt [of x] byte_lt [of y]
    by (simp add: RawURL_DecodeString_def sextets_alphabet del: sextets.simps(2))
next
  case (4 x y z rest)
  then obtain vs where vs: "sextets (RawURL_EncodeToString rest) = Some vs" "quanta vs = Some rest"
    by (auto simp: RawURL_DecodeString_def split: option.splits)
  have lt: "byte x div 4 < 64" "16 * (byte x mod 4) + byte y div 16 < 64"
    "4 * (byte y mod 16) + byte z div 64 < 64" "byte z mod 64 < 64"
    by (simp_all only: byte_lt sextet_bounds mod_less_divisor zero_less_numeral)
  have b: "4 * (byte x div 4) + (16 * (byte x mod 4) + byte y div 16) div 16 = byte x"
    "16 * ((16 * (byte x mod 4) + byte y div 16) mod 16) + (4 * (byte y mod 16) + byte z div 64) div 4 = byte y"
    "64 * ((4 * (byte y mod 16) + byte z div 64) mod 4) + byte z mod 64 = byte z"
    using byte_lt [of y] byte_lt [of z] by (simp_all add: div_add1_eq)
  have "sextets (RawURL_EncodeToString (x # y # z # rest)) =
      Some (byte x div 4 # (16 * (byte x mod 4) + byte y div 16)
            # (4 * (byte y mod 16) + byte z div 64) # byte z mod 64 # vs)"
    using vs(1) by (simp only: RawURL_EncodeToString.simps sextets_alphabet lt option.map)
  then show ?case
    by (simp only: RawURL_DecodeString_def option.case quanta.simps b vs(2) option.map char_of_byte)
qed

end
