(* ===== verification/GoTime.thy ===== *)
theory GoTime
  imports Prelude "HOL-Library.Word"
begin

text \<open>
  Go's package \<open>time\<close>: a \<open>Duration\<close> is a 64-bit count of nanoseconds, read as signed; a \<open>Time\<close> is
  the integer number of nanoseconds since the year 1, where Go counts its seconds from.
  \<open>time.Unix\<close> adds its argument to the offset of the epoch in 64 bits, so it wraps; the method
  \<open>Unix\<close> is its inverse; \<open>Sub\<close> saturates.
\<close>

type_synonym duration = "64 word"
type_synonym time = int

definition Nanosecond :: int where "Nanosecond = 1"
definition Second :: duration where "Second = 1000000000"
definition Minute :: duration where "Minute = 60 * Second"

definition unixToInternal :: "64 word" where
  "unixToInternal = 62135596800"

definition time_Unix :: "64 word \<Rightarrow> time" where
  "time_Unix sec = sint (sec + unixToInternal) * 1000000000"

definition Unix :: "time \<Rightarrow> 64 word" where
  "Unix t = word_of_int (t div 1000000000) - unixToInternal"

definition Add :: "time \<Rightarrow> duration \<Rightarrow> time" where
  "Add t d = t + sint d"

definition Before :: "time \<Rightarrow> time \<Rightarrow> bool" where
  "Before t u \<longleftrightarrow> t < u"

definition Sub :: "time \<Rightarrow> time \<Rightarrow> duration" where
  "Sub t u = word_of_int (max (- (2 ^ 63)) (min (2 ^ 63 - 1) (t - u)))"

lemma sint_64_bounds: "- (2 ^ 63) \<le> sint (d :: 64 word)" "sint (d :: 64 word) < 2 ^ 63"
  using sint_range_size [of d] by (auto simp: word_size)

lemma sint_word_of_int_64: "- (2 ^ 63) \<le> i \<Longrightarrow> i < 2 ^ 63 \<Longrightarrow> sint (word_of_int i :: 64 word) = i"
  by (simp add: signed_take_bit_int_eq_self_iff sint_sbintrunc')

lemma sint_Sub: "sint (Sub t u) = max (- (2 ^ 63)) (min (2 ^ 63 - 1) (t - u))"
  unfolding Sub_def by (rule sint_word_of_int_64) auto

lemma Unix_time_Unix: "Unix (time_Unix sec) = sec"
  by (simp add: Unix_def time_Unix_def)

text \<open>The seconds of a time, where they fit in 64 bits: rounded down.\<close>

lemma sint_Unix:
  assumes "- (2 ^ 63) \<le> t div 1000000000 - 62135596800" and "t div 1000000000 - 62135596800 < 2 ^ 63"
  shows "sint (Unix t) = t div 1000000000 - 62135596800"
proof -
  have "Unix t = word_of_int (t div 1000000000 - 62135596800)"
    by (simp add: Unix_def unixToInternal_def)
  then show ?thesis using sint_word_of_int_64 [OF assms] by simp
qed

end
