(* ===== verification/Json.thy ===== *)
theory Json
  imports Prelude Utf8 "HOL-Library.AList"
begin

text \<open>
  The part of \<open>encoding/json\<close> the program uses. \<open>Decoder.Decode\<close> reads the first value of its
  input and leaves what follows; \<open>Unmarshal\<close> allows only white space after it. The scanner and
  the unquoting of strings are those of the library: control characters are rejected, an
  unpaired surrogate escape and a byte that is not UTF-8 become U+FFFD, more than 10000 open
  brackets are an error, and a number is kept as its literal (\<open>UseNumber\<close>).

  The syntax tree keeps repeated keys in order; \<open>interface_of\<close> is what a decoded
  \<open>map[string]any\<close> holds, where a later binding of a key replaces an earlier one. The parser
  takes fuel, twice the length of its input; \<open>jvalue_fuel\<close> shows that more changes nothing.
\<close>

section \<open>Values\<close>

datatype json =
    JNull
  | JBool bool
  | JNum string
  | JStr string
  | JArr "json list"
  | JObj "(string \<times> json) list"

section \<open>Tokens\<close>

definition json_space :: "char \<Rightarrow> bool" where
  "json_space c \<longleftrightarrow> byte c = 32 \<or> byte c = 9 \<or> byte c = 10 \<or> byte c = 13"

definition skip_ws :: "string \<Rightarrow> string" where
  "skip_ws s = dropWhile json_space s"

definition digit :: "char \<Rightarrow> bool" where
  "digit c \<longleftrightarrow> 48 \<le> byte c \<and> byte c \<le> 57"

definition hex_digit :: "char \<Rightarrow> nat option" where
  "hex_digit c =
     (let b = byte c in
      if 48 \<le> b \<and> b \<le> 57 then Some (b - 48)
      else if 97 \<le> b \<and> b \<le> 102 then Some (b - 87)
      else if 65 \<le> b \<and> b \<le> 70 then Some (b - 55) else None)"

text \<open>The four digits after \<open>\u\<close>.\<close>

definition hex4 :: "string \<Rightarrow> (nat \<times> string) option" where
  "hex4 s =
     (case s of
        a # b # c # d # k \<Rightarrow>
          (case (hex_digit a, hex_digit b, hex_digit c, hex_digit d) of
             (Some w, Some x, Some y, Some z) \<Rightarrow> Some (((w * 16 + x) * 16 + y) * 16 + z, k)
           | _ \<Rightarrow> None)
      | _ \<Rightarrow> None)"

text \<open>
  A surrogate half is combined with the escape that follows it when the two are a pair;
  otherwise it stands for U+FFFD and the next escape is read on its own.
\<close>

definition surrogate :: "nat \<Rightarrow> string \<Rightarrow> nat \<times> string" where
  "surrogate r k =
     (if \<not> (55296 \<le> r \<and> r < 57344) then (r, k)
      else (case k of
              a # b # k' \<Rightarrow>
                if byte a = 92 \<and> byte b = 117 then
                  (case hex4 k' of
                     Some (r1, k1) \<Rightarrow>
                       if r < 56320 \<and> 56320 \<le> r1 \<and> r1 < 57344
                       then (65536 + (r - 55296) * 1024 + (r1 - 56320), k1)
                       else (RuneError, k)
                   | None \<Rightarrow> (RuneError, k))
                else (RuneError, k)
            | _ \<Rightarrow> (RuneError, k)))"

definition simple_escape :: "char \<Rightarrow> char option" where
  "simple_escape c =
     (let b = byte c in
      if b = 34 \<or> b = 92 \<or> b = 47 then Some c
      else if b = 98 then Some (char_of (8 :: nat)) else if b = 102 then Some (char_of (12 :: nat))
      else if b = 110 then Some (char_of (10 :: nat)) else if b = 114 then Some (char_of (13 :: nat))
      else if b = 116 then Some (char_of (9 :: nat)) else None)"

lemma hex4_length: "hex4 s = Some (r, k) \<Longrightarrow> length k < length s"
  by (auto simp: hex4_def split: list.splits option.splits)

lemma surrogate_length: "length (snd (surrogate r k)) \<le> length k"
  by (auto simp: surrogate_def dest!: hex4_length split: list.split option.split)

lemma DecodeRune_drop: "length (drop (snd (DecodeRune (c # cs))) (c # cs)) < length (c # cs)"
  using DecodeRune_width [of "c # cs"] by simp

text \<open>A string after its opening quote: its contents and the input after the closing quote.\<close>

function scan_string :: "string \<Rightarrow> (string \<times> string) option" where
  "scan_string [] = None"
| "scan_string (c # cs) =
     (if byte c = 34 then Some ([], cs)
      else if byte c = 92 then
        (case cs of
           [] \<Rightarrow> None
         | e # k \<Rightarrow>
             if byte e = 117 then
               (case hex4 k of
                  None \<Rightarrow> None
                | Some (r, k1) \<Rightarrow>
                    map_option (apfst ((@) (EncodeRune (fst (surrogate r k1)))))
                      (scan_string (snd (surrogate r k1))))
             else (case simple_escape e of
                     None \<Rightarrow> None
                   | Some x \<Rightarrow> map_option (apfst ((#) x)) (scan_string k)))
      else if byte c < 32 then None
      else map_option (apfst ((@) (EncodeRune (fst (DecodeRune (c # cs))))))
             (scan_string (drop (snd (DecodeRune (c # cs))) (c # cs))))"
  by pat_completeness auto
termination
proof (relation "measure length", goal_cases)
  case 1
  then show ?case by simp
next
  case (2 c cs e k a r k1)
  then have "length k1 < length k" by (auto dest: hex4_length)
  with 2 show ?case using surrogate_length [of r k1] by simp
next
  case (3 c cs e k a)
  then show ?case by simp
next
  case (4 c cs)
  then show ?case using DecodeRune_drop [of c cs] by (simp only: in_measure)
qed

lemma scan_string_length: "scan_string s = Some (t, k) \<Longrightarrow> length k < length s"
proof (induction s arbitrary: t rule: length_induct)
  case (1 s)
  note IH = 1(1) and * = 1(2)
  show ?case
  proof (cases s)
    case Nil
    with * show ?thesis by simp
  next
    case (Cons c cs)
    have step: "length k < Suc (length cs)"
      if "scan_string u = Some (t', k)" and "length u \<le> length cs" for u t'
    proof -
      have "length u < length s" using that(2) by (simp add: Cons)
      then have "length k < length u" using IH that(1) by blast
      with that(2) show ?thesis by linarith
    qed
    have sur: "length (snd (surrogate r k1)) \<le> length (e # k')" if "length k1 < length k'" for r k1 e k'
      using surrogate_length [of r k1] that by simp
    have dr: "length (drop (snd (DecodeRune (c # cs))) (c # cs)) \<le> length cs"
      using DecodeRune_drop [of c cs] by (simp only: length_Cons less_Suc_eq_le)
    consider (quote) "byte c = 34" | (esc) "byte c = 92" | (ctl) "byte c \<noteq> 92" "byte c < 32"
      | (rune) "byte c \<noteq> 34" "byte c \<noteq> 92" "\<not> byte c < 32" by linarith
    then show ?thesis
    proof cases
      case quote
      with * show ?thesis by (simp add: Cons)
    next
      case esc
      then obtain e k' where cs: "cs = e # k'" using * unfolding Cons by (cases cs) auto
      show ?thesis
      proof (cases "byte e = 117")
        case True
        then obtain r k1 u where "hex4 k' = Some (r, k1)"
          "scan_string (snd (surrogate r k1)) = Some (u, k)"
          using * esc unfolding Cons cs by (auto split: option.splits)
        with step [OF this(2)] sur [of k1 k' r e] show ?thesis
          by (simp add: Cons cs hex4_length)
      next
        case False
        then obtain u where "scan_string k' = Some (u, k)"
          using * esc unfolding Cons cs by (auto split: option.splits)
        from step [OF this] show ?thesis by (simp add: Cons cs)
      qed
    next
      case ctl
      with * show ?thesis by (simp add: Cons)
    next
      case rune
      then obtain u where "scan_string (drop (snd (DecodeRune (c # cs))) (c # cs)) = Some (u, k)"
        using * unfolding Cons by auto
      from step [OF this dr] show ?thesis by (simp add: Cons)
    qed
  qed
qed

section \<open>Numbers\<close>

text \<open>The digits at the front: at least one.\<close>

definition scan_digits :: "string \<Rightarrow> (string \<times> string) option" where
  "scan_digits s = (if takeWhile digit s = [] then None else Some (takeWhile digit s, dropWhile digit s))"

definition scan_int :: "string \<Rightarrow> (string \<times> string) option" where
  "scan_int s =
     (case s of
        [] \<Rightarrow> None
      | c # cs \<Rightarrow> if byte c = 48 then Some ([c], cs) else scan_digits s)"

definition scan_frac :: "string \<Rightarrow> (string \<times> string) option" where
  "scan_frac s =
     (case s of
        c # cs \<Rightarrow> if byte c = 46 then map_option (apfst ((#) c)) (scan_digits cs) else Some ([], s)
      | [] \<Rightarrow> Some ([], []))"

definition scan_exp :: "string \<Rightarrow> (string \<times> string) option" where
  "scan_exp s =
     (case s of
        c # cs \<Rightarrow>
          if byte c = 69 \<or> byte c = 101 then
            (case cs of
               d # ds \<Rightarrow>
                 if byte d = 43 \<or> byte d = 45
                 then map_option (apfst (\<lambda>t. c # d # t)) (scan_digits ds)
                 else map_option (apfst ((#) c)) (scan_digits cs)
             | [] \<Rightarrow> None)
          else Some ([], s)
      | [] \<Rightarrow> Some ([], []))"

definition scan_number :: "string \<Rightarrow> (string \<times> string) option" where
  "scan_number s =
     (let sign = (case s of c # _ \<Rightarrow> if byte c = 45 then [c] else [] | [] \<Rightarrow> []) in
      Option.bind (scan_int (drop (length sign) s)) (\<lambda>(i, s1).
      Option.bind (scan_frac s1) (\<lambda>(f, s2).
      Option.bind (scan_exp s2) (\<lambda>(e, s3). Some (sign @ i @ f @ e, s3)))))"

lemma scan_digits_eq: "scan_digits s = Some (t, k) \<Longrightarrow> s = t @ k \<and> t \<noteq> []"
  by (auto simp: scan_digits_def split: if_splits)

lemma scan_int_eq: "scan_int s = Some (t, k) \<Longrightarrow> s = t @ k \<and> t \<noteq> []"
  by (auto simp: scan_int_def dest!: scan_digits_eq split: list.splits if_splits)

lemma scan_frac_eq: "scan_frac s = Some (t, k) \<Longrightarrow> s = t @ k"
  by (auto simp: scan_frac_def dest!: scan_digits_eq split: list.splits if_splits)

lemma scan_exp_eq: "scan_exp s = Some (t, k) \<Longrightarrow> s = t @ k"
  by (auto simp: scan_exp_def dest!: scan_digits_eq split: list.splits if_splits)

lemma scan_number_eq:
  assumes "scan_number s = Some (t, k)"
  shows "s = t @ k \<and> t \<noteq> []"
proof -
  define sign where "sign = (case s of c # _ \<Rightarrow> if byte c = 45 then [c] else [] | [] \<Rightarrow> [])"
  have s: "s = sign @ drop (length sign) s" by (auto simp: sign_def split: list.split)
  obtain i s1 f s2 e where
    1: "scan_int (drop (length sign) s) = Some (i, s1)" "scan_frac s1 = Some (f, s2)"
       "scan_exp s2 = Some (e, k)" "t = sign @ i @ f @ e"
    using assms unfolding scan_number_def Let_def sign_def [symmetric]
    by (auto simp: Option.bind_eq_Some_conv)
  with s show ?thesis
    using scan_int_eq [OF 1(1)] scan_frac_eq [OF 1(2)] scan_exp_eq [OF 1(3)] by auto
qed

section \<open>Values\<close>

definition literal :: "string \<Rightarrow> 'a \<Rightarrow> string \<Rightarrow> ('a \<times> string) option" where
  "literal w v s = (if take (length w) s = w then Some (v, drop (length w) s) else None)"

fun jvalue :: "nat \<Rightarrow> int \<Rightarrow> string \<Rightarrow> (json \<times> string) option"
  and jelems :: "nat \<Rightarrow> int \<Rightarrow> string \<Rightarrow> (json list \<times> string) option"
  and jmembers :: "nat \<Rightarrow> int \<Rightarrow> string \<Rightarrow> ((string \<times> json) list \<times> string) option" where
  "jvalue 0 d s = None"
| "jvalue (Suc n) d s =
     (case skip_ws s of
        [] \<Rightarrow> None
      | c # cs \<Rightarrow>
          if byte c = 34 then map_option (apfst JStr) (scan_string cs)
          else if byte c = 91 then
            (if 10000 \<le> d then None
             else (case skip_ws cs of
                     [] \<Rightarrow> None
                   | c1 # k \<Rightarrow> if byte c1 = 93 then Some (JArr [], k)
                                else map_option (apfst JArr) (jelems n (d + 1) cs)))
          else if byte c = 123 then
            (if 10000 \<le> d then None
             else (case skip_ws cs of
                     [] \<Rightarrow> None
                   | c1 # k \<Rightarrow> if byte c1 = 125 then Some (JObj [], k)
                                else map_option (apfst JObj) (jmembers n (d + 1) cs)))
          else if byte c = 45 \<or> digit c then map_option (apfst JNum) (scan_number (c # cs))
          else if byte c = 110 then literal ''null'' JNull (c # cs)
          else if byte c = 116 then literal ''true'' (JBool True) (c # cs)
          else if byte c = 102 then literal ''false'' (JBool False) (c # cs)
          else None)"
| "jelems 0 d s = None"
| "jelems (Suc n) d s =
     (case jvalue n d s of
        None \<Rightarrow> None
      | Some (v, s1) \<Rightarrow>
          (case skip_ws s1 of
             [] \<Rightarrow> None
           | c # k \<Rightarrow> if byte c = 44 then map_option (apfst ((#) v)) (jelems n d k)
                       else if byte c = 93 then Some ([v], k) else None))"
| "jmembers 0 d s = None"
| "jmembers (Suc n) d s =
     (case skip_ws s of
        [] \<Rightarrow> None
      | q # s1 \<Rightarrow>
          if byte q \<noteq> 34 then None
          else (case scan_string s1 of
                  None \<Rightarrow> None
                | Some (key, s2) \<Rightarrow>
                    (case skip_ws s2 of
                       [] \<Rightarrow> None
                     | cl # s3 \<Rightarrow>
                         if byte cl \<noteq> 58 then None
                         else (case jvalue n d s3 of
                                 None \<Rightarrow> None
                               | Some (v, s4) \<Rightarrow>
                                   (case skip_ws s4 of
                                      [] \<Rightarrow> None
                                    | c # k \<Rightarrow>
                                        if byte c = 44
                                        then map_option (apfst ((#) (key, v))) (jmembers n d k)
                                        else if byte c = 125 then Some ([(key, v)], k)
                                        else None)))))"

text \<open>\<open>Decode\<close> and \<open>Unmarshal\<close>, up to the conversion to the type of the target.\<close>

definition Decode :: "string \<Rightarrow> (json \<times> string) option" where
  "Decode s = jvalue (2 * length s + 1) 0 s"

definition Unmarshal :: "string \<Rightarrow> json option" where
  "Unmarshal s =
     (case Decode s of
        None \<Rightarrow> None
      | Some (v, k) \<Rightarrow> if skip_ws k = [] then Some v else None)"

section \<open>The parser makes progress, and its fuel is enough\<close>

lemma skip_ws_length: "skip_ws s = c # cs \<Longrightarrow> length cs < length s"
  unfolding skip_ws_def by (metis length_Cons length_dropWhile_le not_less_eq_eq not_le)

lemma literal_length: "literal w v s = Some (x, k) \<Longrightarrow> w \<noteq> [] \<Longrightarrow> length k < length s"
  by (cases s) (auto simp: literal_def split: if_splits)

lemma scan_number_length: "scan_number s = Some (t, k) \<Longrightarrow> length k < length s"
  by (auto dest!: scan_number_eq)

lemma parser_progress:
  "jvalue n d s = Some (v, k) \<Longrightarrow> length k < length s"
  "jelems n d s = Some (vs, k) \<Longrightarrow> length k < length s"
  "jmembers n d s = Some (ms, k) \<Longrightarrow> length k < length s"
proof (induction n d s and n d s and n d s arbitrary: v k and vs k and ms k
       rule: jvalue_jelems_jmembers.induct)
  case (2 n d s)
  then show ?case
    by (auto split: list.splits if_splits
             dest!: skip_ws_length scan_string_length scan_number_length literal_length)
      (metis less_trans)+
next
  case (4 n d s)
  then show ?case
    by (auto split: list.splits option.splits if_splits dest!: skip_ws_length) fastforce+
next
  case (6 n d s)
  then show ?case
    by (auto split: list.splits option.splits if_splits dest!: skip_ws_length scan_string_length)
      fastforce+
qed simp_all

lemma parser_fuel:
  "2 * length s < n \<Longrightarrow> 2 * length s < m \<Longrightarrow> jvalue n d s = jvalue m d s"
  "2 * length s + 1 < n \<Longrightarrow> 2 * length s + 1 < m \<Longrightarrow> jelems n d s = jelems m d s"
  "2 * length s + 1 < n \<Longrightarrow> 2 * length s + 1 < m \<Longrightarrow> jmembers n d s = jmembers m d s"
proof (induction n d s and n d s and n d s arbitrary: m and m and m
       rule: jvalue_jelems_jmembers.induct)
  case (2 n d s)
  from 2(4) obtain m' where m: "m = Suc m'" by (cases m) auto
  show ?case
  proof (cases "skip_ws s")
    case Nil
    then show ?thesis by (simp add: m)
  next
    case (Cons c cs)
    have l: "2 * length cs + 1 < n" "2 * length cs + 1 < m'"
      using skip_ws_length [OF Cons] 2(3,4) m by auto
    have "jelems n (d + 1) cs = jelems m' (d + 1) cs"
      if "byte c \<noteq> 34" "byte c = 91" "\<not> 10000 \<le> d" "skip_ws cs = c1 # k" "byte c1 \<noteq> 93" for c1 k
      using 2(1) [OF Cons that l] .
    moreover have "jmembers n (d + 1) cs = jmembers m' (d + 1) cs"
      if "byte c \<noteq> 34" "byte c \<noteq> 91" "byte c = 123" "\<not> 10000 \<le> d" "skip_ws cs = c1 # k" "byte c1 \<noteq> 125" for c1 k
      using 2(2) [OF Cons that l] .
    ultimately show ?thesis by (simp add: m Cons split: list.split)
  qed
next
  case (4 n d s)
  from 4(4) obtain m' where m: "m = Suc m'" by (cases m) auto
  have v: "jvalue n d s = jvalue m' d s" using 4(1) [of m'] 4(3,4) m by simp
  show ?case
  proof (cases "jvalue n d s")
    case None
    then show ?thesis using v by (simp add: m)
  next
    case (Some p)
    then obtain x s1 where p: "jvalue n d s = Some (x, s1)" by (cases p) auto
    note s1 = parser_progress(1) [OF p]
    show ?thesis
    proof (cases "skip_ws s1")
      case Nil
      then show ?thesis using p v by (simp add: m)
    next
      case (Cons c k)
      have "2 * length k + 1 < n" "2 * length k + 1 < m'"
        using skip_ws_length [OF Cons] s1 4(3,4) m by auto
      then have "byte c = 44 \<Longrightarrow> jelems n d k = jelems m' d k"
        using 4(2) [OF p refl Cons] by blast
      then show ?thesis using p v by (simp add: m Cons)
    qed
  qed
next
  case (6 n d s)
  from 6(4) obtain m' where m: "m = Suc m'" by (cases m) auto
  have A: "jvalue n d s3 = jvalue m' d s3"
    if "skip_ws s = q # s1" "byte q = 34" "scan_string s1 = Some (key, s2)" "skip_ws s2 = cl # s3"
      "byte cl = 58" for q s1 key s2 cl s3
  proof -
    have "length s3 < length s"
      using skip_ws_length [OF that(1)] scan_string_length [OF that(3)] skip_ws_length [OF that(4)] by simp
    then show ?thesis
      using 6(1) [OF that(1) _ that(3) refl that(4)] 6(3,4) that(2,5) m by simp
  qed
  have B: "jmembers n d k = jmembers m' d k"
    if "skip_ws s = q # s1" "byte q = 34" "scan_string s1 = Some (key, s2)" "skip_ws s2 = cl # s3"
      "byte cl = 58" "jvalue n d s3 = Some (v, s4)" "skip_ws s4 = c # k" "byte c = 44"
    for q s1 key s2 cl s3 v s4 c k
  proof -
    have "length k < length s"
      using skip_ws_length [OF that(1)] scan_string_length [OF that(3)] skip_ws_length [OF that(4)]
        parser_progress(1) [OF that(6)] skip_ws_length [OF that(7)] by simp
    then show ?thesis
      using 6(2) [OF that(1) _ that(3) refl that(4) _ that(6) refl that(7)] 6(3,4) that(2,5,8) m by simp
  qed
  show ?case
    using A B by (auto simp: m split: list.split option.split prod.split)
qed simp_all

lemma jvalue_fuel: "2 * length s < n \<Longrightarrow> Decode s = jvalue n 0 s"
  unfolding Decode_def by (rule parser_fuel) auto

section \<open>Targets\<close>

text \<open>
  What \<open>encoding/json\<close> stores into a \<open>map[string]any\<close>: the last binding of a repeated key.
  The map is listed in the order its keys first occur.
\<close>

definition store_member :: "string \<times> 'a \<Rightarrow> (string \<times> 'a) list \<Rightarrow> (string \<times> 'a) list" where
  "store_member = (\<lambda>(k, v) m. AList.update k v m)"

fun interface_of :: "json \<Rightarrow> json" where
  "interface_of (JArr vs) = JArr (map interface_of vs)"
| "interface_of (JObj ms) = JObj (fold store_member (map (\<lambda>(k, v). (k, interface_of v)) ms) [])"
| "interface_of v = v"

text \<open>
  The keys of an object a struct field takes: the field's name, or a name that differs only in
  case. The folding of \<open>encoding/json\<close> takes the long s and the Kelvin sign to the ASCII letters
  they fold to; every other rune past ASCII folds to a rune past ASCII, so it cannot occur in
  the name of a field of this program.
\<close>

definition foldRune :: "nat \<Rightarrow> nat" where
  "foldRune r = (if 97 \<le> r \<and> r \<le> 122 then r - 32
                 else if r = 383 then 83 else if r = 8490 then 75 else r)"

definition field_match :: "string \<Rightarrow> string \<Rightarrow> bool" where
  "field_match name key \<longleftrightarrow> map foldRune (runes key) = map foldRune (runes name)"

text \<open>
  A field of type \<open>string\<close>: \<open>null\<close> leaves it, any other value that is not a string is a type
  error, which the decoder reports after it has read the rest.
\<close>

definition string_field :: "string \<Rightarrow> string \<times> json \<Rightarrow> string \<times> bool \<Rightarrow> string \<times> bool" where
  "string_field name = (\<lambda>(k, v) (cur, err).
     if \<not> field_match name k then (cur, err)
     else (case v of JStr t \<Rightarrow> (t, err) | JNull \<Rightarrow> (cur, err) | _ \<Rightarrow> (cur, True)))"

section \<open>Repeated keys\<close>

lemma set_update_keys: "fst ` set (AList.update k v m) = insert k (fst ` set m)"
  using dom_update [of k v m] by simp

lemma store_members_go_map: "go_map m \<Longrightarrow> go_map (fold store_member ms m)"
proof (induction ms arbitrary: m)
  case Nil
  then show ?case by simp
next
  case (Cons a ms)
  have "go_map (AList.update k v m)" for k v
    using Cons.prems unfolding go_map_def by (rule distinct_update)
  then show ?case using Cons.IH by (cases a) (simp add: store_member_def)
qed

lemma store_members_lookup:
  "map_of (fold store_member ms m) k = (case map_of (rev ms) k of None \<Rightarrow> map_of m k | Some v \<Rightarrow> Some v)"
proof (induction ms arbitrary: m)
  case Nil
  then show ?case by simp
next
  case (Cons a ms)
  then show ?case
    by (cases a) (auto simp: store_member_def update_conv' map_add_def split: option.split)
qed

lemma update_new: "k \<notin> fst ` set m \<Longrightarrow> AList.update k v m = m @ [(k, v)]"
  by (induction m) auto

lemma fold_AList_update_new:
  "distinct (map fst (m @ ms)) \<Longrightarrow> fold store_member ms m = m @ ms"
proof (induction ms arbitrary: m)
  case Nil
  then show ?case by simp
next
  case (Cons a ms)
  have "store_member a m = m @ [a]"
    using Cons.prems by (simp add: store_member_def case_prod_unfold update_new)
  then show ?case using Cons by simp
qed

end
