(* ===== verification/TokenHandler.thy ===== *)
theory TokenHandler
  imports Prelude
begin

text \<open>
  The contract of the token handlers the two client libraries hand to the NATS client, as a
  locale. The client calls the handler on every connect; the handler has no way to return an
  error, so a failed fetch gives the empty token and is kept for \<open>LastError\<close>. \<open>fetch\<close> is the
  \<open>Token\<close> method in an environment \<open>w\<close> (the clock, the files, the answers of STS).
\<close>

locale token_handler =
  fixes fetch :: "'w \<Rightarrow> 's \<Rightarrow> ('e + string) \<times> 's"
    and handler :: "'w \<Rightarrow> 's \<Rightarrow> string \<times> 's"
    and last_error :: "'s \<Rightarrow> 'e option"
  assumes fetch_nonempty: "fst (fetch w s) \<noteq> Inr []"
    and handler_error: "fst (fetch w s) = Inl e \<Longrightarrow>
      fst (handler w s) = [] \<and> last_error (snd (handler w s)) = Some e"
    and handler_token: "fst (fetch w s) = Inr t \<Longrightarrow>
      fst (handler w s) = t \<and> last_error (snd (handler w s)) = None"
begin

lemma handler_empty_iff:
  "fst (handler w s) = [] \<longleftrightarrow> last_error (snd (handler w s)) \<noteq> None"
  using fetch_nonempty [of w s] handler_error [of w s] handler_token [of w s]
  by (cases "fst (fetch w s)") auto

lemma handler_fetch:
  "fst (fetch w s) = (case last_error (snd (handler w s)) of
     None \<Rightarrow> Inr (fst (handler w s)) | Some e \<Rightarrow> Inl e)"
  using handler_error [of w s] handler_token [of w s] by (cases "fst (fetch w s)") auto

text \<open>Over a sequence of connects the error that is kept is that of the last one.\<close>

fun connects :: "'w list \<Rightarrow> 's \<Rightarrow> string list \<times> 's" where
  "connects [] s = ([], s)"
| "connects (w # ws) s = (let (t, s1) = handler w s; (ts, s2) = connects ws s1 in (t # ts, s2))"

lemma connects_last: "ws \<noteq> [] \<Longrightarrow> connects ws s = (ts, s') \<Longrightarrow> last ts = [] \<longleftrightarrow> last_error s' \<noteq> None"
proof (induction ws arbitrary: s ts s')
  case (Cons w ws)
  obtain t s1 where 1: "handler w s = (t, s1)" by fastforce
  obtain ts2 s2 where 2: "connects ws s1 = (ts2, s2)" by fastforce
  have r: "ts = t # ts2" "s' = s2" using Cons.prems(2) 1 2 by simp_all
  show ?case
  proof (cases ws)
    case Nil
    then show ?thesis using handler_empty_iff [of w s] 1 2 r by simp
  next
    case (Cons w' ws')
    then have "ts2 \<noteq> []" using 2 by (auto simp: Let_def case_prod_unfold)
    moreover have "last ts2 = [] \<longleftrightarrow> last_error s2 \<noteq> None" using Cons.IH [OF _ 2] Cons by simp
    ultimately show ?thesis using r by simp
  qed
qed simp

end

end
