(* ===== verification/AwsAuth.thy ===== *)
theory AwsAuth
  imports GoSpace Base64 GoTime Json TokenHandler "HOL-Library.Signed_Division"
begin

text \<open>
  \<open>lib/awsauth/awsauth.go\<close>: the token source that asks STS for web identity tokens, with a cache
  file and a background refresh.

  The state is the token source with its mutex-protected fields, the file system, and the refresh
  goroutines that are running, each at the phase it has reached. STS is a parameter of a call, a
  function from the request to an error or the token of the output (\<open>None\<close> for a nil output or a
  nil token). The environment of a call has the readings of the clock and what the system calls of
  a cache write do.
\<close>

section \<open>Configuration\<close>

definition DefaultSigningAlgorithm :: string where "DefaultSigningAlgorithm = ''RS256''"
definition DefaultDuration :: duration where "DefaultDuration = 5 * Minute"
definition DefaultFetchTimeout :: duration where "DefaultFetchTimeout = 10 * Second"
definition DefaultCacheRefreshBefore :: duration where "DefaultCacheRefreshBefore = 10 * Second"
definition minDuration :: duration where "minDuration = 60 * Second"
definition maxDuration :: duration where "maxDuration = 3600 * Second"
definition maxAudienceLen :: nat where "maxAudienceLen = 1000"

definition supportedSigningAlgorithms :: "string set" where
  "supportedSigningAlgorithms = {''RS256'', ''ES384''}"

record AwsConfig =
  aws_Audience :: string
  aws_SigningAlgorithm :: string
  aws_Duration :: duration
  aws_CachePath :: string
  aws_CacheRefreshBefore :: duration

datatype aws_error =
    AudienceRequired
  | AudienceTooLong nat
  | UnsupportedAlgorithm string
  | DurationRange duration
  | DurationSeconds duration
  | RefreshBeforeNegative duration
  | LoadAWSConfig string
  | RegionRequired
  | STSError string
  | EmptySTSToken

definition aws_validate :: "AwsConfig \<Rightarrow> aws_error option" where
  "aws_validate cfg =
     (if aws_Audience cfg = [] then Some AudienceRequired
      else if maxAudienceLen < length (aws_Audience cfg) then Some (AudienceTooLong (length (aws_Audience cfg)))
      else if aws_SigningAlgorithm cfg \<noteq> [] \<and> aws_SigningAlgorithm cfg \<notin> supportedSigningAlgorithms
      then Some (UnsupportedAlgorithm (aws_SigningAlgorithm cfg))
      else if aws_Duration cfg \<noteq> 0 \<and>
        (sint (aws_Duration cfg) < sint minDuration \<or> sint maxDuration < sint (aws_Duration cfg))
      then Some (DurationRange (aws_Duration cfg))
      else if aws_Duration cfg \<noteq> 0 \<and> sint (aws_Duration cfg) smod sint Second \<noteq> 0
      then Some (DurationSeconds (aws_Duration cfg))
      else if sint (aws_CacheRefreshBefore cfg) < 0
      then Some (RefreshBeforeNegative (aws_CacheRefreshBefore cfg))
      else None)"

section \<open>The state\<close>

text \<open>The phases of a refresh goroutine: what it does next.\<close>

datatype phase =
    Minting
  | Recording "aws_error + string"
  | Writing string
  | Finishing

type_synonym disk = "string \<rightharpoonup> string \<times> nat"

record TokenSource =
  ts_audience :: string
  ts_signingAlgorithm :: string
  ts_duration :: duration
  ts_cachePath :: string
  ts_cacheRefreshBefore :: duration
  ts_lastErr :: "aws_error option"
  ts_refreshing :: bool

record aws_state =
  source :: TokenSource
  files :: disk
  goroutines :: "phase list"

definition newWithClient :: "AwsConfig \<Rightarrow> aws_error + TokenSource" where
  "newWithClient cfg =
     (case aws_validate cfg of
        Some e \<Rightarrow> Inl e
      | None \<Rightarrow>
          (let alg = (if aws_SigningAlgorithm cfg = [] then DefaultSigningAlgorithm else aws_SigningAlgorithm cfg);
               dur = (if aws_Duration cfg = 0 then DefaultDuration else aws_Duration cfg);
               refreshBefore = (if aws_CacheRefreshBefore cfg = 0 then DefaultCacheRefreshBefore
                                else aws_CacheRefreshBefore cfg) in
           Inr \<lparr>ts_audience = aws_Audience cfg, ts_signingAlgorithm = alg, ts_duration = dur,
                ts_cachePath = aws_CachePath cfg, ts_cacheRefreshBefore = refreshBefore,
                ts_lastErr = None, ts_refreshing = False\<rparr>))"

definition NewFromAWSConfig :: "string \<Rightarrow> AwsConfig \<Rightarrow> aws_error + TokenSource" where
  "NewFromAWSConfig region cfg =
     (case aws_validate cfg of
        Some e \<Rightarrow> Inl e
      | None \<Rightarrow> if region = [] then Inl RegionRequired else newWithClient cfg)"

text \<open>\<open>New\<close>: the default AWS configuration, of which only the region matters, or an error.\<close>

definition Aws_New :: "string + string \<Rightarrow> AwsConfig \<Rightarrow> aws_error + TokenSource" where
  "Aws_New defaultConfig cfg =
     (case aws_validate cfg of
        Some e \<Rightarrow> Inl e
      | None \<Rightarrow> (case defaultConfig of
                   Inl e \<Rightarrow> Inl (LoadAWSConfig e)
                 | Inr region \<Rightarrow> NewFromAWSConfig region cfg))"

section \<open>Reading a token\<close>

definition digits_value :: "string \<Rightarrow> int" where
  "digits_value s = fold (\<lambda>c n. 10 * n + (int (byte c) - 48)) s 0"

text \<open>\<open>strconv.ParseInt\<close> of a JSON number literal, for 64 bits: digits only, and in range.\<close>

definition ParseInt64 :: "string \<Rightarrow> (64 word) option" where
  "ParseInt64 s =
     (let neg = (case s of c # _ \<Rightarrow> byte c = 45 | [] \<Rightarrow> False);
          ds = (if neg then tl s else s);
          v = (if neg then - digits_value ds else digits_value ds) in
      if ds = [] \<or> \<not> list_all digit ds then None
      else if - (2 ^ 63) \<le> v \<and> v < 2 ^ 63 then Some (word_of_int v) else None)"

record exp_aud =
  Exp :: "64 word"
  Aud :: "json option"

text \<open>
  One member of the payload into the struct with the fields \<open>exp\<close> and \<open>aud\<close>. The raw message keeps
  whatever value its member has, \<open>null\<close> included.
\<close>

definition exp_aud_field :: "string \<times> json \<Rightarrow> exp_aud \<times> bool \<Rightarrow> exp_aud \<times> bool" where
  "exp_aud_field = (\<lambda>(k, v) (c, err).
     if field_match ''exp'' k then
       (case v of
          JNull \<Rightarrow> (c, err)
        | JNum n \<Rightarrow> (case ParseInt64 n of Some x \<Rightarrow> (c\<lparr>Exp := x\<rparr>, err) | None \<Rightarrow> (c, True))
        | _ \<Rightarrow> (c, True))
     else if field_match ''aud'' k then (c\<lparr>Aud := Some v\<rparr>, err)
     else (c, err))"

definition exp_aud_struct :: "json \<Rightarrow> exp_aud \<times> bool" where
  "exp_aud_struct v =
     (let zero = \<lparr>Exp = 0, Aud = None\<rparr> in
      case v of
        JObj ms \<Rightarrow> fold exp_aud_field ms (zero, False)
      | JNull \<Rightarrow> (zero, False)
      | _ \<Rightarrow> (zero, True))"

text \<open>A JSON value into a \<open>string\<close>, where \<open>null\<close> leaves the empty string.\<close>

definition json_string :: "json \<Rightarrow> string option" where
  "json_string v = (case v of JStr s \<Rightarrow> Some s | JNull \<Rightarrow> Some [] | _ \<Rightarrow> None)"

definition parseAudience :: "json option \<Rightarrow> string list" where
  "parseAudience raw =
     (case raw of
        None \<Rightarrow> []
      | Some v \<Rightarrow>
          (case json_string v of
             Some one \<Rightarrow> [one]
           | None \<Rightarrow>
               (case v of
                  JArr vs \<Rightarrow> if list_all (\<lambda>x. json_string x \<noteq> None) vs then map (the \<circ> json_string) vs else []
                | _ \<Rightarrow> [])))"

datatype jwt_error = MalformedJWT | DecodePayload | ParseClaims | NoExpClaim

definition unverifiedExpiryAudience :: "string \<Rightarrow> jwt_error + time \<times> string list" where
  "unverifiedExpiryAudience token =
     (let parts = Split CHR ''.'' token in
      if length parts \<noteq> 3 then Inl MalformedJWT
      else (case RawURL_DecodeString (parts ! 1) of
              None \<Rightarrow> Inl DecodePayload
            | Some payload \<Rightarrow>
                (case Unmarshal payload of
                   None \<Rightarrow> Inl ParseClaims
                 | Some v \<Rightarrow>
                     (case exp_aud_struct v of
                        (c, err) \<Rightarrow>
                          if err then Inl ParseClaims
                          else if Exp c = 0 then Inl NoExpClaim
                          else Inr (time_Unix (Exp c), parseAudience (Aud c))))))"

section \<open>The cache file\<close>

definition readCache :: "TokenSource \<Rightarrow> disk \<Rightarrow> time \<Rightarrow> (string \<times> time) option" where
  "readCache ts d now =
     (case d (ts_cachePath ts) of
        None \<Rightarrow> None
      | Some (b, _) \<Rightarrow>
          (let tok = TrimSpace b in
           if tok = [] then None
           else (case unverifiedExpiryAudience tok of
                   Inl _ \<Rightarrow> None
                 | Inr (ex, auds) \<Rightarrow>
                     if \<not> Before now ex then None
                     else if ts_audience ts \<notin> set auds then None
                     else Some (tok, ex))))"

datatype syscall = MkdirAll | CreateTemp | Chmod | WriteString | Close | Rename | Remove

text \<open>
  What a cache write meets: the name \<open>CreateTemp\<close> picks, the calls that fail, and how much of the
  token a failed write leaves.
\<close>

record write_env =
  tmpName :: string
  failing :: "syscall set"
  written_part :: nat

text \<open>The file system after each call that touches it, up to the deferred removal.\<close>

definition writeCache_trace :: "string \<Rightarrow> string \<Rightarrow> write_env \<Rightarrow> disk \<Rightarrow> disk list" where
  "writeCache_trace path tok w d =
     (let cleanup = (\<lambda>d'. if Remove \<in> failing w then [] else [d'(tmpName w := None)]) in
      if MkdirAll \<in> failing w \<or> CreateTemp \<in> failing w then []
      else
        let d1 = d(tmpName w \<mapsto> ([], 384)) in
        if Chmod \<in> failing w then d1 # cleanup d1
        else if WriteString \<in> failing w then
          (let d2 = d1(tmpName w \<mapsto> (take (written_part w) tok, 384)) in d1 # d2 # cleanup d2)
        else
          let d2 = d1(tmpName w \<mapsto> (tok, 384)) in
          if Close \<in> failing w \<or> Rename \<in> failing w then d1 # d2 # cleanup d2
          else [d1, d2, d2(path \<mapsto> (tok, 384), tmpName w := None)])"

definition writeCache :: "string \<Rightarrow> string \<Rightarrow> write_env \<Rightarrow> disk \<Rightarrow> disk" where
  "writeCache path tok w d = last (d # writeCache_trace path tok w d)"

section \<open>Minting, and the token\<close>

record sts_input =
  in_Audience :: "string list"
  in_SigningAlgorithm :: string
  in_DurationSeconds :: "32 word"

type_synonym sts_client = "sts_input \<Rightarrow> string + string option"

definition mint_input :: "TokenSource \<Rightarrow> sts_input" where
  "mint_input ts =
     \<lparr>in_Audience = [ts_audience ts], in_SigningAlgorithm = ts_signingAlgorithm ts,
      in_DurationSeconds = word_of_int (sint (ts_duration ts) sdiv sint Second)\<rparr>"

definition mint :: "sts_client \<Rightarrow> TokenSource \<Rightarrow> aws_error + string" where
  "mint client ts =
     (case client (mint_input ts) of
        Inl e \<Rightarrow> Inl (STSError e)
      | Inr out \<Rightarrow> (case out of
                      None \<Rightarrow> Inl EmptySTSToken
                    | Some t \<Rightarrow> if t = [] then Inl EmptySTSToken else Inr t))"

definition setLastError :: "aws_error option \<Rightarrow> aws_state \<Rightarrow> aws_state" where
  "setLastError e s = s\<lparr>source := (source s)\<lparr>ts_lastErr := e\<rparr>\<rparr>"

definition LastError :: "aws_state \<Rightarrow> aws_error option" where
  "LastError s = ts_lastErr (source s)"

definition refreshAsync :: "aws_state \<Rightarrow> aws_state" where
  "refreshAsync s =
     (if ts_refreshing (source s) then s
      else s\<lparr>source := (source s)\<lparr>ts_refreshing := True\<rparr>, goroutines := goroutines s @ [Minting]\<rparr>)"

record aws_env =
  env_client :: sts_client
  now_read :: time
  now_until :: time
  env_write :: write_env

definition Aws_Token :: "aws_env \<Rightarrow> aws_state \<Rightarrow> (aws_error + string) \<times> aws_state" where
  "Aws_Token env s =
     (let ts = source s in
      case (if ts_cachePath ts \<noteq> [] then readCache ts (files s) (now_read env) else None) of
        Some (tok, ex) \<Rightarrow>
          (Inr tok, if sint (Sub ex (now_until env)) < sint (ts_cacheRefreshBefore ts) then refreshAsync s else s)
      | None \<Rightarrow>
          (case mint (env_client env) ts of
             Inl e \<Rightarrow> (Inl e, s)
           | Inr tok \<Rightarrow>
               (Inr tok, if ts_cachePath ts \<noteq> []
                         then s\<lparr>files := writeCache (ts_cachePath ts) tok (env_write env) (files s)\<rparr> else s)))"

definition Aws_handler :: "aws_env \<Rightarrow> aws_state \<Rightarrow> string \<times> aws_state" where
  "Aws_handler env s =
     (case Aws_Token env s of
        (Inl e, s') \<Rightarrow> ([], setLastError (Some e) s')
      | (Inr tok, s') \<Rightarrow> (tok, setLastError None s'))"

text \<open>The timeout of a fetch by the handler.\<close>

definition fetch_timeout :: "duration \<Rightarrow> duration" where
  "fetch_timeout timeout = (if sint timeout \<le> 0 then DefaultFetchTimeout else timeout)"

section \<open>The refresh goroutine\<close>

text \<open>
  One step of the goroutine at some position: STS answers, the error is recorded, the cache is
  written, and at the end the flag is cleared. STS and the file system may do anything.
\<close>

inductive goroutine_step :: "aws_state \<Rightarrow> aws_state \<Rightarrow> bool" where
  g_mint: "goroutines s = a @ Minting # b \<Longrightarrow>
     goroutine_step s (s\<lparr>goroutines := a @ Recording (mint client (source s)) # b\<rparr>)"
| g_record_error: "goroutines s = a @ Recording (Inl e) # b \<Longrightarrow>
     goroutine_step s ((setLastError (Some e) s)\<lparr>goroutines := a @ Finishing # b\<rparr>)"
| g_record_token: "goroutines s = a @ Recording (Inr tok) # b \<Longrightarrow>
     goroutine_step s ((setLastError None s)\<lparr>goroutines := a @ Writing tok # b\<rparr>)"
| g_write: "goroutines s = a @ Writing tok # b \<Longrightarrow>
     goroutine_step s (s\<lparr>files := writeCache (ts_cachePath (source s)) tok w (files s),
                        goroutines := a @ Finishing # b\<rparr>)"
| g_finish: "goroutines s = a @ Finishing # b \<Longrightarrow>
     goroutine_step s (s\<lparr>source := (source s)\<lparr>ts_refreshing := False\<rparr>, goroutines := a @ b\<rparr>)"

inductive_cases goroutine_stepE: "goroutine_step s s'"

text \<open>The whole system: token fetches and handler calls by the program, and the goroutines.\<close>

inductive aws_step :: "aws_state \<Rightarrow> aws_state \<Rightarrow> bool" where
  token: "aws_step s (snd (Aws_Token env s))"
| connect: "aws_step s (snd (Aws_handler env s))"
| background: "goroutine_step s s' \<Longrightarrow> aws_step s s'"

text \<open>
  \<open>DefaultCachePath\<close>: the digest, the user's cache directory and the joining of a path are
  parameters; of the digest the first 8 bytes are used.
\<close>

definition hex_char :: "nat \<Rightarrow> char" where
  "hex_char n = char_of (if n < 10 then 48 + n else 87 + n)"

definition hex_EncodeToString :: "string \<Rightarrow> string" where
  "hex_EncodeToString s = concat (map (\<lambda>c. [hex_char (byte c div 16), hex_char (byte c mod 16)]) s)"

definition DefaultCachePath ::
  "(string \<Rightarrow> string) \<Rightarrow> (string list \<Rightarrow> string) \<Rightarrow> string + string \<Rightarrow> string \<Rightarrow> string + string" where
  "DefaultCachePath sha256 join userCacheDir audience =
     (case userCacheDir of
        Inl e \<Rightarrow> Inl e
      | Inr dir \<Rightarrow>
          (let sum = sha256 audience;
               name = ''awsauth-'' @ hex_EncodeToString (take 8 sum) @ ''.jwt'' in
           Inr (join [dir, ''nats-oidc-callout'', name])))"

section \<open>The handler\<close>

lemma readCache_Some:
  assumes "readCache ts d now = Some (tok, ex)"
  shows "tok \<noteq> [] \<and> (\<exists>b mode auds. d (ts_cachePath ts) = Some (b, mode) \<and> tok = TrimSpace b
    \<and> unverifiedExpiryAudience tok = Inr (ex, auds) \<and> now < ex \<and> ts_audience ts \<in> set auds)"
  using assms
  by (auto simp: readCache_def Let_def Before_def split: option.splits sum.splits if_splits prod.splits)

lemma mint_nonempty: "mint client ts \<noteq> Inr []"
  by (auto simp: mint_def split: sum.split option.split)

lemma Aws_Token_nonempty: "fst (Aws_Token env s) \<noteq> Inr []"
  by (auto simp: Aws_Token_def Let_def mint_nonempty dest: readCache_Some split: option.split sum.split)

interpretation aws: token_handler Aws_Token Aws_handler LastError
  by unfold_locales
    (auto simp: Aws_Token_nonempty Aws_handler_def setLastError_def LastError_def split: prod.split sum.split)

end
