(* ===== verification/StepSystems.thy ===== *)
theory StepSystems
  imports Prelude
begin

text \<open>
  The contracts of the state machines of the development, as locales over an initial predicate and a
  step relation: an invariant holds in every reachable state, a rank that falls bounds every run, and
  a refinement map takes every run to a run of the abstract machine. The callout authorizer, the
  metrics server and the AWS token source provide them.
\<close>

locale invariant_system =
  fixes init :: "'s \<Rightarrow> bool"
    and step :: "'s \<Rightarrow> 's \<Rightarrow> bool"
    and inv :: "'s \<Rightarrow> bool"
  assumes init_inv: "init s \<Longrightarrow> inv s"
    and step_inv: "step s s' \<Longrightarrow> inv s \<Longrightarrow> inv s'"
begin

lemma steps_inv: "step\<^sup>*\<^sup>* s s' \<Longrightarrow> inv s \<Longrightarrow> inv s'"
  by (induction rule: rtranclp_induct) (auto intro: step_inv)

lemma reachable_inv: "init s0 \<Longrightarrow> step\<^sup>*\<^sup>* s0 s \<Longrightarrow> inv s"
  using steps_inv init_inv by blast

lemma relpow_inv: "(step ^^ n) s s' \<Longrightarrow> inv s \<Longrightarrow> inv s'"
  using steps_inv relpowp_imp_rtranclp by metis

end

text \<open>Every step takes the state down in a well-founded order.\<close>

locale ranked_system =
  fixes step :: "'s \<Rightarrow> 's \<Rightarrow> bool"
    and below :: "('r \<times> 'r) set"
    and rank :: "'s \<Rightarrow> 'r"
  assumes below_wf: "wf below"
    and step_below: "step s s' \<Longrightarrow> (rank s', rank s) \<in> below"
begin

lemma step_wf: "wf {(s', s). step s s'}"
proof (rule wf_subset)
  show "wf (inv_image below rank)" using below_wf by (rule wf_inv_image)
  show "{(s', s). step s s'} \<subseteq> inv_image below rank" using step_below by auto
qed

lemma no_infinite_run: "\<not> (\<forall>n. step (f n) (f (Suc n)))"
  using step_wf unfolding wf_iff_no_infinite_down_chain by auto

text \<open>So a run can always be continued to its end.\<close>

lemma run_to_end: "\<exists>s'. step\<^sup>*\<^sup>* s s' \<and> (\<nexists>s''. step s' s'')"
  using step_wf
proof (induction s rule: wf_induct_rule)
  case (less s)
  show ?case
  proof (cases "\<exists>t. step s t")
    case True
    then obtain t where t: "step s t" by blast
    then obtain s' where "step\<^sup>*\<^sup>* t s'" "\<nexists>s''. step s' s''" using less by blast
    with t show ?thesis by (meson converse_rtranclp_into_rtranclp)
  qed blast
qed

end

text \<open>With a rank in the natural numbers, it bounds the length of a run.\<close>

locale counted_system =
  fixes step :: "'s \<Rightarrow> 's \<Rightarrow> bool"
    and rank :: "'s \<Rightarrow> nat"
  assumes step_less: "step s s' \<Longrightarrow> rank s' < rank s"

sublocale counted_system \<subseteq> ranked_system step less_than rank
  by unfold_locales (auto simp: step_less)

context counted_system
begin

lemma steps_bounded: "(step ^^ n) s s' \<Longrightarrow> rank s' + n \<le> rank s"
proof (induction n arbitrary: s')
  case (Suc n)
  then obtain t where "(step ^^ n) s t" "step t s'" by auto
  then show ?case using Suc.IH step_less by fastforce
qed simp

end

text \<open>A refinement map: a step of the machine is a step of the abstract machine, or none.\<close>

locale refinement_map = invariant_system init step inv
  for init :: "'s \<Rightarrow> bool" and step :: "'s \<Rightarrow> 's \<Rightarrow> bool" and inv :: "'s \<Rightarrow> bool" +
  fixes abs_init :: "'a \<Rightarrow> bool"
    and abs_step :: "'a \<Rightarrow> 'a \<Rightarrow> bool"
    and abs :: "'s \<Rightarrow> 'a"
  assumes init_abs: "init s \<Longrightarrow> abs_init (abs s)"
    and step_abs: "step s s' \<Longrightarrow> inv s \<Longrightarrow> abs s' = abs s \<or> abs_step (abs s) (abs s')"
begin

lemma run_abs: "step\<^sup>*\<^sup>* s s' \<Longrightarrow> inv s \<Longrightarrow> abs_step\<^sup>*\<^sup>* (abs s) (abs s')"
proof (induction rule: rtranclp_induct)
  case (step t u)
  then have "inv t" using steps_inv by blast
  then show ?case using step step_abs by (metis rtranclp.rtrancl_into_rtrancl)
qed simp

lemma reachable_abs: "init s0 \<Longrightarrow> step\<^sup>*\<^sup>* s0 s \<Longrightarrow> abs_init (abs s0) \<and> abs_step\<^sup>*\<^sup>* (abs s0) (abs s)"
  using init_abs init_inv run_abs by blast

end

end
