(* ===== verification/AwsAuthProps.thy ===== *)
theory AwsAuthProps
  imports AwsAuth StepSystems
begin

text \<open>
  What the AWS token source promises: the configurations it accepts and what it asks STS for, where
  a token it returns comes from, the atomic write and the round trip of the cache file, and the
  single background refresh and its end.
\<close>

section \<open>The configuration\<close>

lemma duration_constants:
  "sint Second = 1000000000" "sint minDuration = 60 * 1000000000"
  "sint maxDuration = 3600 * 1000000000" "sint DefaultDuration = 300 * 1000000000"
  "DefaultDuration \<noteq> 0"
  by (simp_all add: Second_def minDuration_def maxDuration_def DefaultDuration_def Minute_def)

lemma newWithClient_Inr:
  assumes "newWithClient cfg = Inr ts"
  shows "aws_validate cfg = None" "ts_audience ts = aws_Audience cfg"
    "ts_signingAlgorithm ts = (if aws_SigningAlgorithm cfg = [] then DefaultSigningAlgorithm else aws_SigningAlgorithm cfg)"
    "ts_duration ts = (if aws_Duration cfg = 0 then DefaultDuration else aws_Duration cfg)"
    "\<not> ts_refreshing ts" "ts_lastErr ts = None" "ts_cachePath ts = aws_CachePath cfg"
  using assms by (auto simp: newWithClient_def Let_def split: option.splits)

lemma duration_seconds:
  assumes "aws_validate cfg = None" and "d = (if aws_Duration cfg = 0 then DefaultDuration else aws_Duration cfg)"
  shows "\<exists>n. sint d = n * 1000000000 \<and> 60 \<le> n \<and> n \<le> 3600"
proof (cases "aws_Duration cfg = 0")
  case True
  then show ?thesis using assms(2) duration_constants(4) by auto
next
  case False
  then have d: "d = aws_Duration cfg" using assms(2) by simp
  have b: "60 * 1000000000 \<le> sint d" "sint d \<le> 3600 * 1000000000" "sint d smod 1000000000 = 0"
    using assms(1) False duration_constants by (auto simp: aws_validate_def d split: if_splits)
  have "sint d = sint d sdiv 1000000000 * 1000000000"
    using smod_sdiv_mult_eq [of "sint d" 1000000000] b(3) by simp
  moreover from this have "60 \<le> sint d sdiv 1000000000" "sint d sdiv 1000000000 \<le> 3600"
    using b(1,2) by linarith+
  ultimately show ?thesis by blast
qed

text \<open>
  C28. STS is asked within its documented limits. Whatever configuration passes the constructor, the
  request of a mint has one audience, between 1 and 1000 bytes long, a supported algorithm, and a
  number of seconds between 60 and 3600 that is exactly the configured lifetime, with no loss in
  the conversion to 32 bits.
\<close>

theorem aws_request_in_bounds:
  assumes "newWithClient cfg = Inr ts"
  shows "(\<exists>a. in_Audience (mint_input ts) = [a] \<and> 1 \<le> length a \<and> length a \<le> 1000)
    \<and> in_SigningAlgorithm (mint_input ts) \<in> {''RS256'', ''ES384''}
    \<and> 60 \<le> sint (in_DurationSeconds (mint_input ts)) \<and> sint (in_DurationSeconds (mint_input ts)) \<le> 3600
    \<and> sint (in_DurationSeconds (mint_input ts)) * 1000000000 = sint (ts_duration ts)"
proof -
  note v = newWithClient_Inr [OF assms]
  obtain n where n: "sint (ts_duration ts) = n * 1000000000" "60 \<le> n" "n \<le> 3600"
    using duration_seconds [OF v(1,4)] by blast
  have "in_DurationSeconds (mint_input ts) = word_of_int n"
    using n by (simp add: mint_input_def duration_constants sgn_if signed_divide_int_def)
  moreover have "sint (word_of_int n :: 32 word) = n"
    using n by (simp add: signed_take_bit_int_eq_self_iff sint_sbintrunc')
  moreover have "aws_Audience cfg \<noteq> []" "length (aws_Audience cfg) \<le> 1000"
    "aws_SigningAlgorithm cfg \<noteq> [] \<Longrightarrow> aws_SigningAlgorithm cfg \<in> {''RS256'', ''ES384''}"
    using v(1) by (auto simp: aws_validate_def maxAudienceLen_def supportedSigningAlgorithms_def split: if_splits)
  ultimately show ?thesis
    using n by (auto simp: mint_input_def v DefaultSigningAlgorithm_def Suc_le_eq)
qed

theorem aws_request_in_bounds_witness:
  "\<exists>ts. newWithClient \<lparr>aws_Audience = ''nats'', aws_SigningAlgorithm = [], aws_Duration = 90 * Second,
      aws_CachePath = [], aws_CacheRefreshBefore = 0\<rparr> = Inr ts
    \<and> sint (in_DurationSeconds (mint_input ts)) * 1000000000 = 90 * 1000000000"
proof -
  let ?cfg = "\<lparr>aws_Audience = ''nats'', aws_SigningAlgorithm = [], aws_Duration = 90 * Second,
      aws_CachePath = [], aws_CacheRefreshBefore = 0\<rparr>"
  have "aws_validate ?cfg = None"
    by (simp add: aws_validate_def maxAudienceLen_def Second_def minDuration_def maxDuration_def)
  then obtain ts where ts: "newWithClient ?cfg = Inr ts" "sint (ts_duration ts) = 90 * 1000000000"
    by (simp add: newWithClient_def Let_def Second_def)
  from aws_request_in_bounds [OF ts(1)] show ?thesis using ts by auto
qed

section \<open>Where a token comes from\<close>

lemma mint_Inr: "mint client ts = Inr tok \<longleftrightarrow> client (mint_input ts) = Inr (Some tok) \<and> tok \<noteq> []"
  by (auto simp: mint_def split: sum.split option.split)

lemma Aws_Token_hit:
  assumes "ts_cachePath (source s) \<noteq> []" and "readCache (source s) (files s) (now_read env) = Some (tok, ex)"
  shows "Aws_Token env s = (Inr tok,
    if sint (Sub ex (now_until env)) < sint (ts_cacheRefreshBefore (source s)) then refreshAsync s else s)"
  using assms by (simp add: Aws_Token_def Let_def)

lemma Aws_Token_miss:
  assumes "ts_cachePath (source s) = [] \<or> readCache (source s) (files s) (now_read env) = None"
  shows "Aws_Token env s =
    (case mint (env_client env) (source s) of
       Inl e \<Rightarrow> (Inl e, s)
     | Inr tok \<Rightarrow>
         (Inr tok, if ts_cachePath (source s) \<noteq> []
                   then s\<lparr>files := writeCache (ts_cachePath (source s)) tok (env_write env) (files s)\<rparr> else s))"
  using assms by (auto simp: Aws_Token_def Let_def)

text \<open>
  A token has one of two origins. A token that \<open>Token\<close> returns is either the trimmed contents of
  the cache file, and then it is for the configured audience and had not expired when the file was
  read, and the files are left alone; or it is what STS answered to a request for that audience,
  and then no background refresh is started.
\<close>

theorem aws_token_origin:
  assumes "Aws_Token env s = (Inr tok, s')"
  shows "tok \<noteq> [] \<and>
    ((\<exists>b mode ex auds. ts_cachePath (source s) \<noteq> [] \<and> files s (ts_cachePath (source s)) = Some (b, mode)
        \<and> tok = TrimSpace b \<and> unverifiedExpiryAudience tok = Inr (ex, auds)
        \<and> now_read env < ex \<and> ts_audience (source s) \<in> set auds \<and> files s' = files s)
     \<or> (env_client env (mint_input (source s)) = Inr (Some tok)
        \<and> in_Audience (mint_input (source s)) = [ts_audience (source s)]
        \<and> source s' = source s \<and> goroutines s' = goroutines s))"
proof (cases "ts_cachePath (source s) = [] \<or> readCache (source s) (files s) (now_read env) = None")
  case True
  then have "mint (env_client env) (source s) = Inr tok" "source s' = source s" "goroutines s' = goroutines s"
    using assms by (auto simp: Aws_Token_miss split: sum.splits if_splits)
  then show ?thesis by (simp add: mint_Inr) (simp add: mint_input_def)
next
  case False
  then obtain t ex where hit: "ts_cachePath (source s) \<noteq> []"
    "readCache (source s) (files s) (now_read env) = Some (t, ex)" by auto
  have "files (refreshAsync s) = files s" by (simp add: refreshAsync_def)
  then have "tok = t" "files s' = files s" using assms Aws_Token_hit [OF hit] by (auto split: if_splits)
  then show ?thesis using readCache_Some [OF hit(2)] hit(1) by auto
qed

section \<open>The cache file\<close>

text \<open>
  The cache file is replaced atomically. At every moment of a cache write, whichever system call
  fails, the cache path holds either exactly what it held before or the whole new token with
  mode 0600; nothing but that path and the temporary file changes; every file the write leaves with
  new contents is private to its owner; and once no call fails, the token is there and the temporary
  file is gone.
\<close>

theorem aws_cache_write_atomic:
  assumes "tmpName w \<noteq> path"
  shows "list_all (\<lambda>d'. (d' path = d path \<or> d' path = Some (tok, 384))
      \<and> (\<forall>p. p \<noteq> path \<and> p \<noteq> tmpName w \<longrightarrow> d' p = d p)
      \<and> (\<forall>p c m. d' p = Some (c, m) \<and> d' p \<noteq> d p \<longrightarrow> m = 384))
      (writeCache_trace path tok w d)
    \<and> (failing w = {} \<longrightarrow> writeCache path tok w d path = Some (tok, 384)
         \<and> writeCache path tok w d (tmpName w) = None)"
proof
  show "list_all (\<lambda>d'. (d' path = d path \<or> d' path = Some (tok, 384))
      \<and> (\<forall>p. p \<noteq> path \<and> p \<noteq> tmpName w \<longrightarrow> d' p = d p)
      \<and> (\<forall>p c m. d' p = Some (c, m) \<and> d' p \<noteq> d p \<longrightarrow> m = 384))
      (writeCache_trace path tok w d)"
    using assms by (auto simp: writeCache_trace_def Let_def split: if_splits)
  show "failing w = {} \<longrightarrow> writeCache path tok w d path = Some (tok, 384)
         \<and> writeCache path tok w d (tmpName w) = None"
    using assms by (simp add: writeCache_def writeCache_trace_def Let_def)
qed

theorem aws_cache_write_atomic_witness:
  "writeCache ''/c/t.jwt'' ''a.b.c'' \<lparr>tmpName = ''/c/.awsauth-1.tmp'', failing = {}, written_part = 0\<rparr>
     (Map.empty(''/c/t.jwt'' \<mapsto> (''old'', 420))) ''/c/t.jwt'' = Some (''a.b.c'', 384)"
  using aws_cache_write_atomic
    [of "\<lparr>tmpName = ''/c/.awsauth-1.tmp'', failing = {}, written_part = 0\<rparr>" "''/c/t.jwt''"
        "Map.empty(''/c/t.jwt'' \<mapsto> (''old'', 420))" "''a.b.c''"] by simp

text \<open>
  C22. The cache gives back what was put in. A token that STS answers on a miss, that has no white
  space around it and whose payload has an expiry and the audience, is returned and, if no system
  call fails, cached: every token source with that cache path and audience, in this process or
  another one, returns the same token until it expires, whatever its own STS would answer.
\<close>

theorem aws_cache_roundtrip:
  assumes "ts_cachePath (source s) \<noteq> []" and "readCache (source s) (files s) (now_read env) = None"
    and "env_client env (mint_input (source s)) = Inr (Some tok)"
    and "tok \<noteq> []" and "TrimSpace tok = tok"
    and "unverifiedExpiryAudience tok = Inr (ex, auds)" and "ts_audience (source s) \<in> set auds"
    and "failing (env_write env) = {}" and "tmpName (env_write env) \<noteq> ts_cachePath (source s)"
    and "files s2 = files (snd (Aws_Token env s))"
    and "ts_cachePath (source s2) = ts_cachePath (source s)" and "ts_audience (source s2) = ts_audience (source s)"
    and "now_read env2 < ex"
  shows "fst (Aws_Token env s) = Inr tok \<and> fst (Aws_Token env2 s2) = Inr tok"
proof -
  let ?path = "ts_cachePath (source s)"
  have m: "mint (env_client env) (source s) = Inr tok" using assms(3,4) by (simp add: mint_Inr)
  have t: "Aws_Token env s = (Inr tok, s\<lparr>files := writeCache ?path tok (env_write env) (files s)\<rparr>)"
    using assms(1,2) m by (simp add: Aws_Token_miss)
  have "files s2 ?path = Some (tok, 384)"
    using assms(8,9,10) t by (simp add: writeCache_def writeCache_trace_def Let_def)
  then have "readCache (source s2) (files s2) (now_read env2) = Some (tok, ex)"
    using assms(4-7,11-13) by (simp add: readCache_def Before_def)
  then show ?thesis using t Aws_Token_hit assms(1,11) by simp
qed

text \<open>A token with the payload \<open>{"exp":1700000300,"aud":"nats"}\<close>.\<close>

definition cached_token :: string where
  "cached_token = ''h.eyJleHAiOjE3MDAwMDAzMDAsImF1ZCI6Im5hdHMifQ.s''"

lemma sample_expiry: "ParseInt64 ''1700000300'' = Some 1700000300"
  by (simp add: ParseInt64_def digits_value_def digit_def byte_def)

lemma cached_token_claims:
  "unverifiedExpiryAudience cached_token = Inr (time_Unix 1700000300, [''nats''])"
proof -
  have s: "Split CHR ''.'' cached_token = [''h'', ''eyJleHAiOjE3MDAwMDAzMDAsImF1ZCI6Im5hdHMifQ'', ''s'']"
    by (simp add: cached_token_def)
  have p: "RawURL_DecodeString ''eyJleHAiOjE3MDAwMDAzMDAsImF1ZCI6Im5hdHMifQ''
      = Some ''{\"exp\":1700000300,\"aud\":\"nats\"}''" by code_simp
  have u: "Unmarshal ''{\"exp\":1700000300,\"aud\":\"nats\"}''
      = Some (JObj [(''exp'', JNum ''1700000300''), (''aud'', JStr ''nats'')])" by code_simp
  have f: "field_match ''exp'' ''exp''" "\<not> field_match ''exp'' ''aud''" "field_match ''aud'' ''aud''"
    by code_simp+
  have "exp_aud_struct (JObj [(''exp'', JNum ''1700000300''), (''aud'', JStr ''nats'')])
      = (\<lparr>Exp = 1700000300, Aud = Some (JStr ''nats'')\<rparr>, False)"
    by (simp add: exp_aud_struct_def exp_aud_field_def f sample_expiry)
  then show ?thesis
    by (simp add: unverifiedExpiryAudience_def s p u parseAudience_def json_string_def)
qed

lemma cached_token_trimmed: "TrimSpace cached_token = cached_token"
  by (rule TrimSpace_printable) (simp add: cached_token_def byte_def)

definition aws_sample_source :: TokenSource where
  "aws_sample_source = \<lparr>ts_audience = ''nats'', ts_signingAlgorithm = ''RS256'', ts_duration = DefaultDuration,
     ts_cachePath = ''/c/t.jwt'', ts_cacheRefreshBefore = DefaultCacheRefreshBefore,
     ts_lastErr = None, ts_refreshing = False\<rparr>"

definition aws_sample_env :: "(string + string option) \<Rightarrow> aws_env" where
  "aws_sample_env answer =
     \<lparr>env_client = (\<lambda>_. answer), now_read = time_Unix 1700000000, now_until = time_Unix 1700000000,
      env_write = \<lparr>tmpName = ''/c/.awsauth-1.tmp'', failing = {}, written_part = 0\<rparr>\<rparr>"

definition aws_sample_state :: aws_state where
  "aws_sample_state = \<lparr>source = aws_sample_source, files = Map.empty, goroutines = []\<rparr>"

theorem aws_cache_roundtrip_witness:
  "\<exists>s2. fst (Aws_Token (aws_sample_env (Inl ''down'')) s2) = Inr cached_token"
proof -
  let ?env = "aws_sample_env (Inr (Some cached_token))" and ?down = "aws_sample_env (Inl ''down'')"
  let ?s2 = "aws_sample_state\<lparr>files := files (snd (Aws_Token ?env aws_sample_state))\<rparr>"
  have f: "ts_cachePath (source aws_sample_state) = ''/c/t.jwt''" "ts_audience (source aws_sample_state) = ''nats''"
    "readCache (source aws_sample_state) (files aws_sample_state) t = None" for t
    by (simp_all add: aws_sample_state_def aws_sample_source_def readCache_def)
  have t: "now_read ?down < time_Unix 1700000300"
    by (simp add: aws_sample_env_def time_Unix_def unixToInternal_def)
  have "fst (Aws_Token ?env aws_sample_state) = Inr cached_token \<and> fst (Aws_Token ?down ?s2) = Inr cached_token"
    by (rule aws_cache_roundtrip [OF _ f(3) _ _ cached_token_trimmed cached_token_claims _ _ _ _ _ _ t])
      (simp_all add: f, simp_all add: aws_sample_env_def cached_token_def)
  then show ?thesis by blast
qed

theorem aws_token_origin_witness:
  "\<exists>s'. Aws_Token (aws_sample_env (Inr (Some cached_token))) aws_sample_state = (Inr cached_token, s')
    \<and> goroutines s' = []"
proof -
  have m: "readCache (source aws_sample_state) (files aws_sample_state) t = None" for t
    by (simp add: aws_sample_state_def readCache_def)
  have "mint (env_client (aws_sample_env (Inr (Some cached_token)))) (source aws_sample_state) = Inr cached_token"
    by (simp add: mint_Inr aws_sample_env_def cached_token_def)
  then obtain s' where s': "Aws_Token (aws_sample_env (Inr (Some cached_token))) aws_sample_state = (Inr cached_token, s')"
    by (simp add: Aws_Token_miss m)
  have "files s' \<noteq> files aws_sample_state" if "goroutines s' \<noteq> []"
    using that s' m by (auto simp: Aws_Token_miss mint_Inr aws_sample_state_def split: sum.splits if_splits)
  then have "goroutines s' = goroutines aws_sample_state"
    using aws_token_origin [OF s'] by (auto simp: aws_sample_state_def)
  then show ?thesis using s' by (simp add: aws_sample_state_def)
qed

section \<open>The background refresh\<close>

definition aws_initial :: "aws_state \<Rightarrow> bool" where
  "aws_initial s \<longleftrightarrow> \<not> ts_refreshing (source s) \<and> goroutines s = []"

definition one_refresh :: "aws_state \<Rightarrow> bool" where
  "one_refresh s \<longleftrightarrow>
     goroutines s = [] \<and> \<not> ts_refreshing (source s) \<or> (\<exists>p. goroutines s = [p]) \<and> ts_refreshing (source s)"

lemma setLastError_simps [simp]:
  "goroutines (setLastError e s) = goroutines s"
  "ts_refreshing (source (setLastError e s)) = ts_refreshing (source s)"
  "files (setLastError e s) = files s"
  by (simp_all add: setLastError_def)

lemma one_refresh_setLastError [simp]: "one_refresh (setLastError e s) = one_refresh s"
  by (simp add: one_refresh_def)

lemma one_refresh_async: "one_refresh s \<Longrightarrow> one_refresh (refreshAsync s)"
  by (auto simp: one_refresh_def refreshAsync_def)

lemma one_refresh_Token: "one_refresh s \<Longrightarrow> one_refresh (snd (Aws_Token env s))"
  using one_refresh_async [of s]
  by (auto simp: Aws_Token_def Let_def one_refresh_def split: option.split sum.split)

lemma one_refresh_handler: "one_refresh s \<Longrightarrow> one_refresh (snd (Aws_handler env s))"
  using one_refresh_Token [of s env] by (auto simp: Aws_handler_def split: prod.split sum.split)

lemma one_refresh_goroutine: "goroutine_step s s' \<Longrightarrow> one_refresh s \<Longrightarrow> one_refresh s'"
  by (induction rule: goroutine_step.induct) (auto simp: one_refresh_def append_eq_Cons_conv)

lemma one_refresh_step: "aws_step s s' \<Longrightarrow> one_refresh s \<Longrightarrow> one_refresh s'"
  by (induction rule: aws_step.induct) (simp_all add: one_refresh_Token one_refresh_handler one_refresh_goroutine)

lemma one_refresh_initial: "aws_initial s \<Longrightarrow> one_refresh s"
  by (simp add: aws_initial_def one_refresh_def)

interpretation refresh: invariant_system aws_initial aws_step one_refresh
  by unfold_locales (fact one_refresh_initial one_refresh_step)+

interpretation background: invariant_system aws_initial goroutine_step one_refresh
  by unfold_locales (fact one_refresh_initial one_refresh_goroutine)+

text \<open>
  At most one refresh runs at a time. From a new token source, in any interleaving of token
  fetches, handler calls and background steps, whatever STS and the file system do, there is at
  most one refresh goroutine, and the flag is set exactly while it runs.
\<close>

theorem aws_single_refresh:
  assumes "aws_initial s" and "aws_step\<^sup>*\<^sup>* s s'"
  shows "length (goroutines s') \<le> 1 \<and> (ts_refreshing (source s') \<longleftrightarrow> goroutines s' \<noteq> [])"
  using refresh.reachable_inv [OF assms] by (auto simp: one_refresh_def)

text \<open>The cached token five seconds before its expiry, and an STS that is down.\<close>

definition ageing_state :: aws_state where
  "ageing_state = aws_sample_state\<lparr>files := [''/c/t.jwt'' \<mapsto> (cached_token, 384)]\<rparr>"

definition ageing_env :: aws_env where
  "ageing_env = (aws_sample_env (Inl ''down''))\<lparr>now_read := time_Unix 1700000295, now_until := time_Unix 1700000295\<rparr>"

lemma ageing_token: "Aws_Token ageing_env ageing_state = (Inr cached_token, refreshAsync ageing_state)"
proof -
  have n: "now_read ageing_env < time_Unix 1700000300" "sint (Sub (time_Unix 1700000300) (now_until ageing_env)) = 5000000000"
    by (simp_all add: ageing_env_def time_Unix_def unixToInternal_def sint_Sub)
  have "readCache (source ageing_state) (files ageing_state) (now_read ageing_env)
      = Some (cached_token, time_Unix 1700000300)"
    using cached_token_claims cached_token_trimmed n(1)
    by (simp add: readCache_def ageing_state_def aws_sample_state_def aws_sample_source_def Before_def)
      (simp add: cached_token_def)
  from Aws_Token_hit [OF _ this] n(2) show ?thesis
    by (simp add: ageing_state_def aws_sample_state_def aws_sample_source_def DefaultCacheRefreshBefore_def Second_def)
qed

lemma ageing_initial: "aws_initial ageing_state"
  by (simp add: aws_initial_def ageing_state_def aws_sample_state_def aws_sample_source_def)

lemma ageing_step: "aws_step ageing_state (refreshAsync ageing_state)"
  using aws_step.token [of ageing_state ageing_env] by (simp add: ageing_token)

theorem aws_single_refresh_witness:
  "length (goroutines (snd (Aws_Token ageing_env (refreshAsync ageing_state)))) \<le> 1
   \<and> goroutines (refreshAsync ageing_state) = [Minting]"
proof -
  have "aws_step\<^sup>*\<^sup>* ageing_state (snd (Aws_Token ageing_env (refreshAsync ageing_state)))"
    using ageing_step aws_step.token by (meson converse_rtranclp_into_rtranclp rtranclp.rtrancl_refl)
  from aws_single_refresh [OF ageing_initial this] show ?thesis
    by (simp add: refreshAsync_def ageing_state_def aws_sample_state_def aws_sample_source_def)
qed

fun phase_rank :: "phase \<Rightarrow> nat" where
  "phase_rank Minting = 4"
| "phase_rank (Recording r) = (case r of Inl _ \<Rightarrow> 2 | Inr _ \<Rightarrow> 3)"
| "phase_rank (Writing t) = 2"
| "phase_rank Finishing = 1"

definition pending :: "aws_state \<Rightarrow> nat" where
  "pending s = sum_list (map phase_rank (goroutines s))"

lemma goroutine_step_decreases: "goroutine_step s s' \<Longrightarrow> pending s' < pending s"
  by (induction rule: goroutine_step.induct) (auto simp: pending_def split: sum.split)

interpretation goroutine: counted_system goroutine_step pending
  by unfold_locales (rule goroutine_step_decreases)

lemma goroutine_progress: "goroutines s \<noteq> [] \<Longrightarrow> \<exists>s'. goroutine_step s s'"
proof -
  assume "goroutines s \<noteq> []"
  then obtain p ps where g: "goroutines s = [] @ p # ps" by (cases "goroutines s") auto
  show ?thesis
  proof (cases p)
    case (Recording r)
    then show ?thesis using g g_record_error g_record_token by (cases r) blast+
  qed (use g g_mint g_write g_finish in blast)+
qed

lemma phase_rank_le: "phase_rank p \<le> 4"
  by (cases p) (auto split: sum.split)

text \<open>
  A refresh always ends. From every reachable state the goroutine takes at most four more steps
  (mint, record, write, finish), whatever STS and the file system do, and it cannot stop earlier
  than at its end: where no background step is left the flag is cleared, so that the next token
  near its expiry starts a new refresh.
\<close>

theorem aws_refresh_ends:
  assumes "aws_initial s0" and "aws_step\<^sup>*\<^sup>* s0 s" and "(goroutine_step ^^ n) s s'"
  shows "n \<le> 4 \<and> ((\<nexists>s''. goroutine_step s' s'') \<longrightarrow>
    \<not> ts_refreshing (source s') \<and> ts_refreshing (source (refreshAsync s')) \<and> goroutines (refreshAsync s') = [Minting])"
proof -
  have "one_refresh s" by (rule refresh.reachable_inv [OF assms(1,2)])
  then have "pending s \<le> 4" using phase_rank_le by (auto simp: one_refresh_def pending_def)
  then have "n \<le> 4" using goroutine.steps_bounded [OF assms(3)] by linarith
  moreover have "one_refresh s'" using assms(3) \<open>one_refresh s\<close> by (rule background.relpow_inv)
  ultimately show ?thesis using goroutine_progress [of s'] by (auto simp: one_refresh_def refreshAsync_def)
qed

theorem aws_refresh_ends_witness:
  "\<exists>s'. (goroutine_step ^^ 3) (refreshAsync ageing_state) s' \<and> \<not> ts_refreshing (source s')
    \<and> LastError s' = Some (STSError ''down'')"
proof -
  let ?s = "refreshAsync ageing_state" and ?e = "Inl (STSError ''down'') :: aws_error + string"
  have g: "goroutines ?s = [] @ Minting # []"
    by (simp add: refreshAsync_def ageing_state_def aws_sample_state_def aws_sample_source_def)
  have m: "mint (\<lambda>_. Inl ''down'') (source ?s) = ?e" by (simp add: mint_def)
  define s1 where "s1 = ?s\<lparr>goroutines := [] @ Recording ?e # []\<rparr>"
  define s2 where "s2 = (setLastError (Some (STSError ''down'')) s1)\<lparr>goroutines := [] @ Finishing # []\<rparr>"
  define s3 where "s3 = s2\<lparr>source := (source s2)\<lparr>ts_refreshing := False\<rparr>, goroutines := [] @ []\<rparr>"
  have 1: "goroutine_step ?s s1" unfolding s1_def m [symmetric] by (rule g_mint [OF g])
  have 2: "goroutine_step s1 s2" unfolding s2_def by (rule g_record_error) (simp add: s1_def)
  have 3: "goroutine_step s2 s3" unfolding s3_def by (rule g_finish) (simp add: s2_def)
  have n: "(goroutine_step ^^ 3) ?s s3" using 1 2 3 by (auto simp: numeral_3_eq_3)
  have "\<nexists>t. goroutine_step s3 t" by (auto simp: s3_def elim: goroutine_stepE)
  then have "\<not> ts_refreshing (source s3)"
    using aws_refresh_ends [OF ageing_initial r_into_rtranclp [of aws_step, OF ageing_step] n] by blast
  then show ?thesis using n by (auto simp: s3_def s2_def LastError_def setLastError_def intro!: exI [of _ s3])
qed

text \<open>
  A connect hands over a token or an error. The handler given to the NATS client returns the empty
  token exactly when \<open>LastError\<close> is set afterwards, and otherwise the token \<open>Token\<close> fetched; over a
  sequence of connects what \<open>LastError\<close> says is about the last one.
\<close>

theorem aws_handler_reports:
  "(fst (Aws_handler env s) = [] \<longleftrightarrow> LastError (snd (Aws_handler env s)) \<noteq> None)
   \<and> fst (Aws_Token env s) = (case LastError (snd (Aws_handler env s)) of
        None \<Rightarrow> Inr (fst (Aws_handler env s)) | Some e \<Rightarrow> Inl e)
   \<and> LastError (snd (Aws_handler env (setLastError e0 s))) = LastError (snd (Aws_handler env s))"
proof -
  have r: "fst (Aws_Token env (setLastError e0 s)) = fst (Aws_Token env s)"
    by (simp add: Aws_Token_def Let_def readCache_def setLastError_def mint_def mint_input_def
        split: option.split sum.split)
  have l: "LastError (snd (Aws_handler env s')) = (case fst (Aws_Token env s') of Inl e \<Rightarrow> Some e | Inr t \<Rightarrow> None)" for s'
    using aws.handler_error aws.handler_token by (cases "fst (Aws_Token env s')") auto
  have "LastError (snd (Aws_handler env (setLastError e0 s))) = LastError (snd (Aws_handler env s))"
    by (simp only: l r)
  then show ?thesis using aws.handler_empty_iff [of env s] aws.handler_fetch [of env s] by simp
qed

section \<open>The default path of the cache\<close>

lemma hex_char_inj: "a < 16 \<Longrightarrow> b < 16 \<Longrightarrow> hex_char a = hex_char b \<Longrightarrow> a = b"
proof -
  assume "a < 16" "b < 16" "hex_char a = hex_char b"
  then have "byte (hex_char a) = byte (hex_char b)" by simp
  with \<open>a < 16\<close> \<open>b < 16\<close> show ?thesis
    by (auto simp: hex_char_def byte_char_of split: if_splits)
qed

lemma hex_inj: "hex_EncodeToString a = hex_EncodeToString b \<Longrightarrow> a = b"
proof (induction a arbitrary: b)
  case Nil
  then show ?case by (cases b) (simp_all add: hex_EncodeToString_def)
next
  case (Cons c cs)
  then obtain d ds where b: "b = d # ds" by (cases b) (simp_all add: hex_EncodeToString_def)
  have lt: "byte c div 16 < 16" "byte d div 16 < 16" using byte_bound [of c] byte_bound [of d] by simp_all
  have "hex_char (byte c div 16) = hex_char (byte d div 16)" "hex_char (byte c mod 16) = hex_char (byte d mod 16)"
    "hex_EncodeToString cs = hex_EncodeToString ds"
    using Cons.prems unfolding b by (simp_all add: hex_EncodeToString_def)
  then have "byte c div 16 = byte d div 16" "byte c mod 16 = byte d mod 16" "cs = ds"
    using lt hex_char_inj Cons.IH by (simp_all add: hex_char_inj)
  then have "byte c = byte d" "cs = ds" by (metis div_mult_mod_eq)+
  then show ?case by (simp add: b inj_eq [OF inj_byte])
qed

text \<open>There are more audiences of nine bytes than digests of at most eight.\<close>

lemma digest_collision: "\<exists>a b :: string. a \<noteq> b \<and> length a = 9 \<and> length b = 9 \<and> take 8 (h a :: string) = take 8 (h b)"
proof (rule ccontr)
  let ?A = "{s :: string. set s \<subseteq> UNIV \<and> length s = 9}" and ?B = "{s :: string. set s \<subseteq> UNIV \<and> length s \<le> 8}"
  assume "\<not> ?thesis"
  then have "inj_on (\<lambda>a. take 8 (h a)) ?A" by (auto simp: inj_on_def)
  moreover have "(\<lambda>a. take 8 (h a)) ` ?A \<subseteq> ?B" by auto
  moreover have "finite ?B" by (rule finite_lists_length_le) simp
  ultimately have "card ?A \<le> card ?B" by (rule card_inj_on_le)
  moreover have "card ?A = 256 ^ 9" by (subst card_lists_length_eq) (simp_all add: card_UNIV_char)
  moreover have "card ?B = (\<Sum>i\<le>8. 256 ^ i)" by (subst card_lists_length_le) (simp_all add: card_UNIV_char)
  moreover have "(\<Sum>i\<le>n. 256 ^ i) < (256 :: nat) ^ Suc n" for n by (induction n) auto
  from this [of 8] have "(\<Sum>i\<le>8. 256 ^ i) < (256 :: nat) ^ 9" by simp
  ultimately show False by linarith
qed

text \<open>
  Two audiences share a default cache path exactly when the first eight bytes of their digests
  agree, where the path keeps the file name apart from the directory; and whatever the hash
  function is, there are two audiences, both within the length limit, that share it.
\<close>

theorem default_cache_path_shared:
  assumes "\<And>m n. join [dir, ''nats-oidc-callout'', m] = join [dir, ''nats-oidc-callout'', n] \<Longrightarrow> m = n"
  shows "(DefaultCachePath sha join (Inr dir) a = DefaultCachePath sha join (Inr dir) b
      \<longleftrightarrow> take 8 (sha a) = take 8 (sha b))
    \<and> (\<exists>x y. x \<noteq> y \<and> x \<noteq> [] \<and> y \<noteq> [] \<and> length x \<le> maxAudienceLen \<and> length y \<le> maxAudienceLen
        \<and> DefaultCachePath sha join (Inr dir) x = DefaultCachePath sha join (Inr dir) y)"
proof
  show "DefaultCachePath sha join (Inr dir) a = DefaultCachePath sha join (Inr dir) b
      \<longleftrightarrow> take 8 (sha a) = take 8 (sha b)"
    (is "?same \<longleftrightarrow> ?digest")
  proof
    assume ?same
    then have "''awsauth-'' @ hex_EncodeToString (take 8 (sha a)) @ ''.jwt''
        = ''awsauth-'' @ hex_EncodeToString (take 8 (sha b)) @ ''.jwt''"
      unfolding DefaultCachePath_def Let_def sum.case sum.inject by (rule assms)
    then have "hex_EncodeToString (take 8 (sha a)) = hex_EncodeToString (take 8 (sha b))" by simp
    then show ?digest by (rule hex_inj)
  qed (simp add: DefaultCachePath_def Let_def)
  obtain x y where "x \<noteq> y" "length x = 9" "length y = 9" "take 8 (sha x) = take 8 (sha y)"
    using digest_collision by blast
  then show "\<exists>x y. x \<noteq> y \<and> x \<noteq> [] \<and> y \<noteq> [] \<and> length x \<le> maxAudienceLen \<and> length y \<le> maxAudienceLen
        \<and> DefaultCachePath sha join (Inr dir) x = DefaultCachePath sha join (Inr dir) y"
    by (intro exI [of _ x] exI [of _ y]) (auto simp: DefaultCachePath_def Let_def maxAudienceLen_def)
qed

theorem default_cache_path_shared_witness:
  "DefaultCachePath (\<lambda>a. a) (Join CHR ''/'') (Inr ''/home/u/.cache'') ''team-one-a''
     = DefaultCachePath (\<lambda>a. a) (Join CHR ''/'') (Inr ''/home/u/.cache'') ''team-one-b''"
proof -
  have j: "Join CHR ''/'' [''/home/u/.cache'', ''nats-oidc-callout'', m] = Join CHR ''/'' [''/home/u/.cache'', ''nats-oidc-callout'', n] \<Longrightarrow> m = n"
    for m n by simp
  show ?thesis
    using default_cache_path_shared [of "Join CHR ''/''" "''/home/u/.cache''" "\<lambda>a. a" "''team-one-a''" "''team-one-b''"] j
    by simp
qed

end
