(* ===== verification/AwsThreads.thy ===== *)
theory AwsThreads
  imports AwsAuthProps
begin

text \<open>
  The AWS token sources at the grain of their system calls: any number of callers of \<open>Token\<close>, of
  handlers of NATS connections and of refresh goroutines, of any number of token sources in any
  number of processes, over one file system.

  A thread is at a program point; a step of it is one system call, one request to STS, one critical
  section of the mutex, or one piece of a \<open>WriteString\<close>. Whatever the code does not decide (the
  clock, the answer of STS, whether a call of the system fails, the name \<open>CreateTemp\<close> picks, how much
  is written at once) is in the choice of the step. The names that \<open>CreateTemp\<close> picks are random,
  and the model lets it pick no name twice. A process that dies is one whose threads take no more
  steps, so what holds in every reachable state holds after a crash too.
\<close>

section \<open>Program points and the state\<close>

text \<open>
  Inside \<open>writeCache\<close>: the call that is next, the name of the temporary file, and how many bytes of
  the token are in it. \<open>W_remove\<close> is the deferred removal.
\<close>

datatype writer =
    W_mkdir
  | W_create
  | W_chmod string
  | W_write string nat
  | W_close string
  | W_rename string
  | W_remove string
  | W_end

text \<open>
  A call is at a point \<open>T_\<close>, and knows whether it is made by the handler of a NATS connection; a
  refresh goroutine is at a point \<open>G_\<close>. A thread is done with the result of its call, or, a
  goroutine, with none.
\<close>

datatype pc =
    T_start bool
  | T_hit bool string time
  | T_refresh bool string
  | T_spawn bool string
  | T_mint bool
  | T_write bool string writer
  | T_return bool "aws_error + string"
  | G_mint
  | G_record "aws_error + string"
  | G_write string writer
  | G_finish
  | Done "(aws_error + string) option"

record aws_choice =
  ch_now :: time
  ch_client :: sts_client
  ch_ok :: bool
  ch_tmp :: string
  ch_bytes :: nat

text \<open>
  The file system, the names of temporary files used so far, the token sources, every token STS has
  answered with its request (which no code reads), and the threads, each with the number of its
  token source.
\<close>

record aws_system =
  sys_disk :: disk
  sys_used :: "string set"
  sys_sources :: "TokenSource list"
  sys_minted :: "(sts_input \<times> string) set"
  sys_threads :: "(nat \<times> pc) list"

definition update_source :: "nat \<Rightarrow> (TokenSource \<Rightarrow> TokenSource) \<Rightarrow> aws_system \<Rightarrow> aws_system" where
  "update_source j f w = w\<lparr>sys_sources := (sys_sources w)[j := f (sys_sources w ! j)]\<rparr>"

definition set_lastErr :: "nat \<Rightarrow> aws_error option \<Rightarrow> aws_system \<Rightarrow> aws_system" where
  "set_lastErr j e = update_source j (\<lambda>ts. ts\<lparr>ts_lastErr := e\<rparr>)"

definition set_refreshing :: "nat \<Rightarrow> bool \<Rightarrow> aws_system \<Rightarrow> aws_system" where
  "set_refreshing j b = update_source j (\<lambda>ts. ts\<lparr>ts_refreshing := b\<rparr>)"

text \<open>The names \<open>CreateTemp\<close> makes of the pattern \<open>.awsauth-*.tmp\<close>, in any directory.\<close>

definition tmp_name :: "string \<Rightarrow> bool" where
  "tmp_name p \<longleftrightarrow> (let base = last (Split CHR ''/'' p) in HasPrefix base ''.awsauth-'' \<and> HasSuffix base ''.tmp'')"

section \<open>Steps\<close>

text \<open>
  One system call of a cache write: the point after it, the names used, and the disk. A rename takes
  whatever is under the temporary name.
\<close>

fun write_step :: "aws_choice \<Rightarrow> string \<Rightarrow> string \<Rightarrow> writer \<Rightarrow> string set \<times> disk \<Rightarrow> writer \<times> string set \<times> disk" where
  "write_step c path tok W_mkdir (used, d) = (if ch_ok c then W_create else W_end, used, d)"
| "write_step c path tok W_create (used, d) =
     (let t = ch_tmp c in
      if ch_ok c \<and> tmp_name t \<and> t \<notin> used \<and> d t = None
      then (W_chmod t, insert t used, d(t \<mapsto> ([], 384))) else (W_end, used, d))"
| "write_step c path tok (W_chmod t) (used, d) = (if ch_ok c then W_write t 0 else W_remove t, used, d)"
| "write_step c path tok (W_write t k) (used, d) =
     (if ch_ok c then
        let k' = min (length tok) (k + Suc (ch_bytes c)) in
        (if k' = length tok then W_close t else W_write t k', used, d(t \<mapsto> (take k' tok, 384)))
      else (W_remove t, used, d))"
| "write_step c path tok (W_close t) (used, d) = (if ch_ok c then W_rename t else W_remove t, used, d)"
| "write_step c path tok (W_rename t) (used, d) =
     (W_remove t, used, if ch_ok c \<and> d t \<noteq> None then d(path := d t, t := None) else d)"
| "write_step c path tok (W_remove t) (used, d) = (W_end, used, if ch_ok c then d(t := None) else d)"
| "write_step c path tok W_end (used, d) = (W_end, used, d)"

definition system_write ::
  "aws_choice \<Rightarrow> nat \<Rightarrow> string \<Rightarrow> writer \<Rightarrow> (writer \<Rightarrow> pc) \<Rightarrow> aws_system \<Rightarrow> pc \<times> pc list \<times> aws_system" where
  "system_write c j tok wr at w =
     (case write_step c (ts_cachePath (sys_sources w ! j)) tok wr (sys_used w, sys_disk w) of
        (wr', used, d) \<Rightarrow> (at wr', [], w\<lparr>sys_used := used, sys_disk := d\<rparr>))"

definition system_mint ::
  "aws_choice \<Rightarrow> nat \<Rightarrow> (aws_error + string \<Rightarrow> pc) \<Rightarrow> aws_system \<Rightarrow> pc \<times> pc list \<times> aws_system" where
  "system_mint c j at w =
     (let ts = sys_sources w ! j; r = mint (ch_client c) ts in
      (at r, [], case r of Inl _ \<Rightarrow> w | Inr tok \<Rightarrow> w\<lparr>sys_minted := insert (mint_input ts, tok) (sys_minted w)\<rparr>))"

text \<open>The result of \<open>Token\<close>, which the handler of a connection records.\<close>

definition call_return :: "bool \<Rightarrow> nat \<Rightarrow> aws_error + string \<Rightarrow> aws_system \<Rightarrow> aws_system" where
  "call_return handler j r w =
     (if handler then set_lastErr j (case r of Inl e \<Rightarrow> Some e | Inr _ \<Rightarrow> None) w else w)"

text \<open>The critical section of \<open>refreshAsync\<close>.\<close>

definition claim_refresh :: "bool \<Rightarrow> nat \<Rightarrow> string \<Rightarrow> aws_system \<Rightarrow> pc \<times> pc list \<times> aws_system" where
  "claim_refresh handler j tok w =
     (if ts_refreshing (sys_sources w ! j) then (T_return handler (Inr tok), [], w)
      else (T_spawn handler tok, [], set_refreshing j True w))"

text \<open>One step of the thread of a token source: where it is then, the goroutines it starts, and the state.\<close>

fun thread_step :: "aws_choice \<Rightarrow> nat \<Rightarrow> pc \<Rightarrow> aws_system \<Rightarrow> pc \<times> pc list \<times> aws_system" where
  "thread_step c j (T_start h) w =
     (let ts = sys_sources w ! j in
      case (if ts_cachePath ts \<noteq> [] then readCache ts (sys_disk w) (ch_now c) else None) of
        Some (tok, ex) \<Rightarrow> (T_hit h tok ex, [], w)
      | None \<Rightarrow> (T_mint h, [], w))"
| "thread_step c j (T_hit h tok ex) w =
     (if sint (Sub ex (ch_now c)) < sint (ts_cacheRefreshBefore (sys_sources w ! j))
      then (T_refresh h tok, [], w) else (T_return h (Inr tok), [], w))"
| "thread_step c j (T_refresh h tok) w = claim_refresh h j tok w"
| "thread_step c j (T_spawn h tok) w = (T_return h (Inr tok), [G_mint], w)"
| "thread_step c j (T_mint h) w =
     system_mint c j (\<lambda>r. case r of
        Inl e \<Rightarrow> T_return h (Inl e)
      | Inr tok \<Rightarrow> if ts_cachePath (sys_sources w ! j) \<noteq> [] then T_write h tok W_mkdir else T_return h (Inr tok)) w"
| "thread_step c j (T_write h tok wr) w =
     (if wr = W_end then (T_return h (Inr tok), [], w) else system_write c j tok wr (T_write h tok) w)"
| "thread_step c j (T_return h r) w = (Done (Some r), [], call_return h j r w)"
| "thread_step c j G_mint w = system_mint c j G_record w"
| "thread_step c j (G_record r) w =
     (case r of
        Inl e \<Rightarrow> (G_finish, [], set_lastErr j (Some e) w)
      | Inr tok \<Rightarrow> (G_write tok W_mkdir, [], set_lastErr j None w))"
| "thread_step c j (G_write tok wr) w =
     (if wr = W_end then (G_finish, [], w) else system_write c j tok wr (G_write tok) w)"
| "thread_step c j G_finish w = (Done None, [], set_refreshing j False w)"
| "thread_step c j (Done r) w = (Done r, [], w)"

fun is_done :: "pc \<Rightarrow> bool" where
  "is_done (Done r) = True"
| "is_done _ = False"

text \<open>A run step is a step of some thread that is not done; at any time new calls may come in.\<close>

inductive run_step :: "aws_system \<Rightarrow> aws_system \<Rightarrow> bool" where
  run: "sys_threads w = before @ (j, pc) # after \<Longrightarrow> j < length (sys_sources w) \<Longrightarrow> \<not> is_done pc \<Longrightarrow>
    thread_step c j pc w = (pc', started, w') \<Longrightarrow>
    run_step w (w'\<lparr>sys_threads := before @ (j, pc') # after @ map (Pair j) started\<rparr>)"

inductive conc_step :: "aws_system \<Rightarrow> aws_system \<Rightarrow> bool" where
  runs: "run_step w w' \<Longrightarrow> conc_step w w'"
| arrives: "j < length (sys_sources w) \<Longrightarrow>
    conc_step w (w\<lparr>sys_threads := sys_threads w @ [(j, T_start handler)]\<rparr>)"

text \<open>
  The system at its start: some files, and token sources whose cache paths do not look like
  temporary files.
\<close>

definition system_initial :: "disk \<Rightarrow> aws_system \<Rightarrow> bool" where
  "system_initial d w \<longleftrightarrow> sys_disk w = d \<and> sys_threads w = [] \<and> sys_minted w = {} \<and> sys_used w = {}
     \<and> list_all (\<lambda>ts. \<not> ts_refreshing ts \<and> \<not> tmp_name (ts_cachePath ts)) (sys_sources w)"

section \<open>Schedules\<close>

text \<open>
  The same runs as a function of a schedule: which thread takes the next step, by its position, and
  with which choice. A schedule that names a thread that is not there or done has no run.
\<close>

definition step_at :: "nat \<Rightarrow> aws_choice \<Rightarrow> aws_system \<Rightarrow> aws_system" where
  "step_at i c w =
     (case sys_threads w ! i of (j, pc) \<Rightarrow>
       (case thread_step c j pc w of (pc', started, w') \<Rightarrow>
          w'\<lparr>sys_threads := (sys_threads w)[i := (j, pc')] @ map (Pair j) started\<rparr>))"

definition can_step :: "nat \<Rightarrow> aws_system \<Rightarrow> bool" where
  "can_step i w \<longleftrightarrow> i < length (sys_threads w) \<and> fst (sys_threads w ! i) < length (sys_sources w)
     \<and> \<not> is_done (snd (sys_threads w ! i))"

fun run_schedule :: "(nat \<times> aws_choice) list \<Rightarrow> aws_system \<Rightarrow> aws_system option" where
  "run_schedule [] w = Some w"
| "run_schedule ((i, c) # cs) w = (if can_step i w then run_schedule cs (step_at i c w) else None)"

lemma run_step_iff: "run_step w w' \<longleftrightarrow> (\<exists>i c. can_step i w \<and> w' = step_at i c w)"
proof
  assume "run_step w w'"
  then show "\<exists>i c. can_step i w \<and> w' = step_at i c w"
  proof cases
    case (run before j pc after c pc' started v)
    then show ?thesis
      by (intro exI [of _ "length before"] exI [of _ c]) (simp add: can_step_def step_at_def nth_append list_update_append)
  qed
next
  assume "\<exists>i c. can_step i w \<and> w' = step_at i c w"
  then obtain i c where ic: "can_step i w" "w' = step_at i c w" by blast
  obtain j pc where p: "sys_threads w ! i = (j, pc)" by fastforce
  obtain pc' started v where s: "thread_step c j pc w = (pc', started, v)" by (rule prod_cases3)
  have i: "i < length (sys_threads w)" "j < length (sys_sources w)" "\<not> is_done pc"
    using ic(1) p by (simp_all add: can_step_def)
  have "sys_threads w = take i (sys_threads w) @ (j, pc) # drop (Suc i) (sys_threads w)"
    using id_take_nth_drop [OF i(1)] p by simp
  from run_step.run [OF this i(2,3) s] show "run_step w w'"
    using ic(2) i(1) by (simp add: step_at_def p s upd_conv_take_nth_drop)
qed

lemma run_schedule_iff: "run_step\<^sup>*\<^sup>* w w' \<longleftrightarrow> (\<exists>cs. run_schedule cs w = Some w')"
proof
  assume "run_step\<^sup>*\<^sup>* w w'"
  then show "\<exists>cs. run_schedule cs w = Some w'"
  proof (induction rule: converse_rtranclp_induct)
    case base
    show ?case by (rule exI [of _ "[]"]) simp
  next
    case (step u v)
    then obtain i c cs where "can_step i u" "v = step_at i c u" "run_schedule cs v = Some w'"
      by (auto simp: run_step_iff)
    then show ?case by (intro exI [of _ "(i, c) # cs"]) simp
  qed
next
  assume "\<exists>cs. run_schedule cs w = Some w'"
  then obtain cs where "run_schedule cs w = Some w'" ..
  then show "run_step\<^sup>*\<^sup>* w w'"
  proof (induction cs w rule: run_schedule.induct)
    case (2 i c cs w)
    then have "run_step w (step_at i c w)" by (auto simp: run_step_iff split: if_splits)
    with 2 show ?case by (auto intro: converse_rtranclp_into_rtranclp split: if_splits)
  qed simp
qed

end
