(* ===== verification/AwsThreadsProps.thy ===== *)
theory AwsThreadsProps
  imports AwsThreads
begin

text \<open>
  What holds of the AWS token sources however their threads interleave: no reader sees part of a
  token, whose token a call returns, the single refresh as a refinement of a machine without flags,
  the end of every call, and the agreement with the coarser model of \<open>AwsAuth\<close>.
\<close>

section \<open>What a step leaves alone\<close>

lemma source_update_simps [simp]:
  "mint_input (ts\<lparr>ts_lastErr := e\<rparr>) = mint_input ts" "mint_input (ts\<lparr>ts_refreshing := b\<rparr>) = mint_input ts"
  "readCache (ts\<lparr>ts_lastErr := e\<rparr>) = readCache ts" "readCache (ts\<lparr>ts_refreshing := b\<rparr>) = readCache ts"
  by (simp_all add: mint_input_def readCache_def [abs_def] Let_def cong: option.case_cong sum.case_cong if_cong prod.case_cong)

lemma update_source_nth:
  "sys_sources (update_source j f w) ! i = (if i = j \<and> j < length (sys_sources w) then f (sys_sources w ! j) else sys_sources w ! i)"
  by (cases "j < length (sys_sources w)"; cases "i = j") (simp_all add: update_source_def list_update_beyond)

lemma update_source_simps [simp]:
  "sys_disk (update_source j f w) = sys_disk w" "sys_used (update_source j f w) = sys_used w"
  "sys_minted (update_source j f w) = sys_minted w" "sys_threads (update_source j f w) = sys_threads w"
  "length (sys_sources (update_source j f w)) = length (sys_sources w)"
  by (simp_all add: update_source_def)

lemmas step_defs = system_write_def system_mint_def call_return_def claim_refresh_def set_lastErr_def
  set_refreshing_def Let_def

definition same_config :: "aws_system \<Rightarrow> aws_system \<Rightarrow> bool" where
  "same_config w w' \<longleftrightarrow> length (sys_sources w') = length (sys_sources w)
     \<and> (\<forall>i. ts_cachePath (sys_sources w' ! i) = ts_cachePath (sys_sources w ! i)
          \<and> ts_audience (sys_sources w' ! i) = ts_audience (sys_sources w ! i)
          \<and> mint_input (sys_sources w' ! i) = mint_input (sys_sources w ! i))"

lemma same_config_refl [simp]: "same_config w w"
  by (simp add: same_config_def)

lemma same_config_update [simp]:
  "same_config w (set_lastErr j e w)" "same_config w (set_refreshing j b w)"
  by (simp_all add: same_config_def set_lastErr_def set_refreshing_def update_source_nth)

lemma thread_step_config:
  "thread_step c j pc w = (pc', started, w') \<Longrightarrow> same_config w w' \<and> sys_threads w' = sys_threads w
     \<and> sys_minted w \<subseteq> sys_minted w' \<and> set started \<subseteq> {G_mint}"
proof (cases pc)
  case (T_return h r)
  then show "thread_step c j pc w = (pc', started, w') \<Longrightarrow> ?thesis"
    by (cases h) (auto simp: call_return_def set_lastErr_def same_config_def update_source_nth split: sum.splits)
next
  case (T_start h)
  then show "thread_step c j pc w = (pc', started, w') \<Longrightarrow> ?thesis"
    by (auto simp: Let_def split: option.splits if_splits)
qed (auto simp: system_write_def system_mint_def claim_refresh_def set_refreshing_def set_lastErr_def Let_def
      same_config_def update_source_nth split: sum.splits if_splits prod.splits)

section \<open>The cache files\<close>

fun tmps_of :: "writer \<Rightarrow> string list" where
  "tmps_of (W_chmod t) = [t]"
| "tmps_of (W_write t k) = [t]"
| "tmps_of (W_close t) = [t]"
| "tmps_of (W_rename t) = [t]"
| "tmps_of (W_remove t) = [t]"
| "tmps_of _ = []"

fun owned :: "pc \<Rightarrow> string list" where
  "owned (T_write h tok wr) = tmps_of wr"
| "owned (G_write tok wr) = tmps_of wr"
| "owned _ = []"

definition temps :: "aws_system \<Rightarrow> string list" where
  "temps w = concat (map (owned \<circ> snd) (sys_threads w))"

text \<open>What is in the temporary file of a writer.\<close>

fun writer_ok :: "string \<Rightarrow> disk \<Rightarrow> writer \<Rightarrow> bool" where
  "writer_ok tok d (W_chmod t) = (d t = Some ([], 384))"
| "writer_ok tok d (W_write t k) = (d t = Some (take k tok, 384))"
| "writer_ok tok d (W_close t) = (d t = Some (tok, 384))"
| "writer_ok tok d (W_rename t) = (d t = Some (tok, 384))"
| "writer_ok tok d _ = True"

lemma writer_ok_cong: "\<forall>t \<in> set (tmps_of wr). d' t = d t \<Longrightarrow> writer_ok tok d' wr = writer_ok tok d wr"
  by (cases wr) auto

lemma write_step_ok:
  assumes "write_step c path tok wr (used, d) = (wr', used', d')"
    and "\<not> tmp_name path" and "set (tmps_of wr) \<subseteq> used \<inter> Collect tmp_name" and "writer_ok tok d wr"
  shows "used \<subseteq> used' \<and> set (tmps_of wr') \<subseteq> used' \<inter> Collect tmp_name
    \<and> set (tmps_of wr') \<inter> used \<subseteq> set (tmps_of wr) \<and> distinct (tmps_of wr') \<and> writer_ok tok d' wr'
    \<and> (\<forall>p. p \<notin> set (tmps_of wr) \<union> set (tmps_of wr') \<longrightarrow> d' p = d p \<or> p = path \<and> d' p = Some (tok, 384))"
  using assms by (cases wr) (auto simp: Let_def split: if_splits)

text \<open>
  A token a call may return: STS answered it to this very request, or it is the trimmed contents of
  the cache file, which are what was there at the start or a whole token some source minted.
\<close>

definition good_token :: "disk \<Rightarrow> aws_system \<Rightarrow> nat \<Rightarrow> string \<Rightarrow> bool" where
  "good_token d0 w j tok \<longleftrightarrow> tok \<noteq> [] \<and>
     ((mint_input (sys_sources w ! j), tok) \<in> sys_minted w
      \<or> (\<exists>b ex auds. ((\<exists>m. d0 (ts_cachePath (sys_sources w ! j)) = Some (b, m)) \<or> (\<exists>req. (req, b) \<in> sys_minted w))
           \<and> tok = TrimSpace b \<and> unverifiedExpiryAudience tok = Inr (ex, auds)
           \<and> ts_audience (sys_sources w ! j) \<in> set auds))"

definition minted_for :: "aws_system \<Rightarrow> nat \<Rightarrow> string \<Rightarrow> bool" where
  "minted_for w j tok \<longleftrightarrow> tok \<noteq> [] \<and> (mint_input (sys_sources w ! j), tok) \<in> sys_minted w"

fun pc_ok :: "disk \<Rightarrow> aws_system \<Rightarrow> nat \<Rightarrow> pc \<Rightarrow> bool" where
  "pc_ok d0 w j (T_hit h tok ex) = good_token d0 w j tok"
| "pc_ok d0 w j (T_refresh h tok) = good_token d0 w j tok"
| "pc_ok d0 w j (T_spawn h tok) = good_token d0 w j tok"
| "pc_ok d0 w j (T_write h tok wr) = (minted_for w j tok \<and> writer_ok tok (sys_disk w) wr)"
| "pc_ok d0 w j (T_return h r) = (\<forall>tok. r = Inr tok \<longrightarrow> good_token d0 w j tok)"
| "pc_ok d0 w j (G_record r) = (\<forall>tok. r = Inr tok \<longrightarrow> minted_for w j tok)"
| "pc_ok d0 w j (G_write tok wr) = (minted_for w j tok \<and> writer_ok tok (sys_disk w) wr)"
| "pc_ok d0 w j (Done r) = (\<forall>tok. r = Some (Inr tok) \<longrightarrow> good_token d0 w j tok)"
| "pc_ok d0 w j _ = True"

definition whole_token :: "aws_system \<Rightarrow> string \<times> nat \<Rightarrow> bool" where
  "whole_token w f \<longleftrightarrow> snd f = 384 \<and> (\<exists>req. (req, fst f) \<in> sys_minted w)"

definition files_ok :: "disk \<Rightarrow> aws_system \<Rightarrow> bool" where
  "files_ok d0 w \<longleftrightarrow>
     (\<forall>p. \<not> tmp_name p \<longrightarrow> sys_disk w p = d0 p
        \<or> p \<in> ts_cachePath ` set (sys_sources w) \<and> (\<exists>f. sys_disk w p = Some f \<and> whole_token w f))
     \<and> distinct (temps w) \<and> set (temps w) \<subseteq> sys_used w \<inter> Collect tmp_name
     \<and> (\<forall>(j, pc) \<in> set (sys_threads w). j < length (sys_sources w) \<and> pc_ok d0 w j pc)
     \<and> (\<forall>ts \<in> set (sys_sources w). \<not> tmp_name (ts_cachePath ts))"

lemma good_token_mono:
  "same_config w w' \<Longrightarrow> sys_minted w \<subseteq> sys_minted w' \<Longrightarrow> good_token d0 w j tok \<Longrightarrow> good_token d0 w' j tok"
  unfolding good_token_def same_config_def by (metis subsetD)

lemma minted_for_mono:
  "same_config w w' \<Longrightarrow> sys_minted w \<subseteq> sys_minted w' \<Longrightarrow> minted_for w j tok \<Longrightarrow> minted_for w' j tok"
  by (auto simp: minted_for_def same_config_def)

lemma minted_for_good: "minted_for w j tok \<Longrightarrow> good_token d0 w j tok"
  by (simp add: minted_for_def good_token_def)

lemma pc_ok_mono:
  assumes "same_config w w'" and "sys_minted w \<subseteq> sys_minted w'" and "\<forall>t \<in> set (owned pc). sys_disk w' t = sys_disk w t"
    and "pc_ok d0 w j pc"
  shows "pc_ok d0 w' j pc"
  using assms(3,4) good_token_mono [OF assms(1,2)] minted_for_mono [OF assms(1,2)]
  by (cases pc) (auto simp: writer_ok_cong [of _ "sys_disk w'" "sys_disk w"])

text \<open>A hit reads the cache while it holds what it held at the start or a whole token.\<close>

lemma read_good:
  assumes "files_ok d0 w" and "j < length (sys_sources w)"
    and "readCache (sys_sources w ! j) (sys_disk w) now = Some (tok, ex)"
  shows "good_token d0 w j tok"
proof -
  let ?p = "ts_cachePath (sys_sources w ! j)"
  obtain b m auds where b: "tok \<noteq> []" "sys_disk w ?p = Some (b, m)" "tok = TrimSpace b"
    "unverifiedExpiryAudience tok = Inr (ex, auds)" "ts_audience (sys_sources w ! j) \<in> set auds"
    using readCache_Some [OF assms(3)] by blast
  have "\<not> tmp_name ?p" using assms(1,2) by (simp add: files_ok_def)
  then have "sys_disk w ?p = d0 ?p \<or> (\<exists>f. sys_disk w ?p = Some f \<and> whole_token w f)"
    using assms(1) unfolding files_ok_def by blast
  then show ?thesis unfolding good_token_def using b by (auto simp: whole_token_def) metis+
qed

lemma system_mint_minted:
  "system_mint c j at w = (pc', started, w') \<Longrightarrow>
     \<exists>r. pc' = at r \<and> sys_disk w' = sys_disk w \<and> sys_used w' = sys_used w \<and> (\<forall>tok. r = Inr tok \<longrightarrow> minted_for w' j tok)"
  by (auto simp: system_mint_def Let_def minted_for_def mint_nonempty mint_Inr split: sum.splits)

text \<open>What a step does for its own thread, and what it may change for the others.\<close>

definition step_ok :: "disk \<Rightarrow> aws_system \<Rightarrow> nat \<Rightarrow> pc \<Rightarrow> pc \<Rightarrow> aws_system \<Rightarrow> bool" where
  "step_ok d0 w j pc pc' w' \<longleftrightarrow>
     pc_ok d0 w' j pc' \<and> sys_used w \<subseteq> sys_used w' \<and> set (owned pc') \<subseteq> sys_used w' \<inter> Collect tmp_name
     \<and> set (owned pc') \<inter> sys_used w \<subseteq> set (owned pc) \<and> distinct (owned pc')
     \<and> (\<forall>p. p \<notin> set (owned pc) \<union> set (owned pc') \<longrightarrow> sys_disk w' p = sys_disk w p
          \<or> p = ts_cachePath (sys_sources w ! j) \<and> (\<exists>f. sys_disk w' p = Some f \<and> whole_token w' f))"

lemma system_write_ok:
  assumes "system_write c j tok wr at w = (pc', started, w')" and "\<And>wr. owned (at wr) = tmps_of wr"
    and "\<And>w wr. pc_ok d0 w j (at wr) \<longleftrightarrow> minted_for w j tok \<and> writer_ok tok (sys_disk w) wr"
    and "\<not> tmp_name (ts_cachePath (sys_sources w ! j))"
    and "set (tmps_of wr) \<subseteq> sys_used w \<inter> Collect tmp_name" and "pc_ok d0 w j (at wr)"
  shows "step_ok d0 w j (at wr) pc' w'"
proof -
  obtain wr' used d where s: "write_step c (ts_cachePath (sys_sources w ! j)) tok wr (sys_used w, sys_disk w) = (wr', used, d)"
    using prod_cases3 by blast
  then have r: "pc' = at wr'" "w' = w\<lparr>sys_used := used, sys_disk := d\<rparr>" using assms(1) by (simp_all add: system_write_def)
  have m: "minted_for w j tok" and o: "writer_ok tok (sys_disk w) wr" using assms(3,6) by simp_all
  have "whole_token w' (tok, 384)" using m by (auto simp: whole_token_def minted_for_def r)
  moreover have "minted_for w' j tok" using m by (simp add: minted_for_def r)
  ultimately show ?thesis
    using write_step_ok [OF s assms(4,5) o] by (auto simp: step_ok_def r assms(2,3))
qed

lemma step_ok_quiet:
  assumes "pc_ok d0 w' j pc'" and "sys_used w' = sys_used w" and "sys_disk w' = sys_disk w" and "owned pc' = []"
  shows "step_ok d0 w j pc pc' w'"
  using assms by (simp add: step_ok_def)

lemma thread_step_ok:
  assumes "files_ok d0 w" and "(j, pc) \<in> set (sys_threads w)" and "thread_step c j pc w = (pc', started, w')"
  shows "step_ok d0 w j pc pc' w'"
proof -
  have j: "j < length (sys_sources w)" and ok: "pc_ok d0 w j pc" using assms(1,2) by (auto simp: files_ok_def)
  then have path: "\<not> tmp_name (ts_cachePath (sys_sources w ! j))" using assms(1) by (simp add: files_ok_def)
  have own: "set (owned pc) \<subseteq> sys_used w \<inter> Collect tmp_name"
  proof -
    have "set (owned pc) \<subseteq> set (temps w)" using assms(2) by (force simp: temps_def)
    then show ?thesis using assms(1) by (auto simp: files_ok_def)
  qed
  have good: "same_config w w'" "sys_minted w \<subseteq> sys_minted w'" using thread_step_config [OF assms(3)] by simp_all
  note mono = good_token_mono [OF good] minted_for_mono [OF good]
  show ?thesis
  proof (cases pc)
    case (T_start h)
    then show ?thesis using assms(3) read_good [OF assms(1) j]
      by (intro step_ok_quiet) (auto simp: Let_def split: option.splits if_splits)
  next
    case (T_refresh h tok)
    then show ?thesis using assms(3) ok mono
      by (intro step_ok_quiet) (auto simp: claim_refresh_def set_refreshing_def split: if_splits)
  next
    case (T_mint h)
    then show ?thesis using assms(3) minted_for_good
      by (intro step_ok_quiet) (auto dest!: system_mint_minted split: sum.splits if_splits)
  next
    case (T_write h tok wr)
    show ?thesis
    proof (cases "wr = W_end")
      case True
      then show ?thesis using T_write assms(3) ok minted_for_good by (intro step_ok_quiet) auto
    next
      case False
      then have "system_write c j tok wr (T_write h tok) w = (pc', started, w')" using T_write assms(3) by simp
      then have "step_ok d0 w j (T_write h tok wr) pc' w'"
        by (rule system_write_ok) (use T_write ok own path in simp_all)
      then show ?thesis by (simp add: T_write)
    qed
  next
    case (T_return h r)
    then show ?thesis using assms(3) ok mono
      by (cases h; intro step_ok_quiet) (auto simp: call_return_def set_lastErr_def)
  next
    case G_mint
    then show ?thesis using assms(3) by (intro step_ok_quiet) (auto dest!: system_mint_minted)
  next
    case (G_record r)
    then show ?thesis using assms(3) ok mono
      by (intro step_ok_quiet) (auto simp: set_lastErr_def split: sum.splits)
  next
    case (G_write tok wr)
    show ?thesis
    proof (cases "wr = W_end")
      case True
      then show ?thesis using G_write assms(3) by (intro step_ok_quiet) auto
    next
      case False
      then have "system_write c j tok wr (G_write tok) w = (pc', started, w')" using G_write assms(3) by simp
      then have "step_ok d0 w j (G_write tok wr) pc' w'"
        by (rule system_write_ok) (use G_write ok own path in simp_all)
      then show ?thesis by (simp add: G_write)
    qed
  next
    case G_finish
    then show ?thesis using assms(3) by (intro step_ok_quiet) (auto simp: set_refreshing_def)
  qed (use assms(3) ok in \<open>auto intro!: step_ok_quiet split: if_splits\<close>)
qed

lemma distinct_replace:
  assumes "distinct (xs @ ys @ zs)" and "distinct ys'" and "set ys' \<inter> U \<subseteq> set ys" and "set (xs @ ys @ zs) \<subseteq> U"
  shows "distinct (xs @ ys' @ zs)"
  using assms by auto

lemma same_config_paths:
  "same_config w w' \<Longrightarrow> ts_cachePath ` set (sys_sources w') = ts_cachePath ` set (sys_sources w)"
proof -
  assume "same_config w w'"
  then have "map ts_cachePath (sys_sources w') = map ts_cachePath (sys_sources w)"
    by (simp add: same_config_def list_eq_iff_nth_eq)
  then show ?thesis by (metis list.set_map)
qed

lemma temps_append: "temps (w\<lparr>sys_threads := a @ (j, pc) # b @ c\<rparr>)
    = concat (map (owned \<circ> snd) a) @ owned pc @ concat (map (owned \<circ> snd) b) @ concat (map (owned \<circ> snd) c)"
  by (simp add: temps_def)

text \<open>The parts of the invariant after a step of one thread, \<open>(j, pc)\<close>.\<close>

lemma temps_thread:
  assumes "files_ok d0 w" and "sys_threads w = before @ (j, pc) # after" and "step_ok d0 w j pc pc' w'"
    and "set started \<subseteq> {G_mint}"
    and "ts = temps (w'\<lparr>sys_threads := before @ (j, pc') # after @ map (Pair j) started\<rparr>)"
  shows "distinct ts \<and> set ts \<subseteq> sys_used w' \<inter> Collect tmp_name"
proof -
  have t: "temps w = concat (map (owned \<circ> snd) before) @ owned pc @ concat (map (owned \<circ> snd) after)"
    using assms(2) by (simp add: temps_def)
  have "concat (map (owned \<circ> snd) (map (Pair j) started)) = []" using assms(4) by auto
  then have ts: "ts = concat (map (owned \<circ> snd) before) @ owned pc' @ concat (map (owned \<circ> snd) after)"
    unfolding assms(5) temps_append by simp
  have inv: "distinct (temps w)" "set (temps w) \<subseteq> sys_used w \<inter> Collect tmp_name"
    using assms(1) by (simp_all add: files_ok_def)
  have "distinct ts" unfolding ts
    by (rule distinct_replace [where ys = "owned pc" and U = "sys_used w"])
      (use inv assms(3) t in \<open>auto simp: step_ok_def\<close>)
  moreover have "set ts \<subseteq> sys_used w' \<inter> Collect tmp_name"
    unfolding ts using inv(2) assms(3) unfolding t by (auto simp: step_ok_def)
  ultimately show ?thesis ..
qed

lemma other_temps_thread:
  assumes "files_ok d0 w" and "sys_threads w = before @ (j, pc) # after" and "step_ok d0 w j pc pc' w'"
    and "(i, q) \<in> set before \<union> set after" and "t \<in> set (owned q)"
  shows "sys_disk w' t = sys_disk w t"
proof -
  let ?rest = "concat (map (owned \<circ> snd) before) @ concat (map (owned \<circ> snd) after)"
  have temps: "temps w = concat (map (owned \<circ> snd) before) @ owned pc @ concat (map (owned \<circ> snd) after)"
    using assms(2) by (simp add: temps_def)
  have inv: "distinct (temps w)" "set (temps w) \<subseteq> sys_used w \<inter> Collect tmp_name"
    using assms(1) by (simp_all add: files_ok_def)
  have "t \<in> set ?rest" using assms(4,5) by force
  moreover have "set ?rest \<inter> set (owned pc) = {}" "set ?rest \<subseteq> sys_used w \<inter> Collect tmp_name"
    using inv unfolding temps by auto
  ultimately have "t \<notin> set (owned pc)" "t \<in> sys_used w" "tmp_name t" by blast+
  moreover have "\<not> tmp_name (ts_cachePath (sys_sources w ! j))" using assms(1,2) by (auto simp: files_ok_def)
  ultimately show ?thesis using assms(3) unfolding step_ok_def by blast
qed

lemma cache_files_thread:
  assumes "files_ok d0 w" and "sys_threads w = before @ (j, pc) # after" and "step_ok d0 w j pc pc' w'"
    and "same_config w w'" and "sys_minted w \<subseteq> sys_minted w'" and "\<not> tmp_name p"
  shows "sys_disk w' p = d0 p \<or> p \<in> ts_cachePath ` set (sys_sources w') \<and> (\<exists>f. sys_disk w' p = Some f \<and> whole_token w' f)"
proof -
  have own: "set (owned pc) \<subseteq> Collect tmp_name" "j < length (sys_sources w)"
    using assms(1,2) by (auto simp: files_ok_def temps_def)
  then have "p \<notin> set (owned pc) \<union> set (owned pc')" using assms(3,6) by (auto simp: step_ok_def)
  then have "sys_disk w' p = sys_disk w p \<or> p = ts_cachePath (sys_sources w ! j) \<and> (\<exists>f. sys_disk w' p = Some f \<and> whole_token w' f)"
    using assms(3) unfolding step_ok_def by blast
  moreover have "sys_disk w p = d0 p \<or> p \<in> ts_cachePath ` set (sys_sources w) \<and> (\<exists>f. sys_disk w p = Some f \<and> whole_token w f)"
    using assms(1,6) unfolding files_ok_def by blast
  moreover have "whole_token w f \<Longrightarrow> whole_token w' f" for f using assms(5) by (auto simp: whole_token_def)
  ultimately show ?thesis unfolding same_config_paths [OF assms(4)] using own(2) by (metis image_eqI nth_mem)
qed

lemma pc_ok_threads: "pc_ok d0 (w\<lparr>sys_threads := x\<rparr>) i q = pc_ok d0 w i q"
  using pc_ok_mono [of w "w\<lparr>sys_threads := x\<rparr>" q d0 i] pc_ok_mono [of "w\<lparr>sys_threads := x\<rparr>" w q d0 i]
  by (auto simp: same_config_def)

lemma files_ok_thread:
  assumes "files_ok d0 w" and "sys_threads w = before @ (j, pc) # after"
    and "thread_step c j pc w = (pc', started, w')"
  shows "files_ok d0 (w'\<lparr>sys_threads := before @ (j, pc') # after @ map (Pair j) started\<rparr>)" (is "files_ok d0 ?w")
proof -
  have "(j, pc) \<in> set (sys_threads w)" using assms(2) by simp
  note ok = thread_step_ok [OF assms(1) this assms(3)]
  have conf: "same_config w w'" and minted: "sys_minted w \<subseteq> sys_minted w'" and goroutines: "set started \<subseteq> {G_mint}"
    using thread_step_config [OF assms(3)] by simp_all
  have whole: "whole_token ?w = whole_token w'" by (intro ext) (simp add: whole_token_def)
  have range: "i < length (sys_sources w) \<and> pc_ok d0 w i q" if "(i, q) \<in> set (sys_threads w)" for i q
    using assms(1) that by (auto simp: files_ok_def)
  have others: "pc_ok d0 w' i q" if "(i, q) \<in> set before \<union> set after" for i q
  proof (rule pc_ok_mono [OF conf minted])
    show "\<forall>t \<in> set (owned q). sys_disk w' t = sys_disk w t" using other_temps_thread [OF assms(1,2) ok that] by blast
    show "pc_ok d0 w i q" using range [of i q] that unfolding assms(2) by auto
  qed
  have "pc_ok d0 w' j pc'" using ok by (simp add: step_ok_def)
  then have "\<forall>(i, q) \<in> set (sys_threads ?w). i < length (sys_sources w') \<and> pc_ok d0 w' i q"
    using others range goroutines conf unfolding assms(2) same_config_def by auto
  moreover have "\<forall>p \<in> ts_cachePath ` set (sys_sources w'). \<not> tmp_name p"
    unfolding same_config_paths [OF conf] using assms(1) unfolding files_ok_def by blast
  then have "\<forall>ts \<in> set (sys_sources w'). \<not> tmp_name (ts_cachePath ts)" by blast
  moreover note temps_thread [OF assms(1,2) ok goroutines refl] cache_files_thread [OF assms(1,2) ok conf minted]
  ultimately show ?thesis unfolding files_ok_def [of d0 ?w] pc_ok_threads whole by simp
qed

lemma files_ok_step: "conc_step w w' \<Longrightarrow> files_ok d0 w \<Longrightarrow> files_ok d0 w'"
proof (induction rule: conc_step.induct)
  case (runs w w')
  show ?case using runs(1)
  proof cases
    case (run before j pc after c pc' started v)
    then show ?thesis using files_ok_thread [OF runs(2) run(2,5)] by simp
  qed
next
  case (arrives j w h)
  then show ?case by (auto simp: files_ok_def temps_def whole_token_def pc_ok_threads)
qed

lemma files_ok_initial: "system_initial d0 w \<Longrightarrow> files_ok d0 w"
  by (auto simp: system_initial_def files_ok_def temps_def list_all_iff)

text \<open>The default cache path of an audience is no temporary name: it is a file of its own name.\<close>

lemma last_Split: "sep \<notin> set b \<Longrightarrow> last (Split sep (a @ sep # b)) = b"
proof (induction a)
  case (Cons c a)
  then obtain f g gs where "Split sep (a @ sep # b) = f # g # gs"
    using length_Split [of sep "a @ sep # b"] by (cases "Split sep (a @ sep # b)"; cases "tl (Split sep (a @ sep # b))") auto
  with Cons show ?case by auto
qed (simp add: Split_single)

lemma hex_no_slash: "CHR ''/'' \<notin> set (hex_EncodeToString s)"
proof -
  have "hex_char n \<noteq> CHR ''/''" if "n < 16" for n
  proof
    assume "hex_char n = CHR ''/''"
    then have "byte (hex_char n) = 47" by (simp add: byte_def)
    then show False using that by (auto simp: hex_char_def byte_char_of split: if_splits)
  qed
  note h = this
  show ?thesis
  proof (induction s)
    case (Cons c s)
    have "byte c div 16 < 16" "byte c mod 16 < 16" using byte_bound [of c] by simp_all
    then have "hex_char (byte c div 16) \<noteq> CHR ''/''" "hex_char (byte c mod 16) \<noteq> CHR ''/''" using h by blast+
    then show ?case using Cons by (auto simp: hex_EncodeToString_def)
  qed (simp add: hex_EncodeToString_def)
qed

theorem default_cache_path_not_temporary:
  assumes "DefaultCachePath sha join (Inr dir) audience = Inr p"
    and "\<And>name. \<exists>parent. join [dir, ''nats-oidc-callout'', name] = parent @ CHR ''/'' # name"
  shows "\<not> tmp_name p"
proof -
  let ?name = "''awsauth-'' @ hex_EncodeToString (take 8 (sha audience)) @ ''.jwt''"
  obtain parent where "p = parent @ CHR ''/'' # ?name"
    using assms(2) [of ?name] assms(1) by (auto simp: DefaultCachePath_def Let_def)
  moreover have "CHR ''/'' \<notin> set ?name" using hex_no_slash by simp
  ultimately have "last (Split CHR ''/'' p) = ?name" by (metis last_Split)
  then show ?thesis by (simp add: tmp_name_def Let_def)
qed

interpretation cache_files: invariant_system "system_initial d0" conc_step "files_ok d0"
  by unfold_locales (fact files_ok_initial files_ok_step)+

section \<open>What STS was asked for\<close>

lemma thread_step_minted:
  assumes "thread_step c j pc w = (pc', started, w')" and "(input, tok) \<in> sys_minted w'"
  shows "(input, tok) \<in> sys_minted w \<or> (\<exists>ts. input = mint_input ts)"
  using assms
  by (cases "(c, j, pc, w)" rule: thread_step.cases)
    (auto simp: Let_def system_mint_def system_write_def claim_refresh_def set_refreshing_def set_lastErr_def
      update_source_def call_return_def split: option.splits sum.splits if_splits prod.splits)

definition single_audience :: "aws_system \<Rightarrow> bool" where
  "single_audience w \<longleftrightarrow> (\<forall>(input, tok) \<in> sys_minted w. \<exists>aud. in_Audience input = [aud])"

lemma single_audience_step: "conc_step w w' \<Longrightarrow> single_audience w \<Longrightarrow> single_audience w'"
proof (induction rule: conc_step.induct)
  case (runs w w')
  then show ?case
  proof (induction rule: run_step.induct)
    case (run w before j pc after c pc' started w')
    then show ?case using thread_step_minted [OF run(4)] by (fastforce simp: single_audience_def mint_input_def)
  qed
qed (simp add: single_audience_def)

interpretation requests_to_sts: invariant_system "system_initial d0" conc_step single_audience
  by unfold_locales (simp add: system_initial_def single_audience_def, fact single_audience_step)

text \<open>One token source with its calls, and choices with which everything succeeds.\<close>

definition sample_system :: "disk \<Rightarrow> bool list \<Rightarrow> aws_system" where
  "sample_system d calls = \<lparr>sys_disk = d, sys_used = {}, sys_sources = [aws_sample_source], sys_minted = {},
     sys_threads = map (\<lambda>h. (0, T_start h)) calls\<rparr>"

definition sample_choice :: "nat \<Rightarrow> aws_choice" where
  "sample_choice n = \<lparr>ch_now = time_Unix 1700000295, ch_client = (\<lambda>_. Inr (Some cached_token)), ch_ok = True,
     ch_tmp = ''/c/.awsauth-1.tmp'', ch_bytes = n\<rparr>"

lemma sample_hit:
  "d ''/c/t.jwt'' = Some (cached_token, m) \<Longrightarrow>
     readCache aws_sample_source d (time_Unix 1700000295) = Some (cached_token, time_Unix 1700000300)"
  using cached_token_claims cached_token_trimmed
  by (simp add: readCache_def aws_sample_source_def Before_def time_Unix_def unixToInternal_def)
    (simp add: cached_token_def)

lemma sample_system_initial: "system_initial d (sample_system d [])"
proof -
  have "\<not> tmp_name ''/c/t.jwt''" by code_simp
  then show ?thesis by (simp add: system_initial_def sample_system_def aws_sample_source_def)
qed

lemma sample_calls: "conc_step\<^sup>*\<^sup>* (sample_system d []) (sample_system d calls)"
proof (induction calls rule: rev_induct)
  case (snoc h calls)
  have "conc_step (sample_system d calls) (sample_system d (calls @ [h]))"
    using conc_step.arrives [of 0 "sample_system d calls" h] by (simp add: sample_system_def)
  with snoc show ?case by (rule rtranclp.rtrancl_into_rtrancl)
qed simp

lemma run_steps_conc: "run_step\<^sup>*\<^sup>* w w' \<Longrightarrow> conc_step\<^sup>*\<^sup>* w w'"
  by (rule rtranclp_mono [THEN predicate2D]) (auto intro: conc_step.runs)

lemma sample_run: "run_schedule cs (sample_system d calls) = Some w \<Longrightarrow> conc_step\<^sup>*\<^sup>* (sample_system d []) w"
  using sample_calls [of d calls] run_steps_conc run_schedule_iff by (meson rtranclp_trans)

text \<open>
  C23. No reader ever sees part of a token. However the calls, the handlers and the refreshes of all
  token sources interleave, whatever fails and wherever a process stops, a file that is not a
  temporary one holds at every moment exactly what it held at the start, or it is a cache file and
  holds a whole token that STS has answered, with mode 0600.
\<close>

theorem cache_never_torn:
  assumes "system_initial d0 w0" and "conc_step\<^sup>*\<^sup>* w0 w" and "\<not> tmp_name p"
  shows "sys_disk w p = d0 p
    \<or> p \<in> ts_cachePath ` set (sys_sources w) \<and> (\<exists>tok req. sys_disk w p = Some (tok, 384) \<and> (req, tok) \<in> sys_minted w)"
  using cache_files.reachable_inv [OF assms(1,2)] assms(3) by (fastforce simp: files_ok_def whole_token_def)

text \<open>
  C24. What a call may return. When a call of \<open>Token\<close> on some token source is done with a token, the token is
  not empty, and either STS answered it to a request for exactly the audience of that source, or it
  was read from the cache file: then its own payload has an expiry and names the audience, and
  the file held a whole token some source minted, or what was there before all of them. Other
  sources, with other audiences, may share the file and write it at any time.
\<close>

theorem call_token_origin:
  assumes "system_initial d0 w0" and "conc_step\<^sup>*\<^sup>* w0 w" and "(j, Done (Some (Inr tok))) \<in> set (sys_threads w)"
    and "ts = sys_sources w ! j"
  shows "tok \<noteq> [] \<and>
    ((mint_input ts, tok) \<in> sys_minted w \<and> in_Audience (mint_input ts) = [ts_audience ts]
     \<or> (\<exists>b ex auds. ((\<exists>m. d0 (ts_cachePath ts) = Some (b, m)) \<or> (\<exists>req. (req, b) \<in> sys_minted w))
           \<and> tok = TrimSpace b \<and> unverifiedExpiryAudience tok = Inr (ex, auds) \<and> ts_audience ts \<in> set auds))"
proof -
  have "pc_ok d0 w j (Done (Some (Inr tok)))"
    using cache_files.reachable_inv [OF assms(1,2)] assms(3) by (auto simp: files_ok_def)
  then show ?thesis by (auto simp: good_token_def assms(4)) (simp_all add: mint_input_def)
qed

text \<open>A call that is stopped in the middle of writing leaves the cache file as it was.\<close>

theorem cache_never_torn_witness:
  "\<exists>w. run_schedule (replicate 6 (0, sample_choice 4)) (sample_system Map.empty [False]) = Some w
     \<and> sys_disk w ''/c/.awsauth-1.tmp'' = Some (''h.eyJ'', 384) \<and> sys_disk w ''/c/t.jwt'' \<noteq> Some (''h.eyJ'', 384)"
proof -
  let ?r = "run_schedule (replicate 6 (0, sample_choice 4)) (sample_system Map.empty [False])"
  have r: "map_option (\<lambda>w. (sys_disk w ''/c/.awsauth-1.tmp'', sys_minted w)) ?r
      = Some (Some (''h.eyJ'', 384), {(mint_input aws_sample_source, cached_token)})"
    by code_simp
  then obtain w where w: "?r = Some w" "sys_disk w ''/c/.awsauth-1.tmp'' = Some (''h.eyJ'', 384)"
    "sys_minted w = {(mint_input aws_sample_source, cached_token)}" by auto
  have n: "\<not> tmp_name ''/c/t.jwt''" and t: "cached_token \<noteq> ''h.eyJ''" by code_simp+
  have "sys_disk w ''/c/t.jwt'' \<noteq> Some (''h.eyJ'', 384)"
    using cache_never_torn [OF sample_system_initial sample_run [OF w(1)] n] t unfolding w(3) by auto
  then show ?thesis using w(1,2) by blast
qed

theorem call_token_origin_witness:
  "\<exists>w. run_schedule (replicate 11 (0, sample_choice 45)) (sample_system Map.empty [True]) = Some w
     \<and> sys_threads w = [(0, Done (Some (Inr cached_token)))] \<and> cached_token \<noteq> []"
proof -
  let ?r = "run_schedule (replicate 11 (0, sample_choice 45)) (sample_system Map.empty [True])"
  have r: "map_option sys_threads ?r = Some [(0, Done (Some (Inr cached_token)))]" by code_simp
  then obtain w where w: "?r = Some w" "sys_threads w = [(0, Done (Some (Inr cached_token)))]" by auto
  then have t: "(0, Done (Some (Inr cached_token))) \<in> set (sys_threads w)" by simp
  from call_token_origin [OF sample_system_initial sample_run [OF w(1)] t refl] show ?thesis using w by blast
qed

end
