(* ===== verification/AwsProgress.thy ===== *)
theory AwsProgress
  imports AwsThreadsProps "HOL-Library.Multiset"
begin

text \<open>
  The refreshes of the AWS token sources refine a machine that starts a refresh only where none is
  in flight, and every call and every refresh comes to its end.
\<close>

section \<open>The refresh in flight\<close>

fun refresher :: "pc \<Rightarrow> bool" where
  "refresher (T_spawn h tok) = True"
| "refresher G_mint = True"
| "refresher (G_record r) = True"
| "refresher (G_write tok wr) = True"
| "refresher G_finish = True"
| "refresher _ = False"

definition flights :: "(nat \<times> pc) list \<Rightarrow> nat multiset" where
  "flights ps = image_mset fst (filter_mset (refresher \<circ> snd) (mset ps))"

text \<open>The machine without flags and locks: token sources with a refresh in flight.\<close>

inductive flight_step :: "nat multiset \<Rightarrow> nat multiset \<Rightarrow> bool" where
  takes_off: "j \<notin># M \<Longrightarrow> flight_step M (add_mset j M)"
| lands: "flight_step (add_mset j M) M"

lemma flights_simps [simp]:
  "flights [] = {#}" "flights (a @ b) = flights a + flights b"
  "flights ((j, pc) # ps) = (if refresher pc then add_mset j (flights ps) else flights ps)"
  by (simp_all add: flights_def)

definition flags_ok :: "aws_system \<Rightarrow> bool" where
  "flags_ok w \<longleftrightarrow>
     (\<forall>j < length (sys_sources w). count (flights (sys_threads w)) j = (if ts_refreshing (sys_sources w ! j) then 1 else 0))
     \<and> (\<forall>(j, pc) \<in> set (sys_threads w). j < length (sys_sources w))"

definition flags :: "aws_system \<Rightarrow> bool list" where
  "flags w = map ts_refreshing (sys_sources w)"

lemma flags_simps [simp]:
  "flags (set_lastErr j e w) = flags w" "flags (w\<lparr>sys_disk := d\<rparr>) = flags w"
  "flags (w\<lparr>sys_used := u\<rparr>) = flags w" "flags (w\<lparr>sys_minted := m\<rparr>) = flags w"
  "flags (w\<lparr>sys_threads := ps\<rparr>) = flags w" "flags (set_refreshing j b w) = (flags w)[j := b]"
  by (simp_all add: flags_def set_lastErr_def set_refreshing_def update_source_def map_update)
    (metis list_update_id map_update length_map nth_map list_update_beyond not_le)

lemma flags_ok_alt:
  "flags_ok w \<longleftrightarrow> (\<forall>j < length (flags w). count (flights (sys_threads w)) j = (if flags w ! j then 1 else 0))
     \<and> (\<forall>(j, pc) \<in> set (sys_threads w). j < length (flags w))"
  by (simp add: flags_ok_def flags_def)

text \<open>A step claims the refresh where none is in flight, ends it, or changes no flag.\<close>

lemma thread_step_flight:
  assumes "thread_step c j pc w = (pc', started, w')" and "\<not> is_done pc" and "j < length (sys_sources w)"
  shows "(\<not> flags w ! j \<and> \<not> refresher pc \<and> refresher pc' \<and> started = [] \<and> flags w' = (flags w)[j := True])
    \<or> (refresher pc \<and> \<not> refresher pc' \<and> started = [] \<and> flags w' = (flags w)[j := False])
    \<or> (flights ((j, pc') # map (Pair j) started) = flights [(j, pc)] \<and> flags w' = flags w)"
proof (cases pc)
  case (T_start h)
  then show ?thesis using assms(1) by (auto simp: Let_def split: option.splits if_splits)
next
  case (T_write h tok wr)
  then show ?thesis using assms(1) by (auto simp: system_write_def split: if_splits prod.splits)
next
  case (G_write tok wr)
  then show ?thesis using assms(1) by (auto simp: system_write_def split: if_splits prod.splits)
next
  case (T_return h r)
  then show ?thesis using assms(1) by (cases h) (auto simp: call_return_def)
next
  case (T_refresh h tok)
  then show ?thesis using assms(1,3) by (auto simp: claim_refresh_def flags_def split: if_splits)
    (simp add: set_refreshing_def update_source_def map_update)
qed (use assms in \<open>auto simp: system_mint_def Let_def split: sum.splits if_splits\<close>)

lemma flags_ok_move:
  assumes "\<forall>i < length fs. count R i + count A i = (if fs ! i then 1 else 0)" and "j < length fs"
    and "A = {#} \<and> B = {#j#} \<and> \<not> fs ! j \<and> fs' = fs[j := True] \<or> A = {#j#} \<and> B = {#} \<and> fs' = fs[j := False]
      \<or> B = A \<and> fs' = fs"
  shows "(\<forall>i < length fs'. count R i + count B i = (if fs' ! i then 1 else 0))
    \<and> (R + B = R + A \<or> flight_step (R + A) (R + B))"
proof -
  have c: "count R j + count A j = (if fs ! j then 1 else 0)" using assms(1,2) by blast
  consider (up) "A = {#}" "B = {#j#}" "\<not> fs ! j" "fs' = fs[j := True]"
    | (down) "A = {#j#}" "B = {#}" "fs' = fs[j := False]" | (same) "B = A" "fs' = fs"
    using assms(3) by blast
  then show ?thesis
  proof cases
    case up
    then have "j \<notin># R" using c by (simp add: not_in_iff)
    then show ?thesis using up assms(1) c takes_off [of j R] by (auto simp: nth_list_update)
  next
    case down
    then have "count R j = 0" using c by (simp split: if_splits)
    then show ?thesis using down assms(1) lands [of j R] by (fastforce simp: nth_list_update split: if_splits)
  qed (use assms(1) in simp)
qed

lemma run_step_flight:
  assumes "run_step w w'" and "flags_ok w"
  shows "flags_ok w' \<and> (flights (sys_threads w') = flights (sys_threads w)
    \<or> flight_step (flights (sys_threads w)) (flights (sys_threads w')))"
  using assms(1)
proof cases
  case (run before j pc after c pc' started v)
  let ?R = "flights before + flights after" and ?A = "flights [(j, pc)]"
    and ?B = "flights ((j, pc') # map (Pair j) started)"
  have w: "flights (sys_threads w) = ?R + ?A" using run(2) by simp
  have w': "flights (sys_threads w') = ?R + ?B" using run(1) by simp
  have "\<forall>i < length (flags w). count ?R i + count ?A i = (if flags w ! i then 1 else 0)"
    using assms(2) unfolding flags_ok_alt w by simp
  moreover have "?A = {#} \<and> ?B = {#j#} \<and> \<not> flags w ! j \<and> flags v = (flags w)[j := True]
      \<or> ?A = {#j#} \<and> ?B = {#} \<and> flags v = (flags w)[j := False] \<or> ?B = ?A \<and> flags v = flags w"
    using thread_step_flight [OF run(5,4,3)] by auto
  ultimately have "(\<forall>i < length (flags v). count ?R i + count ?B i = (if flags v ! i then 1 else 0))
      \<and> (?R + ?B = ?R + ?A \<or> flight_step (?R + ?A) (?R + ?B))"
    using run(3) by (intro flags_ok_move [where fs = "flags w" and j = j]) (simp_all add: flags_def)
  moreover have "length (flags w') = length (flags w)" "flags w' = flags v"
    using thread_step_config [OF run(5)] by (simp_all add: run(1) same_config_def flags_def)
  moreover have "\<forall>(i, q) \<in> set (sys_threads w'). i < length (flags w)"
    using assms(2) run(1,2,3) by (auto simp: flags_ok_alt flags_def)
  ultimately show ?thesis unfolding flags_ok_alt w w' by (auto simp del: flights_simps)
qed

lemma conc_step_flight:
  "conc_step w w' \<Longrightarrow> flags_ok w \<Longrightarrow> flags_ok w' \<and> (flights (sys_threads w') = flights (sys_threads w)
    \<or> flight_step (flights (sys_threads w)) (flights (sys_threads w')))"
proof (induction rule: conc_step.induct)
  case (runs w w')
  then show ?case using run_step_flight by blast
qed (auto simp: flags_ok_def)

lemma flags_ok_initial: "system_initial d w \<Longrightarrow> flags_ok w"
  by (auto simp: system_initial_def flags_ok_def list_all_length)

interpretation single_flight: refinement_map "system_initial d" conc_step flags_ok
  "\<lambda>M. M = {#}" flight_step "\<lambda>w. flights (sys_threads w)"
  by unfold_locales (use flags_ok_initial conc_step_flight in \<open>auto simp: system_initial_def\<close>)

lemma flight_step_unique: "flight_step M M' \<Longrightarrow> (\<And>j. count M j \<le> 1) \<Longrightarrow> count M' i \<le> 1"
proof (induction rule: flight_step.induct)
  case (takes_off j M)
  then show ?case by (auto simp: not_in_iff)
next
  case (lands j M)
  from this [of i] show ?case by (simp split: if_splits)
qed

interpretation flight: invariant_system "\<lambda>M. M = {#}" flight_step "\<lambda>M. \<forall>j. count M j \<le> 1"
  by unfold_locales (simp, meson flight_step_unique)

text \<open>
  C25. The lock and the flag implement a single refresh per token source. At the grain of the system
  calls, with any number of concurrent calls and handlers, the refreshes in flight follow a machine
  with no lock and no flag, which starts a refresh only for a source that has none and ends it:
  every run of the threads is a run of that machine. So no source ever has two refreshes at once,
  and its flag is set exactly while it has one.
\<close>

theorem refresh_single_flight:
  assumes "system_initial d w0" and "conc_step\<^sup>*\<^sup>* w0 w"
  shows "flight_step\<^sup>*\<^sup>* {#} (flights (sys_threads w)) \<and> count (flights (sys_threads w)) j \<le> 1
    \<and> (j < length (sys_sources w) \<longrightarrow> (ts_refreshing (sys_sources w ! j) \<longleftrightarrow> j \<in># flights (sys_threads w)))"
proof -
  have r: "flight_step\<^sup>*\<^sup>* {#} (flights (sys_threads w))"
    using single_flight.reachable_abs [OF assms] assms(1) by (simp add: system_initial_def)
  have "flags_ok w" using single_flight.reachable_inv [OF assms] .
  then have "j < length (sys_sources w) \<Longrightarrow> ts_refreshing (sys_sources w ! j) \<longleftrightarrow> j \<in># flights (sys_threads w)"
    by (auto simp: flags_ok_def simp flip: count_greater_zero_iff)
  then show ?thesis using r flight.reachable_inv [OF refl r] by simp
qed

text \<open>Two calls near the expiry of the cached token: one claims the refresh, the other finds it claimed.\<close>

lemma near_expiry: "sint (Sub (time_Unix 1700000300) (time_Unix 1700000295)) < sint (ts_cacheRefreshBefore aws_sample_source)"
  by (simp add: sint_Sub time_Unix_def unixToInternal_def aws_sample_source_def DefaultCacheRefreshBefore_def Second_def)

theorem refresh_single_flight_witness:
  "\<exists>w. run_schedule (replicate 3 (0, sample_choice 0) @ replicate 3 (1, sample_choice 0))
        (sample_system [''/c/t.jwt'' \<mapsto> (cached_token, 384)] [False, True]) = Some w
     \<and> sys_threads w = [(0, T_spawn False cached_token), (0, T_return True (Inr cached_token))]
     \<and> ts_refreshing (sys_sources w ! 0)"
proof -
  let ?r = "run_schedule (replicate 3 (0, sample_choice 0) @ replicate 3 (1, sample_choice 0))
        (sample_system [''/c/t.jwt'' \<mapsto> (cached_token, 384)] [False, True])"
  have p: "ts_cachePath aws_sample_source \<noteq> []" "\<not> ts_refreshing aws_sample_source" by (simp_all add: aws_sample_source_def)
  have r: "\<exists>w. ?r = Some w \<and> length (sys_sources w) = 1
      \<and> sys_threads w = [(0, T_spawn False cached_token), (0, T_return True (Inr cached_token))]"
    using near_expiry p by (simp add: numeral_3_eq_3 can_step_def step_at_def sample_system_def sample_choice_def
        sample_hit Let_def claim_refresh_def set_refreshing_def update_source_def)
  then obtain w where w: "?r = Some w" "length (sys_sources w) = 1"
    "sys_threads w = [(0, T_spawn False cached_token), (0, T_return True (Inr cached_token))]" by blast
  from refresh_single_flight [OF sample_system_initial sample_run [OF w(1)], of 0] show ?thesis using w by simp
qed

section \<open>Every call ends\<close>

fun writer_rank :: "writer \<Rightarrow> nat" where
  "writer_rank W_mkdir = 7"
| "writer_rank W_create = 6"
| "writer_rank (W_chmod t) = 5"
| "writer_rank (W_write t k) = 4"
| "writer_rank (W_close t) = 3"
| "writer_rank (W_rename t) = 2"
| "writer_rank (W_remove t) = 1"
| "writer_rank W_end = 0"

fun pc_rank :: "pc \<Rightarrow> nat" where
  "pc_rank (T_start h) = 17"
| "pc_rank (T_hit h tok ex) = 16"
| "pc_rank (T_refresh h tok) = 15"
| "pc_rank (T_spawn h tok) = 14"
| "pc_rank (T_mint h) = 10"
| "pc_rank (T_write h tok wr) = 2 + writer_rank wr"
| "pc_rank (T_return h r) = 1"
| "pc_rank G_mint = 11"
| "pc_rank (G_record r) = 10"
| "pc_rank (G_write tok wr) = 2 + writer_rank wr"
| "pc_rank G_finish = 1"
| "pc_rank (Done r) = 0"

text \<open>The bytes still to be written.\<close>

fun writer_bytes :: "string \<Rightarrow> writer \<Rightarrow> nat" where
  "writer_bytes tok (W_write t k) = length tok - k"
| "writer_bytes tok _ = 0"

fun pc_bytes :: "pc \<Rightarrow> nat" where
  "pc_bytes (T_write h tok wr) = writer_bytes tok wr"
| "pc_bytes (G_write tok wr) = writer_bytes tok wr"
| "pc_bytes _ = 0"

definition system_rank :: "aws_system \<Rightarrow> nat \<times> nat" where
  "system_rank w = (sum_list (map (pc_rank \<circ> snd) (sys_threads w)), sum_list (map (pc_bytes \<circ> snd) (sys_threads w)))"

lemma write_step_rank:
  "write_step c path tok wr u = (wr', u') \<Longrightarrow> wr \<noteq> W_end \<Longrightarrow>
     writer_rank wr' < writer_rank wr \<or> writer_rank wr' = writer_rank wr \<and> writer_bytes tok wr' < writer_bytes tok wr"
  by (cases u; cases wr) (auto simp: Let_def min_def split: if_splits)

lemma thread_step_rank:
  assumes "thread_step c j pc w = (pc', started, w')" and "\<not> is_done pc"
  shows "pc_rank pc' + sum_list (map pc_rank started) < pc_rank pc
    \<or> started = [] \<and> pc_rank pc' = pc_rank pc \<and> pc_bytes pc' < pc_bytes pc"
proof (cases pc)
  case (T_start h)
  then show ?thesis using assms(1) by (auto simp: Let_def split: option.splits if_splits)
next
  case (T_write h tok wr)
  then show ?thesis using assms(1)
    by (cases "wr = W_end") (auto simp: system_write_def dest!: write_step_rank split: prod.splits)
next
  case (G_write tok wr)
  then show ?thesis using assms(1)
    by (cases "wr = W_end") (auto simp: system_write_def dest!: write_step_rank split: prod.splits)
qed (use assms in \<open>auto simp: system_mint_def claim_refresh_def Let_def split: sum.splits if_splits\<close>)

lemma run_step_rank: "run_step w w' \<Longrightarrow> (system_rank w', system_rank w) \<in> less_than <*lex*> less_than"
proof (induction rule: run_step.induct)
  case (run w before j pc after c pc' started w')
  have m: "f \<circ> snd \<circ> Pair j = f" for f :: "pc \<Rightarrow> nat" by auto
  show ?case using thread_step_rank [OF run(4,3)] by (auto simp: system_rank_def run(1) m)
qed

interpretation threads: ranked_system run_step "less_than <*lex*> less_than" system_rank
  by unfold_locales (auto intro: run_step_rank)

text \<open>No thread waits for ever: it can always take its next step.\<close>

lemma run_step_possible:
  assumes "flags_ok w" and "(j, pc) \<in> set (sys_threads w)" and "\<not> is_done pc"
  shows "\<exists>w'. run_step w w'"
proof -
  obtain before after where t: "sys_threads w = before @ (j, pc) # after" using split_list [OF assms(2)] by blast
  have j: "j < length (sys_sources w)" using assms(1,2) by (auto simp: flags_ok_def)
  fix c :: aws_choice
  obtain pc' started w' where "thread_step c j pc w = (pc', started, w')" by (rule prod_cases3)
  then show ?thesis using run_step.run [OF t j assms(3)] by blast
qed

fun is_call :: "pc \<Rightarrow> bool" where
  "is_call G_mint = False"
| "is_call (G_record r) = False"
| "is_call (G_write tok wr) = False"
| "is_call G_finish = False"
| "is_call (Done r) = (r \<noteq> None)"
| "is_call _ = True"

lemma thread_step_call: "thread_step c j pc w = (pc', started, w') \<Longrightarrow> is_call pc' = is_call pc"
  by (cases pc) (auto simp: system_write_def system_mint_def claim_refresh_def Let_def
      split: option.splits sum.splits if_splits prod.splits)

lemma run_step_call:
  "run_step w w' \<Longrightarrow> i < length (sys_threads w) \<Longrightarrow> i < length (sys_threads w')
     \<and> fst (sys_threads w' ! i) = fst (sys_threads w ! i) \<and> is_call (snd (sys_threads w' ! i)) = is_call (snd (sys_threads w ! i))"
proof (induction rule: run_step.induct)
  case (run w before j pc after c pc' started w')
  then show ?case using thread_step_call [OF run(4)] by (auto simp: nth_append nth_Cons split: nat.split)
qed

lemma run_steps_call:
  "run_step\<^sup>*\<^sup>* w w' \<Longrightarrow> i < length (sys_threads w) \<Longrightarrow> i < length (sys_threads w')
     \<and> fst (sys_threads w' ! i) = fst (sys_threads w ! i) \<and> is_call (snd (sys_threads w' ! i)) = is_call (snd (sys_threads w ! i))"
  by (induction rule: rtranclp_induct) (auto dest: run_step_call)

text \<open>
  C26. Every call and every refresh ends. Once no new calls come in, the threads cannot run for ever,
  in whatever order they take their steps and whatever STS and the file system answer; no thread
  blocks another, so that a run stops only when all are done; then every call that had come in has
  returned a token or an error, and no source is left with its refresh flag set.
\<close>

theorem calls_and_refreshes_end:
  assumes "system_initial d w0" and "conc_step\<^sup>*\<^sup>* w0 w"
  shows "(\<nexists>f. f 0 = w \<and> (\<forall>n. run_step (f n) (f (Suc n))))
    \<and> (\<exists>w'. run_step\<^sup>*\<^sup>* w w' \<and> (\<nexists>w''. run_step w' w''))
    \<and> (\<forall>w'. run_step\<^sup>*\<^sup>* w w' \<and> (\<nexists>w''. run_step w' w'') \<longrightarrow>
         list_all (is_done \<circ> snd) (sys_threads w') \<and> list_all (\<lambda>ts. \<not> ts_refreshing ts) (sys_sources w')
         \<and> (\<forall>i < length (sys_threads w). is_call (snd (sys_threads w ! i)) \<longrightarrow>
              (\<exists>r. sys_threads w' ! i = (fst (sys_threads w ! i), Done (Some r)))))"
proof (intro conjI allI impI)
  show "\<nexists>f. f 0 = w \<and> (\<forall>n. run_step (f n) (f (Suc n)))" using threads.no_infinite_run by blast
  show "\<exists>w'. run_step\<^sup>*\<^sup>* w w' \<and> (\<nexists>w''. run_step w' w'')" by (rule threads.run_to_end)
next
  fix w' assume end': "run_step\<^sup>*\<^sup>* w w' \<and> (\<nexists>w''. run_step w' w'')"
  have ok: "flags_ok w'"
    using single_flight.reachable_inv [OF assms(1)] assms(2) run_steps_conc end' by (meson rtranclp_trans)
  show all: "list_all (is_done \<circ> snd) (sys_threads w')"
    using run_step_possible [OF ok] end' by (force simp: list_all_iff)
  have "\<not> refresher pc" if "is_done pc" for pc using that by (cases pc) simp_all
  then have "flights (sys_threads w') = {#}" using all by (auto simp: flights_def list_all_iff filter_mset_eq_conv)
  then show "list_all (\<lambda>ts. \<not> ts_refreshing ts) (sys_sources w')"
    using ok by (auto simp: flags_ok_def list_all_length split: if_splits)
  show "\<exists>r. sys_threads w' ! i = (fst (sys_threads w ! i), Done (Some r))"
    if i: "i < length (sys_threads w)" and c: "is_call (snd (sys_threads w ! i))" for i
  proof -
    note k = run_steps_call [OF conjunct1 [OF end'] i]
    then have "is_done (snd (sys_threads w' ! i))" using all by (auto simp: list_all_length)
    then show ?thesis using k c by (cases "sys_threads w' ! i"; cases "snd (sys_threads w' ! i)") auto
  qed
qed

theorem calls_and_refreshes_end_witness:
  "\<exists>w r. run_step\<^sup>*\<^sup>* (sample_system Map.empty [True]) w \<and> sys_threads w ! 0 = (0, Done (Some r))"
proof -
  let ?w = "sample_system Map.empty [True]"
  note ends = calls_and_refreshes_end [OF sample_system_initial sample_calls, of Map.empty "[True]"]
  then obtain w' where w': "run_step\<^sup>*\<^sup>* ?w w'" "\<nexists>w''. run_step w' w''" by blast
  have "length (sys_threads ?w) = 1" "sys_threads ?w ! 0 = (0, T_start True)" by (simp_all add: sample_system_def)
  then have "\<exists>r. sys_threads w' ! 0 = (0, Done (Some r))"
    using conjunct2 [OF conjunct2 [OF ends], rule_format, of w'] w' by auto
  then show ?thesis using w'(1) by blast
qed

end
