(* ===== verification/AwsAlone.thy ===== *)
theory AwsAlone
  imports AwsThreadsProps
begin

text \<open>
  The two models of the AWS token source agree: the cache write and the call of \<open>AwsAuth\<close>, which
  take one step there, are what the threads of \<open>AwsThreads\<close> do when one of them runs alone.
\<close>

section \<open>A cache write\<close>

fun write_run :: "aws_choice list \<Rightarrow> string \<Rightarrow> string \<Rightarrow> writer \<Rightarrow> string set \<times> disk \<Rightarrow> writer \<times> string set \<times> disk" where
  "write_run [] path tok wr u = (wr, u)"
| "write_run (c # cs) path tok wr u = (case write_step c path tok wr u of (wr', u') \<Rightarrow> write_run cs path tok wr' u')"

text \<open>The environments of a write that can come up: a temporary file is new, where one is made.\<close>

definition env_possible :: "string set \<Rightarrow> disk \<Rightarrow> write_env \<Rightarrow> bool" where
  "env_possible used d env \<longleftrightarrow> failing env \<inter> {MkdirAll, CreateTemp} \<noteq> {}
     \<or> tmp_name (tmpName env) \<and> tmpName env \<notin> used \<and> d (tmpName env) = None"

definition new_tmp :: "string set \<Rightarrow> disk \<Rightarrow> string \<Rightarrow> bool" where
  "new_tmp used d t \<longleftrightarrow> tmp_name t \<and> t \<notin> used \<and> d t = None"

text \<open>The disk while one writer runs, from the disk \<open>d0\<close> it started on.\<close>

fun write_alone :: "string \<Rightarrow> string \<Rightarrow> string set \<Rightarrow> disk \<Rightarrow> writer \<Rightarrow> string set \<times> disk \<Rightarrow> bool" where
  "write_alone path tok u0 d0 (W_chmod t) (u, d) = (new_tmp u0 d0 t \<and> d = d0(t \<mapsto> ([], 384)))"
| "write_alone path tok u0 d0 (W_write t k) (u, d) = (new_tmp u0 d0 t \<and> d = d0(t \<mapsto> (take k tok, 384)))"
| "write_alone path tok u0 d0 (W_close t) (u, d) = (new_tmp u0 d0 t \<and> d = d0(t \<mapsto> (tok, 384)))"
| "write_alone path tok u0 d0 (W_rename t) (u, d) = (new_tmp u0 d0 t \<and> d = d0(t \<mapsto> (tok, 384)))"
| "write_alone path tok u0 d0 (W_remove t) (u, d) =
     (new_tmp u0 d0 t \<and> ((\<exists>k. d = d0(t \<mapsto> (take k tok, 384))) \<or> d = d0(t \<mapsto> (tok, 384), path \<mapsto> (tok, 384), t := None)))"
| "write_alone path tok u0 d0 W_end (u, d) = (\<exists>env. env_possible u0 d0 env \<and> d = writeCache path tok env d0)"
| "write_alone path tok u0 d0 wr (u, d) = (u = u0 \<and> d = d0)"

lemma writeCache_early: "failing env \<inter> {MkdirAll, CreateTemp} \<noteq> {} \<Longrightarrow> writeCache path tok env d = d"
  by (auto simp: writeCache_def writeCache_trace_def)

lemma write_alone_early: "write_alone path tok u d W_end (u', d)"
  by (auto simp: env_possible_def writeCache_early
      intro!: exI [of _ "\<lparr>tmpName = [], failing = {MkdirAll}, written_part = 0\<rparr>"])

lemma writeCache_failed:
  "writeCache path tok \<lparr>tmpName = t, failing = insert WriteString (if r then {} else {Remove}), written_part = k\<rparr> d
     = (if r then d(t := None) else d(t \<mapsto> (take k tok, 384)))"
  "writeCache path tok \<lparr>tmpName = t, failing = {}, written_part = k\<rparr> d = d(t \<mapsto> (tok, 384), path \<mapsto> (tok, 384), t := None)"
  by (simp_all add: writeCache_def writeCache_trace_def Let_def)

lemma write_alone_removed:
  assumes "write_alone path tok u0 d0 (W_remove t) (u, d)"
  shows "write_alone path tok u0 d0 W_end (u, if r then d(t := None) else d)"
proof -
  have n: "env_possible u0 d0 \<lparr>tmpName = t, failing = F, written_part = k\<rparr>" for F k
    using assms by (simp add: env_possible_def new_tmp_def)
  from assms consider (failed) k where "d = d0(t \<mapsto> (take k tok, 384))"
    | (renamed) "d = d0(t \<mapsto> (tok, 384), path \<mapsto> (tok, 384), t := None)" by auto
  then show ?thesis
  proof cases
    case failed
    then have "(if r then d(t := None) else d) = writeCache path tok
        \<lparr>tmpName = t, failing = insert WriteString (if r then {} else {Remove}), written_part = k\<rparr> d0"
      unfolding writeCache_failed(1) by simp
    then show ?thesis unfolding write_alone.simps using n by blast
  next
    case renamed
    then have "(if r then d(t := None) else d) = writeCache path tok \<lparr>tmpName = t, failing = {}, written_part = 0\<rparr> d0"
      unfolding writeCache_failed(2) by simp
    then show ?thesis unfolding write_alone.simps using n by blast
  qed
qed

lemma write_alone_step:
  assumes "write_alone path tok u0 d0 wr u"
  shows "write_alone path tok u0 d0 (fst (write_step c path tok wr u)) (snd (write_step c path tok wr u))"
proof -
  obtain us d where u: "u = (us, d)" by fastforce
  have whole: "\<exists>k. d0(t \<mapsto> (tok, 384)) = d0(t \<mapsto> (take k tok, 384))" for t
    by (rule exI [of _ "length tok"]) simp
  show ?thesis
  proof (cases wr)
    case (W_chmod t)
    then show ?thesis using assms by (auto simp: u intro: exI [of _ "0 :: nat"])
  next
    case (W_remove t)
    then show ?thesis using assms write_alone_removed [of path tok u0 d0 t us d "ch_ok c"] by (simp add: u)
  next
    case (W_rename t)
    then show ?thesis using assms whole by (auto simp: u)
  next
    case (W_close t)
    then show ?thesis using assms whole by (auto simp: u)
  qed (use assms write_alone_early in \<open>auto simp: u Let_def new_tmp_def\<close>)
qed

lemma write_run_alone: "write_alone path tok u0 d0 wr u \<Longrightarrow> write_run cs path tok wr u = (wr', u') \<Longrightarrow> write_alone path tok u0 d0 wr' u'"
proof (induction cs arbitrary: wr u)
  case (Cons c cs)
  then show ?case using write_alone_step [OF Cons.prems(1), of c] by (auto split: prod.splits)
qed simp

text \<open>Conversely, the choices that make the disk of a write.\<close>

definition env_choice :: "write_env \<Rightarrow> bool \<Rightarrow> nat \<Rightarrow> aws_choice" where
  "env_choice env b n = \<lparr>ch_now = 0, ch_client = (\<lambda>_. Inl []), ch_ok = b, ch_tmp = tmpName env, ch_bytes = n\<rparr>"

definition env_choices :: "string \<Rightarrow> write_env \<Rightarrow> aws_choice list" where
  "env_choices tok env =
     (let c = env_choice env; F = failing env; k = written_part env; start = [c True 0, c True 0, c True 0];
          written = [c True (length tok)]; cleanup = [c (Remove \<notin> F) 0] in
      if MkdirAll \<in> F then [c False 0]
      else if CreateTemp \<in> F then [c True 0, c False 0]
      else if Chmod \<in> F then [c True 0, c True 0, c False 0] @ cleanup
      else if WriteString \<in> F then start @ (if k = 0 then [] else [c True (k - 1)]) @ [c False 0] @ cleanup
      else if Close \<in> F then start @ written @ [c False 0] @ cleanup
      else start @ written @ [c True 0, c (Rename \<notin> F) 0] @ cleanup)"

lemma env_choices_run:
  assumes "env_possible u d env"
  shows "\<exists>u'. write_run (env_choices tok env) path tok W_mkdir (u, d) = (W_end, u', writeCache path tok env d)"
  using assms
  by (auto simp: env_choices_def env_choice_def Let_def writeCache_def writeCache_trace_def env_possible_def min_def
      fun_eq_iff)

text \<open>
  The write of a cache file, call by call, is the write of the coarser model. The disks that the
  system calls of \<open>writeCache\<close> can leave, when no other thread touches the files meanwhile, are
  exactly the results of the function \<open>writeCache\<close>, over the environments in which the temporary
  file is new.
\<close>

theorem write_steps_equiv:
  "(\<exists>cs used'. write_run cs path tok W_mkdir (used, d) = (W_end, used', d'))
     \<longleftrightarrow> (\<exists>env. env_possible used d env \<and> d' = writeCache path tok env d)"
proof
  assume "\<exists>cs used'. write_run cs path tok W_mkdir (used, d) = (W_end, used', d')"
  then obtain cs used' where "write_run cs path tok W_mkdir (used, d) = (W_end, used', d')" by blast
  from write_run_alone [OF _ this] show "\<exists>env. env_possible used d env \<and> d' = writeCache path tok env d" by simp
next
  assume "\<exists>env. env_possible used d env \<and> d' = writeCache path tok env d"
  then obtain env where "env_possible used d env" "d' = writeCache path tok env d" by blast
  then show "\<exists>cs used'. write_run cs path tok W_mkdir (used, d) = (W_end, used', d')"
    using env_choices_run [of used d env tok path] by blast
qed

section \<open>A call\<close>

text \<open>The state that the coarser model gives a token source, on its own and with no refresh running.\<close>

definition coarse :: "aws_system \<Rightarrow> nat \<Rightarrow> aws_state" where
  "coarse w j = \<lparr>source = sys_sources w ! j, files = sys_disk w, goroutines = []\<rparr>"

definition coarse_goroutine :: "phase \<Rightarrow> pc" where
  "coarse_goroutine p = (case p of Minting \<Rightarrow> G_mint | Recording r \<Rightarrow> G_record r
     | Writing tok \<Rightarrow> G_write tok W_mkdir | Finishing \<Rightarrow> G_finish)"

text \<open>The disk, the token source and the goroutines are those of a state of the coarser model.\<close>

definition agrees :: "aws_system \<Rightarrow> nat \<Rightarrow> aws_state \<Rightarrow> pc list \<Rightarrow> aws_system \<Rightarrow> bool" where
  "agrees w0 j s started w \<longleftrightarrow> sys_disk w = files s \<and> sys_sources w = (sys_sources w0)[j := source s]
     \<and> started = map coarse_goroutine (goroutines s)"

definition cache_hit :: "aws_system \<Rightarrow> nat \<Rightarrow> time \<Rightarrow> string \<Rightarrow> time \<Rightarrow> bool" where
  "cache_hit w j now tok ex \<longleftrightarrow> ts_cachePath (sys_sources w ! j) \<noteq> []
     \<and> readCache (sys_sources w ! j) (sys_disk w) now = Some (tok, ex)"

definition cache_miss :: "aws_system \<Rightarrow> nat \<Rightarrow> time \<Rightarrow> bool" where
  "cache_miss w j now \<longleftrightarrow> ts_cachePath (sys_sources w ! j) = [] \<or> readCache (sys_sources w ! j) (sys_disk w) now = None"

definition ageing :: "aws_system \<Rightarrow> nat \<Rightarrow> time \<Rightarrow> time \<Rightarrow> bool" where
  "ageing w j ex now \<longleftrightarrow> sint (Sub ex now) < sint (ts_cacheRefreshBefore (sys_sources w ! j))"

definition call_possible :: "aws_system \<Rightarrow> aws_env \<Rightarrow> bool" where
  "call_possible w env \<longleftrightarrow> env_possible (sys_used w) (sys_disk w) (env_write env)"

fun call_alone :: "aws_system \<Rightarrow> nat \<Rightarrow> bool \<Rightarrow> pc \<Rightarrow> pc list \<Rightarrow> aws_system \<Rightarrow> bool" where
  "call_alone w0 j h (T_start h') sp w = (h' = h \<and> agrees w0 j (coarse w0 j) sp w \<and> sys_used w = sys_used w0)"
| "call_alone w0 j h (T_hit h' tok ex) sp w =
     (h' = h \<and> agrees w0 j (coarse w0 j) sp w \<and> (\<exists>now. cache_hit w0 j now tok ex))"
| "call_alone w0 j h (T_refresh h' tok) sp w =
     (h' = h \<and> agrees w0 j (coarse w0 j) sp w \<and> (\<exists>now ex now'. cache_hit w0 j now tok ex \<and> ageing w0 j ex now'))"
| "call_alone w0 j h (T_spawn h' tok) sp w =
     (h' = h \<and> agrees w0 j (refreshAsync (coarse w0 j)) (sp @ [G_mint]) w
      \<and> (\<exists>now ex now'. cache_hit w0 j now tok ex \<and> ageing w0 j ex now'))"
| "call_alone w0 j h (T_mint h') sp w =
     (h' = h \<and> agrees w0 j (coarse w0 j) sp w \<and> sys_used w = sys_used w0 \<and> (\<exists>now. cache_miss w0 j now))"
| "call_alone w0 j h (T_write h' tok wr) sp w =
     (h' = h \<and> agrees w0 j ((coarse w0 j)\<lparr>files := sys_disk w\<rparr>) sp w \<and> ts_cachePath (sys_sources w0 ! j) \<noteq> []
      \<and> write_alone (ts_cachePath (sys_sources w0 ! j)) tok (sys_used w0) (sys_disk w0) wr (sys_used w, sys_disk w)
      \<and> (\<exists>now client. cache_miss w0 j now \<and> mint client (sys_sources w0 ! j) = Inr tok))"
| "call_alone w0 j h (T_return h' r) sp w =
     (h' = h \<and> (\<exists>env. call_possible w0 env \<and> fst (Aws_Token env (coarse w0 j)) = r
        \<and> agrees w0 j (snd (Aws_Token env (coarse w0 j))) sp w))"
| "call_alone w0 j h (Done (Some r)) sp w =
     (\<exists>env. call_possible w0 env \<and> fst (Aws_Token env (coarse w0 j)) = r
        \<and> agrees w0 j (if h then snd (Aws_handler env (coarse w0 j)) else snd (Aws_Token env (coarse w0 j))) sp w)"
| "call_alone w0 j h pc sp w = False"

lemma coarse_simps [simp]:
  "source (coarse w j) = sys_sources w ! j" "files (coarse w j) = sys_disk w" "goroutines (coarse w j) = []"
  by (simp_all add: coarse_def)

lemma hit_returns:
  assumes "cache_hit w0 j now tok ex"
    and "agrees w0 j (if ageing w0 j ex now' then refreshAsync (coarse w0 j) else coarse w0 j) sp w"
  shows "call_alone w0 j h (T_return h (Inr tok)) sp w"
proof -
  let ?env = "\<lparr>env_client = (\<lambda>_. Inl []), now_read = now, now_until = now',
      env_write = \<lparr>tmpName = [], failing = {MkdirAll}, written_part = 0\<rparr>\<rparr>"
  have "call_possible w0 ?env" by (simp add: call_possible_def env_possible_def)
  moreover have "Aws_Token ?env (coarse w0 j) = (Inr tok, if ageing w0 j ex now' then refreshAsync (coarse w0 j) else coarse w0 j)"
    using assms(1) by (simp add: Aws_Token_hit cache_hit_def ageing_def)
  ultimately show ?thesis using assms(2) by (simp only: call_alone.simps) (metis fst_conv snd_conv)
qed

lemma miss_returns:
  assumes "cache_miss w0 j now" and "env_possible (sys_used w0) (sys_disk w0) wenv"
  shows "\<exists>env. call_possible w0 env \<and> Aws_Token env (coarse w0 j) = (case mint client (sys_sources w0 ! j) of
      Inl e \<Rightarrow> (Inl e, coarse w0 j)
    | Inr tok \<Rightarrow> (Inr tok, if ts_cachePath (sys_sources w0 ! j) \<noteq> []
        then (coarse w0 j)\<lparr>files := writeCache (ts_cachePath (sys_sources w0 ! j)) tok wenv (sys_disk w0)\<rparr> else coarse w0 j))"
proof -
  let ?env = "\<lparr>env_client = client, now_read = now, now_until = now, env_write = wenv\<rparr>"
  have "ts_cachePath (source (coarse w0 j)) = [] \<or> readCache (source (coarse w0 j)) (files (coarse w0 j)) (now_read ?env) = None"
    using assms(1) by (simp add: cache_miss_def)
  from Aws_Token_miss [OF this] show ?thesis using assms(2)
    by (intro exI [of _ ?env]) (simp add: call_possible_def split: sum.split)
qed

lemma agrees_same: "agrees w0 j (coarse w0 j) sp w \<Longrightarrow> j < length (sys_sources w0) \<Longrightarrow>
    sys_disk w = sys_disk w0 \<and> sys_sources w = sys_sources w0 \<and> sp = []"
  by (auto simp: agrees_def)

lemma call_return_agrees:
  assumes "fst (Aws_Token env (coarse w0 j)) = r" and "agrees w0 j (snd (Aws_Token env (coarse w0 j))) sp w"
    and "j < length (sys_sources w0)"
  shows "agrees w0 j (if h then snd (Aws_handler env (coarse w0 j)) else snd (Aws_Token env (coarse w0 j))) sp (call_return h j r w)"
proof (cases h)
  case True
  obtain s where s: "Aws_Token env (coarse w0 j) = (r, s)" using assms(1) by (metis prod.collapse)
  then show ?thesis using True assms(2,3)
    by (cases r) (auto simp: Aws_handler_def agrees_def call_return_def set_lastErr_def update_source_def setLastError_def)
qed (use assms in \<open>simp add: call_return_def\<close>)

text \<open>The steps of a call, by the part of \<open>Token\<close> it is in: reading, refreshing, minting, writing.\<close>

lemma start_alone_step:
  assumes "call_alone w0 j h (T_start h') sp w" and "j < length (sys_sources w0)"
    and "thread_step c j (T_start h') w = (pc', started, w')"
  shows "call_alone w0 j h pc' (sp @ started) w'"
proof -
  have same: "agrees w0 j (coarse w0 j) sp w" "sys_used w = sys_used w0" "h' = h" using assms(1) by auto
  note s = agrees_same [OF same(1) assms(2)]
  let ?ts = "sys_sources w0 ! j"
  show ?thesis
  proof (cases "if ts_cachePath ?ts \<noteq> [] then readCache ?ts (sys_disk w0) (ch_now c) else None")
    case None
    then have "cache_miss w0 j (ch_now c)" by (auto simp: cache_miss_def split: if_splits)
    moreover have "(pc', started, w') = (T_mint h, [], w)"
      using assms(3) same(3) s unfolding thread_step.simps Let_def by (simp only: None option.case)
    ultimately show ?thesis using same by auto
  next
    case (Some hit)
    then have "cache_hit w0 j (ch_now c) (fst hit) (snd hit)" by (auto simp: cache_hit_def split: if_splits)
    moreover have "(pc', started, w') = (T_hit h (fst hit) (snd hit), [], w)"
      using assms(3) same(3) s unfolding thread_step.simps Let_def by (simp only: Some option.case case_prod_unfold)
    ultimately show ?thesis using same by auto
  qed
qed

lemma hit_alone_step:
  assumes "call_alone w0 j h (T_hit h' tok ex) sp w" and "j < length (sys_sources w0)"
    and "thread_step c j (T_hit h' tok ex) w = (pc', started, w')"
  shows "call_alone w0 j h pc' (sp @ started) w'"
proof -
  obtain now where hit: "cache_hit w0 j now tok ex" and same: "agrees w0 j (coarse w0 j) sp w" "h' = h" using assms(1) by auto
  note s = agrees_same [OF same(1) assms(2)]
  show ?thesis
  proof (cases "ageing w0 j ex (ch_now c)")
    case True
    then have "pc' = T_refresh h tok" "started = []" "w' = w"
      using assms(3) same(2) s by (auto simp: ageing_def split: if_splits)
    then show ?thesis using same s hit True by auto
  next
    case False
    then have "pc' = T_return h (Inr tok)" "started = []" "w' = w"
      using assms(3) same(2) s by (auto simp: ageing_def split: if_splits)
    then show ?thesis using same s False hit_returns [OF hit, of "ch_now c" sp w h] by simp
  qed
qed

lemma refresh_alone_step:
  assumes "call_alone w0 j h (T_refresh h' tok) sp w" and "j < length (sys_sources w0)"
    and "thread_step c j (T_refresh h' tok) w = (pc', started, w')"
  shows "call_alone w0 j h pc' (sp @ started) w'"
proof -
  obtain now ex now' where hit: "cache_hit w0 j now tok ex" "ageing w0 j ex now'"
    and same: "agrees w0 j (coarse w0 j) sp w" "h' = h" using assms(1) by auto
  note s = agrees_same [OF same(1) assms(2)]
  show ?thesis
  proof (cases "ts_refreshing (sys_sources w0 ! j)")
    case True
    then have "refreshAsync (coarse w0 j) = coarse w0 j" by (simp add: refreshAsync_def)
    moreover have "pc' = T_return h (Inr tok)" "started = []" "w' = w"
      using True assms(3) same(2) s by (auto simp: claim_refresh_def)
    ultimately show ?thesis using same(1) hit hit_returns [OF hit(1), of now' sp w h] by simp
  next
    case False
    have "pc' = T_spawn h tok" "started = []" "w' = set_refreshing j True w"
      using False assms(3) same(2) s by (auto simp: claim_refresh_def)
    moreover have "agrees w0 j (refreshAsync (coarse w0 j)) [G_mint] (set_refreshing j True w)"
      using False s by (simp add: agrees_def refreshAsync_def set_refreshing_def update_source_def coarse_goroutine_def)
    ultimately show ?thesis using hit s by auto
  qed
qed

lemma mint_alone_step:
  assumes "call_alone w0 j h (T_mint h') sp w" and "j < length (sys_sources w0)"
    and "thread_step c j (T_mint h') w = (pc', started, w')"
  shows "call_alone w0 j h pc' (sp @ started) w'"
proof -
  obtain now where miss: "cache_miss w0 j now"
    and same: "agrees w0 j (coarse w0 j) sp w" "sys_used w = sys_used w0" "h' = h" using assms(1) by auto
  note s = agrees_same [OF same(1) assms(2)]
  define wenv where "wenv = \<lparr>tmpName = [], failing = {MkdirAll}, written_part = 0\<rparr>"
  then have "env_possible (sys_used w0) (sys_disk w0) wenv" by (simp add: env_possible_def)
  then obtain env where env: "call_possible w0 env" "Aws_Token env (coarse w0 j) = (case mint (ch_client c) (sys_sources w0 ! j) of
      Inl e \<Rightarrow> (Inl e, coarse w0 j)
    | Inr tok \<Rightarrow> (Inr tok, if ts_cachePath (sys_sources w0 ! j) \<noteq> []
        then (coarse w0 j)\<lparr>files := writeCache (ts_cachePath (sys_sources w0 ! j)) tok wenv (sys_disk w0)\<rparr> else coarse w0 j))"
    using miss_returns [OF miss, of wenv] by blast
  show ?thesis
  proof (cases "mint (ch_client c) (sys_sources w0 ! j)")
    case (Inl e)
    then show ?thesis using assms(3) s same env
      by (auto simp: system_mint_def Let_def agrees_def intro!: exI [of _ env])
  next
    case (Inr tok)
    then show ?thesis using assms(3) s same env miss
      by (auto simp: system_mint_def Let_def agrees_def split: if_splits intro!: exI [of _ env])
  qed
qed

lemma cache_write_alone_step:
  assumes "call_alone w0 j h (T_write h' tok wr) sp w" and "j < length (sys_sources w0)"
    and "thread_step c j (T_write h' tok wr) w = (pc', started, w')"
  shows "call_alone w0 j h pc' (sp @ started) w'"
proof -
  let ?path = "ts_cachePath (sys_sources w0 ! j)"
  obtain now client where miss: "cache_miss w0 j now" "mint client (sys_sources w0 ! j) = Inr tok"
    and ag: "agrees w0 j ((coarse w0 j)\<lparr>files := sys_disk w\<rparr>) sp w" "?path \<noteq> []"
      "write_alone ?path tok (sys_used w0) (sys_disk w0) wr (sys_used w, sys_disk w)" "h' = h"
    using assms(1) by auto
  have s: "sys_sources w = sys_sources w0" "sp = []" using ag(1) by (simp_all add: agrees_def)
  show ?thesis
  proof (cases "wr = W_end")
    case True
    then obtain wenv where "sys_disk w = writeCache ?path tok wenv (sys_disk w0)"
      and p: "env_possible (sys_used w0) (sys_disk w0) wenv" using ag(3) by auto
    moreover obtain env where "call_possible w0 env" "Aws_Token env (coarse w0 j) = (Inr tok, (coarse w0 j)\<lparr>files := writeCache ?path tok wenv (sys_disk w0)\<rparr>)"
      using miss_returns [OF miss(1) p, where client = client] miss(2) ag(2) by auto
    ultimately show ?thesis using True assms(3) ag(1,4) by (auto intro!: exI [of _ env])
  next
    case False
    then show ?thesis
      using assms(3) s ag(2,4) miss write_alone_step [OF ag(3), of c]
      by (auto simp: system_write_def agrees_def split: prod.splits)
  qed
qed

lemma call_alone_step:
  assumes "call_alone w0 j h pc sp w" and "j < length (sys_sources w0)" and "\<not> is_done pc"
    and "thread_step c j pc w = (pc', started, w')"
  shows "call_alone w0 j h pc' (sp @ started) w'"
proof (cases pc)
  case (T_spawn h' tok)
  then obtain now ex now' where hit: "cache_hit w0 j now tok ex" "ageing w0 j ex now'"
    and ag: "agrees w0 j (refreshAsync (coarse w0 j)) (sp @ [G_mint]) w" "h' = h" using assms(1) by auto
  then show ?thesis using T_spawn assms(4) hit_returns [OF hit(1), of now' "sp @ [G_mint]" w h] by auto
next
  case (T_return h' r)
  then obtain env where env: "h' = h" "call_possible w0 env" "fst (Aws_Token env (coarse w0 j)) = r" "agrees w0 j (snd (Aws_Token env (coarse w0 j))) sp w"
    using assms(1) by auto
  have "call_alone w0 j h (Done (Some r)) sp (call_return h j r w)"
    unfolding call_alone.simps using env(2,3) call_return_agrees [OF env(3,4) assms(2)] by blast
  moreover have "pc' = Done (Some r)" "started = []" "w' = call_return h j r w" using T_return assms(4) env(1) by auto
  ultimately show ?thesis by simp
next
  case (T_start h')
  show ?thesis
    by (rule start_alone_step [OF assms(1) [unfolded T_start] assms(2) assms(4) [unfolded T_start]])
next
  case (T_hit h' tok ex)
  show ?thesis
    by (rule hit_alone_step [OF assms(1) [unfolded T_hit] assms(2) assms(4) [unfolded T_hit]])
next
  case (T_refresh h' tok)
  show ?thesis
    by (rule refresh_alone_step [OF assms(1) [unfolded T_refresh] assms(2) assms(4) [unfolded T_refresh]])
next
  case (T_mint h')
  show ?thesis
    by (rule mint_alone_step [OF assms(1) [unfolded T_mint] assms(2) assms(4) [unfolded T_mint]])
next
  case (T_write h' tok wr)
  show ?thesis
    by (rule cache_write_alone_step [OF assms(1) [unfolded T_write] assms(2) assms(4) [unfolded T_write]])
qed (use assms in auto)

text \<open>A run of one thread, with the threads it starts.\<close>

fun call_run :: "aws_choice list \<Rightarrow> nat \<Rightarrow> pc \<Rightarrow> aws_system \<Rightarrow> pc \<times> pc list \<times> aws_system" where
  "call_run [] j pc w = (pc, [], w)"
| "call_run (c # cs) j pc w =
     (case thread_step c j pc w of (pc', started, w') \<Rightarrow>
        (case call_run cs j pc' w' of (pc'', started', w'') \<Rightarrow> (pc'', started @ started', w'')))"

lemma call_run_alone:
  "call_alone w0 j h pc sp w \<Longrightarrow> j < length (sys_sources w0) \<Longrightarrow> call_run cs j pc w = (pc', started, w')
     \<Longrightarrow> call_alone w0 j h pc' (sp @ started) w'"
proof (induction cs arbitrary: pc sp w started)
  case (Cons c cs)
  obtain pc1 st1 w1 where 1: "thread_step c j pc w = (pc1, st1, w1)" by (rule prod_cases3)
  obtain st2 where 2: "call_run cs j pc1 w1 = (pc', st2, w')" "started = st1 @ st2"
    using Cons.prems(3) 1 by (auto split: prod.splits)
  show ?case
  proof (cases "is_done pc")
    case True
    then show ?thesis using Cons.IH [OF _ Cons.prems(2) 2(1)] 1 2(2) Cons.prems(1) by (cases pc) auto
  next
    case False
    then show ?thesis
      using Cons.IH [OF call_alone_step [OF Cons.prems(1,2) False 1] Cons.prems(2) 2(1)] 2(2) by simp
  qed
qed simp

text \<open>Conversely, the run that makes a given result.\<close>

lemma call_run_append:
  "call_run (cs @ cs') j pc w =
     (case call_run cs j pc w of (pc', st, w') \<Rightarrow>
        (case call_run cs' j pc' w' of (pc'', st', w'') \<Rightarrow> (pc'', st @ st', w'')))"
  by (induction cs arbitrary: pc w) (auto split: prod.split)

lemma write_run_end: "write_run cs path tok W_end u = (W_end, u)"
  by (induction cs) (cases u; simp)+

lemma write_run_call:
  assumes "write_run cs (ts_cachePath (sys_sources w ! j)) tok wr (sys_used w, sys_disk w) = (W_end, u', d')"
  shows "\<exists>cs'. call_run cs' j (T_write h tok wr) w = (T_return h (Inr tok), [], w\<lparr>sys_used := u', sys_disk := d'\<rparr>)"
  using assms
proof (induction cs arbitrary: wr w)
  case Nil
  then show ?case by (intro exI [of _ "[sample_choice 0]"]) auto
next
  case (Cons c cs)
  show ?case
  proof (cases "wr = W_end")
    case True
    have "(W_end, sys_used w, sys_disk w) = (W_end, u', d')" using Cons.prems unfolding True write_run_end .
    then have "w\<lparr>sys_used := u', sys_disk := d'\<rparr> = w" by auto
    then show ?thesis using True by (intro exI [of _ "[sample_choice 0]"]) simp
  next
    case False
    obtain wr1 u1 d1 where s: "write_step c (ts_cachePath (sys_sources w ! j)) tok wr (sys_used w, sys_disk w) = (wr1, u1, d1)"
      by (rule prod_cases3)
    let ?w = "w\<lparr>sys_used := u1, sys_disk := d1\<rparr>"
    obtain cs' where "call_run cs' j (T_write h tok wr1) ?w = (T_return h (Inr tok), [], ?w\<lparr>sys_used := u', sys_disk := d'\<rparr>)"
      using Cons.IH [of ?w wr1] Cons.prems s by auto
    then show ?thesis using False s by (intro exI [of _ "c # cs'"]) (simp add: system_write_def)
  qed
qed

text \<open>The choices of a call in an environment, but for those of its write: the clock and the answer of STS.\<close>

definition call_choice :: "aws_env \<Rightarrow> time \<Rightarrow> aws_choice" where
  "call_choice env now = \<lparr>ch_now = now, ch_client = env_client env, ch_ok = True, ch_tmp = [], ch_bytes = 0\<rparr>"

lemma call_run_hit:
  fixes env :: aws_env
  assumes "cache_hit w0 j (now_read env) tok ex" and "j < length (sys_sources w0)"
  shows "\<exists>cs started w. call_run cs j (T_start h) w0 = (T_return h (Inr tok), started, w)
    \<and> agrees w0 j (if ageing w0 j ex (now_until env) then refreshAsync (coarse w0 j) else coarse w0 j) started w"
proof -
  let ?c = "call_choice env (now_read env)" and ?u = "call_choice env (now_until env)"
  have h: "ts_cachePath (sys_sources w0 ! j) \<noteq> []"
    "readCache (sys_sources w0 ! j) (sys_disk w0) (now_read env) = Some (tok, ex)"
    using assms(1) by (simp_all add: cache_hit_def)
  consider (fresh) "\<not> ageing w0 j ex (now_until env)"
    | (busy) "ageing w0 j ex (now_until env)" "ts_refreshing (sys_sources w0 ! j)"
    | (refresh) "ageing w0 j ex (now_until env)" "\<not> ts_refreshing (sys_sources w0 ! j)" by blast
  then show ?thesis
  proof cases
    case fresh
    then have "call_run [?c, ?u] j (T_start h) w0 = (T_return h (Inr tok), [], w0)"
      using h by (simp add: call_choice_def ageing_def)
    moreover have "agrees w0 j (coarse w0 j) [] w0" by (simp add: agrees_def)
    ultimately show ?thesis unfolding if_not_P [OF fresh] by blast
  next
    case busy
    then have "call_run [?c, ?u, ?u] j (T_start h) w0 = (T_return h (Inr tok), [], w0)"
      using h by (simp add: call_choice_def ageing_def claim_refresh_def)
    moreover have "agrees w0 j (refreshAsync (coarse w0 j)) [] w0" using busy by (simp add: agrees_def refreshAsync_def)
    ultimately show ?thesis unfolding if_P [OF busy(1)] by blast
  next
    case refresh
    then have "call_run [?c, ?u, ?u, ?u] j (T_start h) w0 = (T_return h (Inr tok), [G_mint], set_refreshing j True w0)"
      using h by (simp add: call_choice_def ageing_def claim_refresh_def)
    moreover have "agrees w0 j (refreshAsync (coarse w0 j)) [G_mint] (set_refreshing j True w0)"
      using refresh by (simp add: agrees_def refreshAsync_def set_refreshing_def update_source_def coarse_goroutine_def)
    ultimately show ?thesis unfolding if_P [OF refresh(1)] by blast
  qed
qed

lemma call_run_miss:
  assumes "cache_miss w0 j (now_read env)" and "call_possible w0 env"
  shows "\<exists>cs started w. call_run cs j (T_start h) w0 = (T_return h (fst (Aws_Token env (coarse w0 j))), started, w)
    \<and> agrees w0 j (snd (Aws_Token env (coarse w0 j))) started w"
proof -
  let ?c = "call_choice env (now_read env)" and ?ts = "sys_sources w0 ! j"
  have miss: "ts_cachePath (source (coarse w0 j)) = [] \<or> readCache (source (coarse w0 j)) (files (coarse w0 j)) (now_read env) = None"
    using assms(1) by (simp add: cache_miss_def)
  have "(if ts_cachePath ?ts \<noteq> [] then readCache ?ts (sys_disk w0) (now_read env) else None) = None"
    using assms(1) by (auto simp: cache_miss_def)
  then have start: "thread_step ?c j (T_start h) w0 = (T_mint h, [], w0)"
    by (simp only: thread_step.simps Let_def call_choice_def aws_choice.simps option.case)
  show ?thesis
  proof (cases "mint (env_client env) ?ts")
    case (Inl e)
    then have "call_run [?c, ?c] j (T_start h) w0 = (T_return h (Inl e), [], w0)"
      using start by (simp add: system_mint_def call_choice_def)
    moreover have "agrees w0 j (coarse w0 j) [] w0" by (simp add: agrees_def)
    moreover have t: "Aws_Token env (coarse w0 j) = (Inl e, coarse w0 j)" using Aws_Token_miss [OF miss] Inl by simp
    ultimately show ?thesis unfolding t fst_conv snd_conv by blast
  next
    case (Inr tok)
    let ?w = "w0\<lparr>sys_minted := insert (mint_input ?ts, tok) (sys_minted w0)\<rparr>"
    have m: "call_run [?c, ?c] j (T_start h) w0
        = (if ts_cachePath ?ts \<noteq> [] then T_write h tok W_mkdir else T_return h (Inr tok), [], ?w)"
      using start Inr by (simp add: system_mint_def call_choice_def)
    show ?thesis
    proof (cases "ts_cachePath ?ts = []")
      case True
      then have t: "Aws_Token env (coarse w0 j) = (Inr tok, coarse w0 j)" using Aws_Token_miss [OF miss] Inr by simp
      have "agrees w0 j (coarse w0 j) [] ?w" by (simp add: agrees_def)
      moreover have "call_run [?c, ?c] j (T_start h) w0 = (T_return h (Inr tok), [], ?w)" using m True by simp
      ultimately show ?thesis unfolding t fst_conv snd_conv by blast
    next
      case False
      let ?d = "writeCache (ts_cachePath ?ts) tok (env_write env) (sys_disk w0)"
      obtain u' where "write_run (env_choices tok (env_write env)) (ts_cachePath ?ts) tok W_mkdir (sys_used w0, sys_disk w0) = (W_end, u', ?d)"
        using env_choices_run assms(2) unfolding call_possible_def by blast
      then obtain cs where "call_run cs j (T_write h tok W_mkdir) ?w = (T_return h (Inr tok), [], ?w\<lparr>sys_used := u', sys_disk := ?d\<rparr>)"
        using write_run_call [of _ ?w j tok W_mkdir u' ?d h] by auto
      then have "call_run ([?c, ?c] @ cs) j (T_start h) w0 = (T_return h (Inr tok), [], ?w\<lparr>sys_used := u', sys_disk := ?d\<rparr>)"
        using m False by (simp only: call_run_append) simp
      moreover have t: "Aws_Token env (coarse w0 j) = (Inr tok, (coarse w0 j)\<lparr>files := ?d\<rparr>)"
        using Aws_Token_miss [OF miss] Inr False by simp
      moreover have "agrees w0 j ((coarse w0 j)\<lparr>files := ?d\<rparr>) [] (?w\<lparr>sys_used := u', sys_disk := ?d\<rparr>)" by (simp add: agrees_def)
      ultimately show ?thesis unfolding t fst_conv snd_conv by blast
    qed
  qed
qed

lemma call_run_Token:
  assumes "j < length (sys_sources w0)" and "call_possible w0 env"
  shows "\<exists>cs started w. call_run cs j (T_start h) w0 = (T_return h (fst (Aws_Token env (coarse w0 j))), started, w)
    \<and> agrees w0 j (snd (Aws_Token env (coarse w0 j))) started w"
proof (cases "cache_miss w0 j (now_read env)")
  case False
  then obtain tok ex where hit: "cache_hit w0 j (now_read env) tok ex" by (auto simp: cache_miss_def cache_hit_def)
  then have "Aws_Token env (coarse w0 j) = (Inr tok, if ageing w0 j ex (now_until env) then refreshAsync (coarse w0 j) else coarse w0 j)"
    by (simp add: Aws_Token_hit cache_hit_def ageing_def)
  with call_run_hit [OF hit assms(1), of h] show ?thesis by simp
qed (rule call_run_miss [OF _ assms(2)])

lemma agrees_unique:
  assumes "agrees w0 j s st w" and "agrees w0 j s' st w" and "j < length (sys_sources w0)"
  shows "s = s'"
proof -
  have "inj coarse_goroutine" by (auto simp: inj_def coarse_goroutine_def split: phase.splits)
  then have "goroutines s = goroutines s'" using assms(1,2) by (auto simp: agrees_def dest: map_injective)
  moreover have "source s = source s'" using assms by (metis agrees_def nth_list_update_eq)
  ultimately show ?thesis using assms(1,2) by (simp add: agrees_def)
qed

text \<open>
  C27. The call of the coarser model is the call that runs alone. Take the steps of one call of \<open>Token\<close>, or
  of one handler, from its start until it is done, with no step of another thread in between. The
  results it can return, with the files, the token source with its last error and its flag, and the
  goroutine it leaves, are exactly those of the function \<open>Token\<close>, or of the handler, over the environments in
  which a temporary file is new: neither model has a behaviour the other one lacks.
\<close>

theorem call_alone_equiv:
  assumes "j < length (sys_sources w0)"
  shows "(\<exists>cs started w. call_run cs j (T_start h) w0 = (Done (Some r), started, w) \<and> agrees w0 j s started w)
    \<longleftrightarrow> (\<exists>env. env_possible (sys_used w0) (sys_disk w0) (env_write env) \<and> r = fst (Aws_Token env (coarse w0 j))
          \<and> s = (if h then snd (Aws_handler env (coarse w0 j)) else snd (Aws_Token env (coarse w0 j))))"
proof
  assume "\<exists>cs started w. call_run cs j (T_start h) w0 = (Done (Some r), started, w) \<and> agrees w0 j s started w"
  then obtain cs started w where run: "call_run cs j (T_start h) w0 = (Done (Some r), started, w)" "agrees w0 j s started w"
    by blast
  have "call_alone w0 j h (T_start h) [] w0" by (simp add: agrees_def)
  from call_run_alone [OF this assms run(1)]
  show "\<exists>env. env_possible (sys_used w0) (sys_disk w0) (env_write env) \<and> r = fst (Aws_Token env (coarse w0 j))
      \<and> s = (if h then snd (Aws_handler env (coarse w0 j)) else snd (Aws_Token env (coarse w0 j)))"
    using agrees_unique [OF run(2) _ assms] unfolding call_alone.simps call_possible_def append_Nil by blast
next
  assume "\<exists>env. env_possible (sys_used w0) (sys_disk w0) (env_write env) \<and> r = fst (Aws_Token env (coarse w0 j))
      \<and> s = (if h then snd (Aws_handler env (coarse w0 j)) else snd (Aws_Token env (coarse w0 j)))"
  then obtain env where env: "call_possible w0 env" "fst (Aws_Token env (coarse w0 j)) = r"
    "s = (if h then snd (Aws_handler env (coarse w0 j)) else snd (Aws_Token env (coarse w0 j)))"
    by (auto simp: call_possible_def)
  obtain cs started w where run: "call_run cs j (T_start h) w0 = (T_return h r, started, w)"
    "agrees w0 j (snd (Aws_Token env (coarse w0 j))) started w"
    using call_run_Token [OF assms env(1), of h] env(2) by auto
  have "call_run (cs @ [sample_choice 0]) j (T_start h) w0 = (Done (Some r), started, call_return h j r w)"
    by (simp add: call_run_append run(1))
  then show "\<exists>cs started w. call_run cs j (T_start h) w0 = (Done (Some r), started, w) \<and> agrees w0 j s started w"
    using call_return_agrees [OF env(2) run(2) assms] env(3) by blast
qed

theorem call_alone_equiv_witness:
  "\<exists>env. fst (Aws_Token env (coarse (sample_system Map.empty []) 0)) = Inr cached_token"
proof -
  let ?w0 = "sample_system Map.empty []"
  let ?r = "call_run (replicate 11 (sample_choice 45)) 0 (T_start False) ?w0"
  have "(case ?r of (pc, started, w) \<Rightarrow> (pc, started)) = (Done (Some (Inr cached_token)), [])" by code_simp
  then obtain w where r: "?r = (Done (Some (Inr cached_token)), [], w)" by (auto split: prod.splits)
  have s: "0 < length (sys_sources ?w0)" by (simp add: sample_system_def)
  have "call_alone ?w0 0 False (T_start False) [] ?w0" by (simp add: agrees_def)
  from call_run_alone [OF this s r] obtain t where "agrees ?w0 0 t [] w" by auto
  then show ?thesis using call_alone_equiv [OF s, of False "Inr cached_token" t] r by metis
qed

end
