(* ===== verification/Identity.thy ===== *)
theory Identity
  imports GoStrings GoTime Json
begin

text \<open>
  \<open>internal/identity/identity.go\<close>: the verified identity, and \<open>Parse\<close>, which flattens the
  payload of a token into the claim map that rules match against.

  Go visits the entries of a map in no particular order, and \<open>Parse\<close> writes the leaves of the
  payload in the order it visits them. The model takes that order as an argument: \<open>order\<close> lists
  the entries of every object of the payload again, and \<open>visits order\<close> says that it does no more
  than that. The theorems hold for every such order.

  \<open>scalar_at\<close> and \<open>claim_source\<close> say, without the order and without the map, which leaf of the
  payload a claim name stands for; the properties relate the map to them.
\<close>

section \<open>The code\<close>

definition Namespace :: string where
  "Namespace = ''https://sts.amazonaws.com/''"

definition awsPrefix :: string where
  "awsPrefix = ''aws''"

definition reserved :: "string set" where
  "reserved = {''iss'', ''sub'', ''aud'', ''exp'', ''nbf'', ''iat''}"

record identity =
  Issuer :: string
  Subject :: string
  Audience :: "string list"
  Expiry :: time
  claims :: "string gomap"

text \<open>The fields \<open>New\<close> and \<open>Parse\<close> leave at their zero values; the zero time is the year 1.\<close>

definition Identity_New :: "string \<Rightarrow> string gomap option \<Rightarrow> identity" where
  "Identity_New subject cs =
     \<lparr>Issuer = [], Subject = subject, Audience = [], Expiry = 0,
      claims = (case cs of None \<Rightarrow> [] | Some m \<Rightarrow> m)\<rparr>"

definition Claim :: "identity \<Rightarrow> string \<Rightarrow> string option" where
  "Claim i name = map_of (claims i) name"

definition Claims :: "identity \<Rightarrow> string gomap" where
  "Claims i = claims i"

definition FormatBool :: "bool \<Rightarrow> string" where
  "FormatBool b = (if b then ''true'' else ''false'')"

fun flatten :: "string \<Rightarrow> json \<Rightarrow> string gomap \<Rightarrow> string gomap"
  and flatten_entries :: "string \<Rightarrow> (string \<times> json) list \<Rightarrow> string gomap \<Rightarrow> string gomap" where
  "flatten pre (JObj val) out = flatten_entries pre val out"
| "flatten pre (JStr val) out = AList.update pre val out"
| "flatten pre (JNum val) out = AList.update pre val out"
| "flatten pre (JBool val) out = AList.update pre (FormatBool val) out"
| "flatten pre (JArr val) out = out"
| "flatten pre JNull out = out"
| "flatten_entries pre [] out = out"
| "flatten_entries pre ((k, child) # rest) out =
     flatten_entries pre rest (flatten (pre @ ''.'' @ k) child out)"

fun flatten_claims :: "(string \<times> json) list \<Rightarrow> string gomap \<Rightarrow> string gomap" where
  "flatten_claims [] cs = cs"
| "flatten_claims ((k, v) # raw) cs =
     (if k \<in> reserved then flatten_claims raw cs
      else flatten_claims raw (flatten (if k = Namespace then awsPrefix else k) v cs))"

datatype parse_error = DecodeTokenClaims

text \<open>
  \<open>Decode\<close> into a \<open>map[string]any\<close>: \<open>null\<close> leaves the map nil, any other value than an object
  is a type error.
\<close>

definition decode_map :: "string \<Rightarrow> (string \<times> json) list option" where
  "decode_map payload =
     (case Decode payload of
        None \<Rightarrow> None
      | Some (v, _) \<Rightarrow> (case interface_of v of JObj raw \<Rightarrow> Some raw | JNull \<Rightarrow> Some [] | _ \<Rightarrow> None))"

definition entries :: "json \<Rightarrow> (string \<times> json) list" where
  "entries v = (case v of JObj ms \<Rightarrow> ms | _ \<Rightarrow> [])"

definition Parse :: "(json \<Rightarrow> json) \<Rightarrow> string \<Rightarrow> parse_error + identity" where
  "Parse order payload =
     (case decode_map payload of
        None \<Rightarrow> Inl DecodeTokenClaims
      | Some raw \<Rightarrow> Inr (Identity_New [] (Some (flatten_claims (entries (order (JObj raw))) []))))"

section \<open>Visiting orders\<close>

inductive json_perm :: "json \<Rightarrow> json \<Rightarrow> bool" where
  same: "json_perm v v"
| obj: "mset ms = mset ms1 \<Longrightarrow> list_all2 (rel_prod (=) json_perm) ms1 ms' \<Longrightarrow> json_perm (JObj ms) (JObj ms')"
monos list.rel_mono prod.rel_mono

inductive_cases json_perm_objE: "json_perm (JObj ms) v"

definition visits :: "(json \<Rightarrow> json) \<Rightarrow> bool" where
  "visits order \<longleftrightarrow> (\<forall>v. json_perm v (order v))"

lemma visits_id: "visits (\<lambda>v. v)"
  by (simp add: visits_def json_perm.same)

text \<open>Every object listed backwards.\<close>

definition backwards :: "json \<Rightarrow> json" where
  "backwards v = (case v of JObj ms \<Rightarrow> JObj (rev ms) | _ \<Rightarrow> v)"

lemma visits_backwards: "visits backwards"
proof -
  have "json_perm v (backwards v)" for v
  proof (cases v)
    case (JObj ms)
    have "list_all2 (rel_prod (=) json_perm) (rev ms) (rev ms)"
      by (rule list.rel_refl) (auto simp: rel_prod_sel json_perm.same)
    moreover have "mset ms = mset (rev ms)" by simp
    ultimately show ?thesis
      by (simp only: JObj backwards_def json.case) (rule json_perm.obj)
  qed (simp_all add: backwards_def json_perm.same)
  then show ?thesis by (simp add: visits_def)
qed

section \<open>What a claim stands for\<close>

inductive scalar_at :: "json \<Rightarrow> string list \<Rightarrow> string \<Rightarrow> bool" where
  str: "scalar_at (JStr t) [] t"
| num: "scalar_at (JNum t) [] t"
| bool: "scalar_at (JBool b) [] (FormatBool b)"
| member: "(k, v) \<in> set ms \<Longrightarrow> scalar_at v path t \<Longrightarrow> scalar_at (JObj ms) (k # path) t"

inductive_simps scalar_at_simps [simp]:
  "scalar_at (JStr s) path t" "scalar_at (JNum s) path t" "scalar_at (JBool b) path t"
  "scalar_at JNull path t" "scalar_at (JArr vs) path t"

inductive_cases scalar_at_objE: "scalar_at (JObj ms) path t"

text \<open>The leaves of the payload that the claim \<open>name\<close> can stand for.\<close>

definition claim_source :: "(string \<times> json) list \<Rightarrow> string \<Rightarrow> string \<Rightarrow> bool" where
  "claim_source raw name t \<longleftrightarrow>
     (\<exists>k path. k \<notin> reserved \<and> scalar_at (JObj raw) (k # path) t
        \<and> name = Join CHR ''.'' ((if k = Namespace then awsPrefix else k) # path))"

section \<open>The leaves of a value, in the order \<open>flatten\<close> writes them\<close>

fun leaves :: "string \<Rightarrow> json \<Rightarrow> (string \<times> string) list"
  and leaves_entries :: "string \<Rightarrow> (string \<times> json) list \<Rightarrow> (string \<times> string) list" where
  "leaves pre (JObj val) = leaves_entries pre val"
| "leaves pre (JStr val) = [(pre, val)]"
| "leaves pre (JNum val) = [(pre, val)]"
| "leaves pre (JBool val) = [(pre, FormatBool val)]"
| "leaves pre (JArr val) = []"
| "leaves pre JNull = []"
| "leaves_entries pre [] = []"
| "leaves_entries pre ((k, child) # rest) = leaves (pre @ ''.'' @ k) child @ leaves_entries pre rest"

definition leaves_claims :: "(string \<times> json) list \<Rightarrow> (string \<times> string) list" where
  "leaves_claims raw =
     concat (map (\<lambda>(k, v). if k \<in> reserved then [] else leaves (if k = Namespace then awsPrefix else k) v) raw)"

lemma flatten_leaves:
  "flatten pre v out = fold store_member (leaves pre v) out"
  "flatten_entries pre ms out = fold store_member (leaves_entries pre ms) out"
  by (induction pre v out and pre ms out rule: flatten_flatten_entries.induct)
    (simp_all add: store_member_def)

lemma flatten_claims_leaves: "flatten_claims raw cs = fold store_member (leaves_claims raw) cs"
  by (induction raw cs rule: flatten_claims.induct) (simp_all add: leaves_claims_def flatten_leaves)

lemma Join_dot: "Join CHR ''.'' ((p @ ''.'' @ k) # path) = Join CHR ''.'' (p # k # path)"
  by (cases path) auto

lemma leaves_entries_set:
  "(n, t) \<in> set (leaves_entries p ms) \<longleftrightarrow> (\<exists>(k, v) \<in> set ms. (n, t) \<in> set (leaves (p @ ''.'' @ k) v))"
  by (induction ms) auto

lemma leaves_scalar:
  "(n, t) \<in> set (leaves p v) \<longleftrightarrow> (\<exists>path. scalar_at v path t \<and> n = Join CHR ''.'' (p # path))"
proof (induction v arbitrary: p n)
  case (JObj ms)
  have IH: "(n, t) \<in> set (leaves q v) \<longleftrightarrow> (\<exists>path. scalar_at v path t \<and> n = Join CHR ''.'' (q # path))"
    if "(k, v) \<in> set ms" for k v q n
    using JObj [OF that, of v n q] by (simp add: snds.simps)
  have "(n, t) \<in> set (leaves p (JObj ms)) \<longleftrightarrow>
      (\<exists>(k, v) \<in> set ms. \<exists>path. scalar_at v path t \<and> n = Join CHR ''.'' ((p @ ''.'' @ k) # path))"
    unfolding leaves.simps leaves_entries_set using IH
    by (intro bex_cong refl) (simp only: split_paired_all prod.case)
  also have "\<dots> \<longleftrightarrow>
      (\<exists>(k, v) \<in> set ms. \<exists>path. scalar_at v path t \<and> n = Join CHR ''.'' (p # k # path))"
    by (simp only: Join_dot)
  also have "\<dots> \<longleftrightarrow> (\<exists>path. scalar_at (JObj ms) path t \<and> n = Join CHR ''.'' (p # path))"
    by (fastforce intro: scalar_at.member elim: scalar_at_objE)
  finally show ?case .
qed auto

lemma scalar_member: "scalar_at (JObj raw) (k # path) t \<longleftrightarrow> (\<exists>v. (k, v) \<in> set raw \<and> scalar_at v path t)"
  by (auto intro: scalar_at.member elim: scalar_at_objE)

lemma leaves_claims_source: "(n, t) \<in> set (leaves_claims raw) \<longleftrightarrow> claim_source raw n t"
proof -
  have "(n, t) \<in> set (leaves_claims raw) \<longleftrightarrow>
      (\<exists>k v. (k, v) \<in> set raw \<and> k \<notin> reserved
         \<and> (n, t) \<in> set (leaves (if k = Namespace then awsPrefix else k) v))"
    unfolding leaves_claims_def by (auto split: if_split_asm)
  then show ?thesis
    unfolding claim_source_def scalar_member leaves_scalar by blast
qed

section \<open>The order does not matter to what is there\<close>

lemma scalar_perm: "json_perm v v' \<Longrightarrow> scalar_at v' path t \<longleftrightarrow> scalar_at v path t"
proof (induction arbitrary: path rule: json_perm.induct)
  case (same v)
  then show ?case by simp
next
  case (obj ms ms1 ms')
  have R: "(\<exists>v. (k, v) \<in> set ms' \<and> scalar_at v path t) \<longleftrightarrow> (\<exists>v. (k, v) \<in> set ms1 \<and> scalar_at v path t)"
    for k path
    using obj(2) by (induction rule: list_all2_induct) (auto simp: rel_prod_sel)
  have "set ms = set ms1" using obj(1) by (metis set_mset_mset)
  then show ?case by (cases path) (auto simp: scalar_member R elim: scalar_at_objE)
qed

lemma claim_source_perm:
  assumes "visits order"
  shows "claim_source (entries (order (JObj raw))) n t \<longleftrightarrow> claim_source raw n t"
proof -
  have p: "json_perm (JObj raw) (order (JObj raw))" using assms by (simp add: visits_def)
  then obtain raw' where r: "order (JObj raw) = JObj raw'" by (auto elim: json_perm_objE)
  show ?thesis using scalar_perm [OF p] by (simp add: r entries_def claim_source_def)
qed

lemma decode_map_go_map: "decode_map payload = Some raw \<Longrightarrow> go_map raw"
proof -
  assume "decode_map payload = Some raw"
  then obtain v where "raw = [] \<or> interface_of v = JObj raw"
    by (auto simp: decode_map_def split: option.splits json.splits prod.splits)
  then show ?thesis
    by (cases v) (auto intro: store_members_go_map)
qed

lemma Parse_Inr:
  "Parse order payload = Inr i \<longleftrightarrow>
     (\<exists>raw. decode_map payload = Some raw
        \<and> i = Identity_New [] (Some (fold store_member (leaves_claims (entries (order (JObj raw)))) [])))"
  by (auto simp: Parse_def flatten_claims_leaves split: option.split)

lemma Claim_Parse:
  assumes "Parse order payload = Inr i" and "decode_map payload = Some raw"
  shows "Claim i name = map_of (rev (leaves_claims (entries (order (JObj raw))))) name"
  using assms by (auto simp: Parse_Inr Claim_def Identity_New_def store_members_lookup split: option.split)

lemma Claim_source:
  assumes "visits order" and "Parse order payload = Inr i" and "decode_map payload = Some raw"
  shows "Claim i name = Some t \<Longrightarrow> claim_source raw name t"
    and "Claim i name = None \<longleftrightarrow> (\<nexists>t. claim_source raw name t)"
proof -
  let ?L = "leaves_claims (entries (order (JObj raw)))"
  have L: "(n, t) \<in> set ?L \<longleftrightarrow> claim_source raw n t" for n t
    by (simp add: leaves_claims_source claim_source_perm [OF assms(1)])
  show "Claim i name = Some t \<Longrightarrow> claim_source raw name t"
    using Claim_Parse [OF assms(2,3)] by (auto simp: dest!: map_of_SomeD simp flip: L)
  have "Claim i name = None \<longleftrightarrow> name \<notin> fst ` set ?L"
    using Claim_Parse [OF assms(2,3)] by (simp add: map_of_eq_None_iff)
  also have "\<dots> \<longleftrightarrow> (\<nexists>t. (name, t) \<in> set ?L)" by force
  finally show "Claim i name = None \<longleftrightarrow> (\<nexists>t. claim_source raw name t)" by (simp add: L)
qed

lemma Join_dot_mem: "path \<noteq> [] \<Longrightarrow> CHR ''.'' \<in> set (Join CHR ''.'' (k # path))"
  by (cases path) auto

lemma reserved_no_dot: "n \<in> reserved \<Longrightarrow> CHR ''.'' \<notin> set n"
  by (auto simp: reserved_def)

lemma claim_source_not_reserved: "claim_source raw n t \<Longrightarrow> n \<notin> reserved"
proof
  assume "claim_source raw n t" and r: "n \<in> reserved"
  then obtain k path where k: "k \<notin> reserved"
    and n: "n = Join CHR ''.'' ((if k = Namespace then awsPrefix else k) # path)"
    by (auto simp: claim_source_def)
  have "path = []" using Join_dot_mem reserved_no_dot [OF r] n by blast
  then show False using k n r by (auto simp: awsPrefix_def reserved_def split: if_splits)
qed

lemma aws_prefix_cases:
  assumes "k @ CHR ''.'' # r = ''aws.'' @ x"
  shows "k = ''aws'' \<or> HasPrefix k ''aws.''"
proof -
  consider "k = []" | a where "k = [a]" | a b where "k = [a, b]" | a b c where "k = [a, b, c]"
    | a b c d k' where "k = a # b # c # d # k'"
    by (metis neq_Nil_conv)
  then show ?thesis using assms by cases (auto simp: HasPrefix_def)
qed

section \<open>Every leaf can be the one that counts\<close>

text \<open>
  Where several leaves stand for one name, the last one written counts, and each of them is written last in
  some order of visiting the maps.
\<close>

lemma json_perm_member:
  assumes "json_perm v v'"
  shows "json_perm (JObj (before @ (k, v) # after)) (JObj (before @ after @ [(k, v')]))"
proof (rule json_perm.obj)
  show "mset (before @ (k, v) # after) = mset (before @ after @ [(k, v)])" by simp
  have "list_all2 (rel_prod (=) json_perm) ms ms" for ms
    by (rule list.rel_refl) (auto simp: rel_prod_sel json_perm.same)
  then show "list_all2 (rel_prod (=) json_perm) (before @ after @ [(k, v)]) (before @ after @ [(k, v')])"
    using assms by (intro list_all2_appendI) simp_all
qed

lemma leaves_entries_append: "leaves_entries p (ms @ ns) = leaves_entries p ms @ leaves_entries p ns"
  by (induction ms) auto

lemma scalar_written_last:
  "scalar_at v path t \<Longrightarrow> \<exists>v' ls. json_perm v v' \<and> leaves p v' = ls @ [(Join CHR ''.'' (p # path), t)]"
proof (induction arbitrary: p rule: scalar_at.induct)
  case (member k v ms path t)
  obtain before after where ms: "ms = before @ (k, v) # after" using split_list [OF member(1)] by blast
  obtain v' ls where v': "json_perm v v'" "leaves (p @ ''.'' @ k) v' = ls @ [(Join CHR ''.'' ((p @ ''.'' @ k) # path), t)]"
    using member.IH by blast
  have "leaves p (JObj (before @ after @ [(k, v')]))
      = (leaves_entries p (before @ after) @ ls) @ [(Join CHR ''.'' (p # k # path), t)]"
    using v'(2) by (simp only: leaves.simps leaves_entries_append leaves_entries.simps Join_dot append_assoc append_Nil2)
  with json_perm_member [OF v'(1)] show ?case unfolding ms by blast
qed (auto intro: json_perm.same)

lemma claim_source_written:
  assumes "claim_source raw name t"
  shows "\<exists>order ls. visits order \<and> leaves_claims (entries (order (JObj raw))) = ls @ [(name, t)]"
proof -
  obtain k v path where k: "k \<notin> reserved" "(k, v) \<in> set raw" "scalar_at v path t"
    and n: "name = Join CHR ''.'' ((if k = Namespace then awsPrefix else k) # path)"
    using assms by (auto simp: claim_source_def scalar_member)
  obtain before after where raw: "raw = before @ (k, v) # after" using split_list [OF k(2)] by blast
  obtain v' ls where v': "json_perm v v'" "leaves (if k = Namespace then awsPrefix else k) v' = ls @ [(name, t)]"
    using scalar_written_last [OF k(3)] n by blast
  let ?raw' = "before @ after @ [(k, v')]"
  let ?order = "\<lambda>u. if u = JObj raw then JObj ?raw' else u"
  have "visits ?order" using json_perm_member [OF v'(1)] by (simp add: visits_def raw json_perm.same)
  moreover have "leaves_claims (entries (?order (JObj raw))) = (leaves_claims (before @ after) @ ls) @ [(name, t)]"
    using v'(2) k(1) by (simp add: leaves_claims_def entries_def)
  ultimately show ?thesis by blast
qed

lemma claim_values:
  assumes "decode_map payload = Some raw"
  shows "(\<exists>order i. visits order \<and> Parse order payload = Inr i \<and> Claim i name = Some t) \<longleftrightarrow> claim_source raw name t"
proof
  assume "claim_source raw name t"
  then obtain order ls where o: "visits order" "leaves_claims (entries (order (JObj raw))) = ls @ [(name, t)]"
    using claim_source_written by blast
  obtain i where i: "Parse order payload = Inr i" using assms by (simp add: Parse_def)
  then have "Claim i name = Some t" using o(2) by (simp add: Claim_Parse [OF i assms])
  with o(1) i show "\<exists>order i. visits order \<and> Parse order payload = Inr i \<and> Claim i name = Some t" by blast
qed (use Claim_source(1) assms in blast)

lemma Join_dots:
  "count_list (Join CHR ''.'' (k # path)) CHR ''.'' = length path + sum_list (map (\<lambda>q. count_list q CHR ''.'') (k # path))"
  by (induction path arbitrary: k) (simp_all add: count_list_append)

lemma aws_name_parts:
  assumes "CHR ''.'' \<notin> set x" and "''aws.'' @ x = Join CHR ''.'' (k # path)"
  shows "path = [] \<and> k = ''aws.'' @ x \<or> path = [x] \<and> k = ''aws''"
proof -
  have "length path + sum_list (map (\<lambda>q. count_list q CHR ''.'') (k # path)) = 1"
    using assms Join_dots [of k path] by (simp add: count_list_append count_list_0_iff flip: assms(2))
  then consider "path = []" | q where "path = [q]" "CHR ''.'' \<notin> set k"
    by (cases path; cases "tl path") (auto simp: count_list_0_iff)
  then show ?thesis
  proof cases
    case 2
    have "takeWhile ((\<noteq>) CHR ''.'') (''aws.'' @ x) = takeWhile ((\<noteq>) CHR ''.'') (k @ CHR ''.'' # q)"
      using assms(2) 2(1) by simp
    moreover have "takeWhile ((\<noteq>) CHR ''.'') k = k" using 2(2) by (auto simp: takeWhile_eq_all_conv)
    ultimately have "k = ''aws''" using 2(2) by (simp add: takeWhile_tail)
    then show ?thesis using assms(2) 2(1) by simp
  qed (use assms(2) in simp)
qed

lemma aws_name_sources:
  assumes "CHR ''.'' \<notin> set x"
  shows "claim_source raw (''aws.'' @ x) t \<longleftrightarrow>
    scalar_at (JObj raw) [''aws.'' @ x] t \<or> (\<exists>k \<in> {''aws'', Namespace}. scalar_at (JObj raw) [k, x] t)"
proof
  assume "claim_source raw (''aws.'' @ x) t"
  then obtain k path where k: "scalar_at (JObj raw) (k # path) t"
    and n: "''aws.'' @ x = Join CHR ''.'' ((if k = Namespace then awsPrefix else k) # path)"
    by (auto simp: claim_source_def)
  from aws_name_parts [OF assms n] show
    "scalar_at (JObj raw) [''aws.'' @ x] t \<or> (\<exists>k \<in> {''aws'', Namespace}. scalar_at (JObj raw) [k, x] t)"
    using k by (auto simp: awsPrefix_def split: if_splits)
next
  assume "scalar_at (JObj raw) [''aws.'' @ x] t \<or> (\<exists>k \<in> {''aws'', Namespace}. scalar_at (JObj raw) [k, x] t)"
  moreover have "claim_source raw (''aws.'' @ x) t" if "scalar_at (JObj raw) [''aws.'' @ x] t"
  proof -
    have "''aws.'' @ x \<notin> reserved \<and> ''aws.'' @ x \<noteq> Namespace" by (simp add: reserved_def Namespace_def)
    then show ?thesis using that unfolding claim_source_def
      by (intro exI [of _ "''aws.'' @ x"] exI [of _ "[]"]) simp
  qed
  moreover have "claim_source raw (''aws.'' @ x) t" if "k \<in> {''aws'', Namespace}" "scalar_at (JObj raw) [k, x] t" for k
  proof -
    have "k \<notin> reserved \<and> Join CHR ''.'' [if k = Namespace then awsPrefix else k, x] = ''aws.'' @ x"
      using that(1) by (auto simp: reserved_def Namespace_def awsPrefix_def)
    then show ?thesis using that(2) unfolding claim_source_def
      by (intro exI [of _ k] exI [of _ "[x]"]) simp
  qed
  ultimately show "claim_source raw (''aws.'' @ x) t" by blast
qed

section \<open>Properties\<close>

text \<open>
  C11. \<open>Parse\<close> puts into the claim map the scalars of the payload and nothing else. Whatever order
  the map is visited in: the value of a claim is a string, number or boolean of the payload, at a
  path whose first key is not a registered claim and whose dotted form is the claim's name, and a
  claim is missing only when the payload has no such scalar.
\<close>

theorem parse_claims_correct:
  assumes "visits order" and "Parse order payload = Inr i"
  shows "\<exists>raw. decode_map payload = Some raw
    \<and> (\<forall>name t. Claim i name = Some t \<longrightarrow> claim_source raw name t)
    \<and> (\<forall>name. Claim i name = None \<longleftrightarrow> (\<nexists>t. claim_source raw name t))"
proof -
  obtain raw where raw: "decode_map payload = Some raw" using assms(2) by (auto simp: Parse_Inr)
  show ?thesis using Claim_source [OF assms raw] raw by blast
qed

text \<open>A payload with a registered claim, a long number and the AWS object.\<close>

definition sample_payload :: string where
  "sample_payload =
     ''{\"sub\":\"s\",\"repository_id\":12345678901234567890,\"https://sts.amazonaws.com/\":{\"aws_account\":\"123456789012\"}}''"

lemma Parse_projr: "\<not> isl (Parse order p) \<Longrightarrow> Parse order p = Inr (projr (Parse order p))"
  by (cases "Parse order p") auto

theorem parse_claims_correct_witness:
  "\<exists>i raw. Parse backwards sample_payload = Inr i \<and> decode_map sample_payload = Some raw
     \<and> Claim i ''repository_id'' = Some ''12345678901234567890''
     \<and> claim_source raw ''repository_id'' ''12345678901234567890''
     \<and> (\<nexists>t. claim_source raw ''sub'' t)"
proof -
  let ?i = "projr (Parse backwards sample_payload)"
  have "\<not> isl (Parse backwards sample_payload)" by code_simp
  note p = Parse_projr [OF this]
  have c: "Claim ?i ''repository_id'' = Some ''12345678901234567890''" "Claim ?i ''sub'' = None"
    by code_simp+
  from parse_claims_correct [OF visits_backwards p] c p show ?thesis by metis
qed

text \<open>
  A claim on which the payload does not contradict itself does not depend on the order maps
  are visited in. If all the scalars of the payload that flatten to a name are equal, every two
  runs of \<open>Parse\<close> give the name the same value, and it is that scalar; so a policy decision over
  such claims is deterministic.
\<close>

theorem parse_order_irrelevant:
  assumes "visits order" and "visits order'"
    and "Parse order payload = Inr i" and "Parse order' payload = Inr i'"
    and "decode_map payload = Some raw"
    and "\<forall>t t'. claim_source raw name t \<and> claim_source raw name t' \<longrightarrow> t = t'"
  shows "Claim i name = Claim i' name \<and> (\<forall>t. Claim i name = Some t \<longleftrightarrow> claim_source raw name t)"
proof -
  have "Claim j name = Some t \<longleftrightarrow> claim_source raw name t"
    if "visits ord" "Parse ord payload = Inr j" for ord j t
    using Claim_source [OF that assms(5)] assms(6) by (metis not_None_eq)
  then show ?thesis using assms(1-4) by (metis option.exhaust)
qed

text \<open>The scalars a name stands for, listed: how a witness evaluates \<open>claim_source\<close>.\<close>

lemma claim_source_code: "claim_source raw n t \<longleftrightarrow> (n, t) \<in> set (leaves_claims raw)"
  by (simp add: leaves_claims_source)

theorem parse_order_irrelevant_witness:
  "\<exists>i i'. Parse (\<lambda>v. v) sample_payload = Inr i \<and> Parse backwards sample_payload = Inr i'
     \<and> Claim i ''aws.aws_account'' = Claim i' ''aws.aws_account''
     \<and> Claim i ''aws.aws_account'' = Some ''123456789012''"
proof -
  let ?i = "projr (Parse (\<lambda>v. v) sample_payload)" and ?i' = "projr (Parse backwards sample_payload)"
  let ?raw = "the (decode_map sample_payload)"
  have "\<not> isl (Parse (\<lambda>v. v) sample_payload)" by code_simp
  note p = Parse_projr [OF this]
  have "\<not> isl (Parse backwards sample_payload)" by code_simp
  note p' = Parse_projr [OF this]
  have "leaves_claims ?raw
      = [(''repository_id'', ''12345678901234567890''), (''aws.aws_account'', ''123456789012'')]"
    by code_simp
  then have src: "claim_source ?raw ''aws.aws_account'' t \<longleftrightarrow> t = ''123456789012''" for t
    by (simp add: claim_source_code)
  have raw: "decode_map sample_payload = Some ?raw" using p by (auto simp: Parse_Inr)
  have "Claim ?i ''aws.aws_account'' = Claim ?i' ''aws.aws_account''
      \<and> (\<forall>t. Claim ?i ''aws.aws_account'' = Some t \<longleftrightarrow> claim_source ?raw ''aws.aws_account'' t)"
    by (rule parse_order_irrelevant [OF visits_id visits_backwards p p' raw]) (simp add: src)
  then show ?thesis using p p' src by blast
qed

text \<open>
  The registered claims never reach the claim map, so that a rule can match the issuer, the
  subject and the rest only through the fields the verifier filled in. This holds for every payload
  and every visiting order, and no nested key can spell such a name.
\<close>

theorem reserved_claims_excluded:
  assumes "Parse order payload = Inr i" and "name \<in> reserved"
  shows "Claim i name = None"
proof -
  obtain raw where raw: "decode_map payload = Some raw" using assms(1) by (auto simp: Parse_Inr)
  have "name \<notin> fst ` set (leaves_claims (entries (order (JObj raw))))"
    using assms(2) claim_source_not_reserved by (auto simp: leaves_claims_source)
  then show ?thesis using Claim_Parse [OF assms(1) raw] by (simp add: map_of_eq_None_iff)
qed

theorem reserved_claims_excluded_witness:
  "\<exists>i. Parse (\<lambda>v. v) sample_payload = Inr i \<and> Claim i ''sub'' = None"
proof -
  have "\<not> isl (Parse (\<lambda>v. v) sample_payload)" by code_simp
  from Parse_projr [OF this] show ?thesis
    using reserved_claims_excluded [of "\<lambda>v. v" sample_payload _ "''sub''"] by (auto simp: reserved_def)
qed

lemma aws_claim_source:
  assumes "\<forall>k \<in> fst ` set raw. k \<noteq> ''aws'' \<and> \<not> HasPrefix k ''aws.''"
    and "claim_source raw (''aws.'' @ x) t"
  shows "\<exists>path. scalar_at (JObj raw) (Namespace # path) t \<and> ''aws.'' @ x = Join CHR ''.'' (awsPrefix # path)"
proof -
  obtain k path where s: "scalar_at (JObj raw) (k # path) t"
    and n: "''aws.'' @ x = Join CHR ''.'' ((if k = Namespace then awsPrefix else k) # path)"
    using assms(2) by (auto simp: claim_source_def)
  have k: "k \<in> fst ` set raw" using s by (force simp: scalar_member)
  have "k = Namespace"
  proof (rule ccontr)
    assume "k \<noteq> Namespace"
    then have e: "''aws.'' @ x = Join CHR ''.'' (k # path)" using n by simp
    show False
    proof (cases path)
      case Nil
      then have "HasPrefix k ''aws.''" using e [symmetric] by (simp add: HasPrefix_def)
      with k assms(1) show False by blast
    next
      case (Cons p ps)
      then have "k @ CHR ''.'' # Join CHR ''.'' (p # ps) = ''aws.'' @ x" using e by simp
      then show False using aws_prefix_cases k assms(1) by blast
    qed
  qed
  with s n show ?thesis by auto
qed

text \<open>
  What the \<open>aws.\<close> prefix guarantees. If no top-level claim of the payload is named \<open>aws\<close> or
  starts with \<open>aws.\<close>, every claim whose name starts with \<open>aws.\<close> is a scalar of the object under
  the AWS namespace, at the path its name spells.
\<close>

theorem aws_claims_from_namespace:
  assumes "visits order" and "Parse order payload = Inr i" and "decode_map payload = Some raw"
    and "\<forall>k \<in> fst ` set raw. k \<noteq> ''aws'' \<and> \<not> HasPrefix k ''aws.''"
    and "Claim i (''aws.'' @ x) = Some t"
  shows "\<exists>path. scalar_at (JObj raw) (Namespace # path) t \<and> ''aws.'' @ x = Join CHR ''.'' (awsPrefix # path)"
  using aws_claim_source [OF assms(4) Claim_source(1) [OF assms(1-3,5)]] .

theorem aws_claims_from_namespace_witness:
  "\<exists>path. scalar_at (JObj (the (decode_map sample_payload))) (Namespace # path) ''123456789012''"
proof -
  have "\<not> isl (Parse (\<lambda>v. v) sample_payload)" by code_simp
  note p = Parse_projr [OF this]
  have raw: "decode_map sample_payload = Some (the (decode_map sample_payload))"
    using p by (auto simp: Parse_Inr)
  have k: "\<forall>k \<in> fst ` set (the (decode_map sample_payload)). k \<noteq> ''aws'' \<and> \<not> HasPrefix k ''aws.''"
    by code_simp
  have "Claim (projr (Parse (\<lambda>v. v) sample_payload)) (''aws.'' @ ''aws_account'') = Some ''123456789012''"
    by code_simp
  from aws_claims_from_namespace [OF visits_id p raw k this] show ?thesis by blast
qed



end
