(* ===== verification/Cel.thy ===== *)
theory Cel
  imports Identity
begin

text \<open>
  \<open>internal/authz/cel.go\<close>: the CEL environment, the compilation of an expression and its
  evaluation against an identity. The CEL library itself is a parameter, the record \<open>cel_api\<close> of
  the calls the code makes: an environment from a list of variable declarations, the compilation
  of an expression and the type of the result, a program from a compiled expression and options,
  and the evaluation of a program with the values of the variables. What evaluation returns
  besides a Boolean is of no consequence to the code.
\<close>

datatype cel_type =
    StringType
  | BoolType
  | TimestampType
  | ListType cel_type
  | MapType cel_type cel_type
  | OtherType string

datatype program_option = EvalOptionOptimize | CostLimit "64 word"

datatype cel_value = CelBool bool | CelOther

record activation =
  act_sub :: string
  act_iss :: string
  act_aud :: "string list"
  act_claims :: "string gomap"
  act_exp :: time
  act_now :: time

record ('env, 'ast, 'prg) cel_api =
  NewEnv :: "(string \<times> cel_type) list \<Rightarrow> string + 'env"
  env_Compile :: "'env \<Rightarrow> string \<Rightarrow> string + 'ast"
  OutputType :: "'ast \<Rightarrow> cel_type"
  env_Program :: "'env \<Rightarrow> 'ast \<Rightarrow> program_option list \<Rightarrow> string + 'prg"
  prg_Eval :: "'prg \<Rightarrow> activation \<Rightarrow> string + cel_value"

datatype cel_error =
    InvalidCELExpr string
  | ExprNotBool cel_type
  | CompileCELProgram string

definition celCostLimit :: "64 word" where
  "celCostLimit = 1000000"

definition newCELEnv :: "('env, 'ast, 'prg) cel_api \<Rightarrow> string + 'env" where
  "newCELEnv cel = NewEnv cel
     [(''sub'', StringType), (''iss'', StringType), (''aud'', ListType StringType),
      (''claims'', MapType StringType StringType), (''exp'', TimestampType), (''now'', TimestampType)]"

definition compileCELProgram :: "('env, 'ast, 'prg) cel_api \<Rightarrow> 'env \<Rightarrow> string \<Rightarrow> cel_error + 'prg" where
  "compileCELProgram cel env expr =
     (case env_Compile cel env expr of
        Inl e \<Rightarrow> Inl (InvalidCELExpr e)
      | Inr ast \<Rightarrow>
          if OutputType cel ast \<noteq> BoolType then Inl (ExprNotBool (OutputType cel ast))
          else (case env_Program cel env ast [EvalOptionOptimize, CostLimit celCostLimit] of
                  Inl e \<Rightarrow> Inl (CompileCELProgram e)
                | Inr prg \<Rightarrow> Inr prg))"

text \<open>The values of the variables; \<open>now\<close> is the reading of the clock.\<close>

definition activation_of :: "identity \<Rightarrow> time \<Rightarrow> activation" where
  "activation_of i now =
     \<lparr>act_sub = Subject i, act_iss = Issuer i, act_aud = Audience i, act_claims = Claims i,
      act_exp = Expiry i, act_now = now\<rparr>"

definition evalCEL :: "('env, 'ast, 'prg) cel_api \<Rightarrow> time \<Rightarrow> 'prg \<Rightarrow> identity \<Rightarrow> bool" where
  "evalCEL cel now prg i =
     (case prg_Eval cel prg (activation_of i now) of
        Inl _ \<Rightarrow> False
      | Inr v \<Rightarrow> (case v of CelBool b \<Rightarrow> b | CelOther \<Rightarrow> False))"

lemma evalCEL_iff [fail_closed]:
  "evalCEL cel now prg i \<longleftrightarrow> prg_Eval cel prg (activation_of i now) = Inr (CelBool True)"
  by (auto simp: evalCEL_def split: sum.splits cel_value.splits)

lemma compileCELProgram_Inr:
  "compileCELProgram cel env expr = Inr prg \<longleftrightarrow>
     (\<exists>ast. env_Compile cel env expr = Inr ast \<and> OutputType cel ast = BoolType
        \<and> env_Program cel env ast [EvalOptionOptimize, CostLimit celCostLimit] = Inr prg)"
  by (auto simp: compileCELProgram_def split: sum.splits)

end
