(* ===== verification/Regexp.thy ===== *)
theory Regexp
  imports Utf8
begin

text \<open>
  Go's package \<open>regexp\<close> as the policy uses it: \<open>QuoteMeta\<close>, the syntax accepted by \<open>Compile\<close>
  (literals, escapes, \<open>.\<close>, classes, groups, alternation, the repetition operators and their
  non-greedy forms, \<open>^\<close>, \<open>$\<close>, \<open>\z\<close>, \<open>\A\<close>, \<open>\b\<close>, \<open>\B\<close>), and the leftmost-first search of
  \<open>FindStringIndex\<close> and \<open>MatchString\<close>. The rest of the syntax (flags, named groups, counted
  repetition, Unicode and POSIX classes, octal and hexadecimal escapes) is left to a parameter
  of the model; the size and nesting limits of the compiler are not modelled.

  A search runs over the runes of the subject; a position is an index into them and is turned
  into a byte offset, as the Go functions return it, at the end.
\<close>

section \<open>Expressions and leftmost-first search\<close>

datatype regex =
    REmpty
  | RLit nat
  | RAny                                  \<comment> \<open>any rune but newline\<close>
  | RClass bool "(nat \<times> nat) list"        \<comment> \<open>negated?, ranges\<close>
  | RBegin | REnd                         \<comment> \<open>beginning and end of the text\<close>
  | RWord bool                            \<comment> \<open>word boundary, or (False) no word boundary\<close>
  | RCat regex regex
  | RAlt regex regex
  | RStar bool regex                      \<comment> \<open>the flag: greedy\<close>
  | RPlus bool regex
  | RQuest bool regex
  | RTimes nat regex                      \<comment> \<open>an exact number of repetitions\<close>

definition in_class :: "bool \<Rightarrow> (nat \<times> nat) list \<Rightarrow> nat \<Rightarrow> bool" where
  "in_class neg rs c \<longleftrightarrow> list_ex (\<lambda>(lo, hi). lo \<le> c \<and> c \<le> hi) rs \<noteq> neg"

definition word_ranges :: "(nat \<times> nat) list" where
  "word_ranges = [(48, 57), (65, 90), (95, 95), (97, 122)]"

definition word_at :: "nat list \<Rightarrow> nat \<Rightarrow> bool" where
  "word_at s i \<longleftrightarrow> i < length s \<and> in_class False word_ranges (s ! i)"

definition word_boundary :: "nat list \<Rightarrow> nat \<Rightarrow> bool" where
  "word_boundary s i \<longleftrightarrow> (0 < i \<and> word_at s (i - 1)) \<noteq> word_at s i"

text \<open>Whether an expression can match without consuming, as the compiler computes it.\<close>

fun nullable :: "regex \<Rightarrow> bool" where
  "nullable REmpty = True"
| "nullable (RLit _) = False"
| "nullable RAny = False"
| "nullable (RClass _ _) = False"
| "nullable RBegin = True"
| "nullable REnd = True"
| "nullable (RWord _) = True"
| "nullable (RCat a b) \<longleftrightarrow> nullable a \<and> nullable b"
| "nullable (RAlt a b) \<longleftrightarrow> nullable a \<or> nullable b"
| "nullable (RStar _ _) = True"
| "nullable (RPlus _ a) = nullable a"
| "nullable (RQuest _ _) = True"
| "nullable (RTimes n a) \<longleftrightarrow> n = 0 \<or> nullable a"

text \<open>
  The loop of a repetition at position \<open>q\<close>: run the body again where it makes progress, or
  leave; greedy prefers the former. The fuel is the number of runes left, each turn uses one.
\<close>

fun rloop :: "(nat \<Rightarrow> nat list) \<Rightarrow> bool \<Rightarrow> nat \<Rightarrow> nat \<Rightarrow> nat list" where
  "rloop body g 0 q = [q]"
| "rloop body g (Suc f) q =
     (let again = concat (map (rloop body g f) (filter (\<lambda>r. q < r) (body q)))
      in if g then again @ [q] else q # again)"

definition rplus :: "(nat \<Rightarrow> nat list) \<Rightarrow> bool \<Rightarrow> nat \<Rightarrow> nat \<Rightarrow> nat list" where
  "rplus body g n i = concat (map (\<lambda>r. if r = i then [i] else rloop body g (n - r) r) (body i))"

fun rtimes :: "(nat \<Rightarrow> nat list) \<Rightarrow> nat \<Rightarrow> nat \<Rightarrow> nat list" where
  "rtimes body 0 i = [i]"
| "rtimes body (Suc n) i = concat (map (rtimes body n) (body i))"

definition one_rune :: "nat list \<Rightarrow> (nat \<Rightarrow> bool) \<Rightarrow> nat \<Rightarrow> nat list" where
  "one_rune s P i = (if i < length s \<and> P (s ! i) then [Suc i] else [])"

text \<open>
  \<open>ends r s i\<close>: the positions at which a match of \<open>r\<close> begun at \<open>i\<close> can end, the preferred
  first.
\<close>

fun ends :: "regex \<Rightarrow> nat list \<Rightarrow> nat \<Rightarrow> nat list" where
  "ends REmpty s i = [i]"
| "ends (RLit c) s i = one_rune s (\<lambda>d. d = c) i"
| "ends RAny s i = one_rune s (\<lambda>d. d \<noteq> 10) i"
| "ends (RClass neg rs) s i = one_rune s (in_class neg rs) i"
| "ends RBegin s i = (if i = 0 then [i] else [])"
| "ends REnd s i = (if i = length s then [i] else [])"
| "ends (RWord b) s i = (if word_boundary s i = b then [i] else [])"
| "ends (RCat a b) s i = concat (map (ends b s) (ends a s i))"
| "ends (RAlt a b) s i = ends a s i @ ends b s i"
| "ends (RStar g a) s i =
     (if nullable a
      then (if g then rplus (ends a s) g (length s) i @ [i] else i # rplus (ends a s) g (length s) i)
      else rloop (ends a s) g (length s - i) i)"
| "ends (RPlus g a) s i = rplus (ends a s) g (length s) i"
| "ends (RQuest g a) s i = (if g then ends a s i @ [i] else i # ends a s i)"
| "ends (RTimes n a) s i = rtimes (ends a s) n i"

text \<open>The leftmost match: the first position from \<open>i\<close> on where the expression matches.\<close>

fun search :: "regex \<Rightarrow> nat list \<Rightarrow> nat \<Rightarrow> nat \<Rightarrow> (nat \<times> nat) option" where
  "search r s i 0 = (case ends r s i of [] \<Rightarrow> None | j # _ \<Rightarrow> Some (i, j))"
| "search r s i (Suc k) =
     (case ends r s i of [] \<Rightarrow> search r s (Suc i) k | j # _ \<Rightarrow> Some (i, j))"

definition byte_offset :: "string \<Rightarrow> nat \<Rightarrow> nat" where
  "byte_offset s i = sum_list (map snd (take i (decode s)))"

definition FindStringIndex :: "regex \<Rightarrow> string \<Rightarrow> (nat \<times> nat) option" where
  "FindStringIndex r s =
     map_option (\<lambda>(i, j). (byte_offset s i, byte_offset s j))
       (search r (runes s) 0 (length (runes s)))"

definition MatchString :: "regex \<Rightarrow> string \<Rightarrow> bool" where
  "MatchString r s \<longleftrightarrow> search r (runes s) 0 (length (runes s)) \<noteq> None"

section \<open>What a match is\<close>

text \<open>\<open>matches s r i j\<close>: the runes \<open>i..j\<close> of the text \<open>s\<close> are in the language of \<open>r\<close>.\<close>

inductive matches :: "nat list \<Rightarrow> regex \<Rightarrow> nat \<Rightarrow> nat \<Rightarrow> bool" for s :: "nat list" where
  m_empty: "matches s REmpty i i"
| m_lit: "i < length s \<Longrightarrow> s ! i = c \<Longrightarrow> matches s (RLit c) i (Suc i)"
| m_any: "i < length s \<Longrightarrow> s ! i \<noteq> 10 \<Longrightarrow> matches s RAny i (Suc i)"
| m_class: "i < length s \<Longrightarrow> in_class neg rs (s ! i) \<Longrightarrow> matches s (RClass neg rs) i (Suc i)"
| m_begin: "matches s RBegin 0 0"
| m_end: "matches s REnd (length s) (length s)"
| m_word: "word_boundary s i = b \<Longrightarrow> matches s (RWord b) i i"
| m_cat: "matches s a i j \<Longrightarrow> matches s b j k \<Longrightarrow> matches s (RCat a b) i k"
| m_alt1: "matches s a i j \<Longrightarrow> matches s (RAlt a b) i j"
| m_alt2: "matches s b i j \<Longrightarrow> matches s (RAlt a b) i j"
| m_star0: "matches s (RStar g a) i i"
| m_star1: "matches s a i j \<Longrightarrow> matches s (RStar g a) j k \<Longrightarrow> matches s (RStar g a) i k"
| m_plus: "matches s a i j \<Longrightarrow> matches s (RStar g a) j k \<Longrightarrow> matches s (RPlus g a) i k"
| m_quest0: "matches s (RQuest g a) i i"
| m_quest1: "matches s a i j \<Longrightarrow> matches s (RQuest g a) i j"
| m_times0: "matches s (RTimes 0 a) i i"
| m_times1: "matches s a i j \<Longrightarrow> matches s (RTimes n a) j k \<Longrightarrow> matches s (RTimes (Suc n) a) i k"

inductive_cases matches_elims:
  "matches s REmpty i j"
  "matches s (RLit c) i j"
  "matches s RAny i j"
  "matches s (RClass neg rs) i j"
  "matches s RBegin i j"
  "matches s REnd i j"
  "matches s (RWord b) i j"
  "matches s (RCat a b) i j"
  "matches s (RAlt a b) i j"
  "matches s (RPlus g a) i j"
  "matches s (RQuest g a) i j"

inductive_simps matches_simps [simp]:
  "matches s REmpty i j"
  "matches s (RLit c) i j"
  "matches s RAny i j"
  "matches s (RClass neg rs) i j"
  "matches s RBegin i j"
  "matches s REnd i j"
  "matches s (RWord b) i j"
  "matches s (RCat a b) i j"
  "matches s (RAlt a b) i j"
  "matches s (RPlus g a) i j"
  "matches s (RQuest g a) i j"
  "matches s (RTimes 0 a) i j"
  "matches s (RTimes (Suc n) a) i j"

lemma matches_bounds: "matches s r i j \<Longrightarrow> i \<le> length s \<Longrightarrow> i \<le> j \<and> j \<le> length s"
  by (induction rule: matches.induct) auto

section \<open>The search finds exactly the matches\<close>

lemma matches_star_iff: "matches s (RStar g a) i j \<longleftrightarrow> (matches s a)\<^sup>*\<^sup>* i j"
proof
  have "matches s r i j \<Longrightarrow> r = RStar g a \<Longrightarrow> (matches s a)\<^sup>*\<^sup>* i j" for r
    by (induction rule: matches.induct) (auto intro: converse_rtranclp_into_rtranclp)
  then show "matches s (RStar g a) i j \<Longrightarrow> (matches s a)\<^sup>*\<^sup>* i j" by blast
  show "(matches s a)\<^sup>*\<^sup>* i j \<Longrightarrow> matches s (RStar g a) i j"
    by (induction rule: converse_rtranclp_induct) (auto intro: m_star0 m_star1)
qed

lemma rtranclp_progress: "B\<^sup>*\<^sup>* q r \<Longrightarrow> r \<noteq> q \<Longrightarrow> \<exists>m. B q m \<and> m \<noteq> q \<and> B\<^sup>*\<^sup>* m r"
proof (induction rule: converse_rtranclp_induct)
  case base
  then show ?case by simp
next
  case (step y z)
  show ?case
  proof (cases "y = z")
    case True
    with step show ?thesis by auto
  next
    case False
    with step show ?thesis by blast
  qed
qed

lemma rtranclp_bounds:
  assumes "\<And>q r. B q r \<Longrightarrow> q \<le> n \<Longrightarrow> q \<le> r \<and> r \<le> n"
  shows "B\<^sup>*\<^sup>* q r \<Longrightarrow> q \<le> n \<Longrightarrow> q \<le> r \<and> r \<le> (n::nat)"
  by (induction rule: rtranclp_induct) (use assms order_trans in blast)+

lemma set_rloop:
  assumes body: "\<And>q. q \<le> n \<Longrightarrow> set (body q) = {r. B q r}"
    and prog: "\<And>q r. B q r \<Longrightarrow> q \<le> n \<Longrightarrow> q \<le> r \<and> r \<le> n"
  shows "q \<le> n \<Longrightarrow> n - q \<le> f \<Longrightarrow> set (rloop body g f q) = {r. B\<^sup>*\<^sup>* q r}"
proof (induction f arbitrary: q)
  case 0
  then have "B\<^sup>*\<^sup>* q r \<longleftrightarrow> r = q" for r
    using rtranclp_bounds [where B = B and n = n, OF prog, of q r] by auto
  then show ?case by auto
next
  case (Suc f)
  have IH: "set (rloop body g f m) = {r. B\<^sup>*\<^sup>* m r}" if "B q m" "q < m" for m
    using that Suc prog [of q m] by auto
  have "set (rloop body g (Suc f) q) =
      {q} \<union> (\<Union>m \<in> {m. B q m \<and> q < m}. set (rloop body g f m))"
    using body [of q] Suc.prems by (auto simp: Let_def)
  also have "\<dots> = {q} \<union> (\<Union>m \<in> {m. B q m \<and> q < m}. {r. B\<^sup>*\<^sup>* m r})"
    using IH by auto
  also have "\<dots> = {r. B\<^sup>*\<^sup>* q r}"
  proof (intro set_eqI iffI)
    fix r assume "r \<in> {q} \<union> (\<Union>m \<in> {m. B q m \<and> q < m}. {r. B\<^sup>*\<^sup>* m r})"
    then show "r \<in> {r. B\<^sup>*\<^sup>* q r}" by (auto intro: converse_rtranclp_into_rtranclp)
  next
    fix r assume "r \<in> {r. B\<^sup>*\<^sup>* q r}"
    then show "r \<in> {q} \<union> (\<Union>m \<in> {m. B q m \<and> q < m}. {r. B\<^sup>*\<^sup>* m r})"
      using rtranclp_progress [of B q r] prog Suc.prems by (auto simp: le_less)
  qed
  finally show ?case .
qed

lemma set_rplus:
  assumes body: "\<And>q. q \<le> n \<Longrightarrow> set (body q) = {r. B q r}"
    and prog: "\<And>q r. B q r \<Longrightarrow> q \<le> n \<Longrightarrow> q \<le> r \<and> r \<le> n"
    and i: "i \<le> n"
  shows "set (rplus body g n i) = {r. \<exists>m. B i m \<and> B\<^sup>*\<^sup>* m r}"
proof -
  have l: "set (rloop body g (n - m) m) = {r. B\<^sup>*\<^sup>* m r}" if "B i m" for m
  proof (rule set_rloop [where n = n])
    show "m \<le> n" using prog [OF that i] by simp
  qed (use body prog in auto)
  have "set (rplus body g n i) =
      (\<Union>m \<in> {m. B i m}. if m = i then {i} else {r. B\<^sup>*\<^sup>* m r})"
    using body [OF i] l by (auto simp: rplus_def)
  also have "\<dots> = {r. \<exists>m. B i m \<and> B\<^sup>*\<^sup>* m r}"
  proof (intro set_eqI iffI)
    fix r assume "r \<in> (\<Union>m \<in> {m. B i m}. if m = i then {i} else {r. B\<^sup>*\<^sup>* m r})"
    then show "r \<in> {r. \<exists>m. B i m \<and> B\<^sup>*\<^sup>* m r}" by (auto split: if_splits)
  next
    fix r assume "r \<in> {r. \<exists>m. B i m \<and> B\<^sup>*\<^sup>* m r}"
    then obtain m where m: "B i m" "B\<^sup>*\<^sup>* m r" by blast
    show "r \<in> (\<Union>m \<in> {m. B i m}. if m = i then {i} else {r. B\<^sup>*\<^sup>* m r})"
    proof (cases "m = i \<and> r \<noteq> i")
      case True
      with m rtranclp_progress [of B i r] obtain k where "B i k" "k \<noteq> i" "B\<^sup>*\<^sup>* k r" by blast
      then show ?thesis by auto
    next
      case False
      with m show ?thesis by auto
    qed
  qed
  finally show ?thesis .
qed

theorem set_ends: "i \<le> length s \<Longrightarrow> set (ends r s i) = {j. matches s r i j}"
proof (induction r arbitrary: i)
  case (RCat a b)
  then have "set (ends (RCat a b) s i) = (\<Union>j \<in> {j. matches s a i j}. set (ends b s j))" by simp
  also have "\<dots> = (\<Union>j \<in> {j. matches s a i j}. {k. matches s b j k})"
    using RCat matches_bounds by auto
  finally show ?case by auto
next
  case (RStar g a)
  have p: "\<And>q r. matches s a q r \<Longrightarrow> q \<le> length s \<Longrightarrow> q \<le> r \<and> r \<le> length s"
    by (rule matches_bounds)
  have e: "insert i {r. \<exists>m. matches s a i m \<and> (matches s a)\<^sup>*\<^sup>* m r}
      = {r. (matches s a)\<^sup>*\<^sup>* i r}"
    by (auto intro: converse_rtranclp_into_rtranclp elim: converse_rtranclpE)
  then show ?case
    using set_rplus [where B = "matches s a", OF RStar.IH p RStar.prems, where g = g]
      set_rloop [where B = "matches s a", OF RStar.IH p RStar.prems, where f = "length s - i" and g = g]
    by (cases g) (simp_all add: matches_star_iff e)
next
  case (RPlus g a)
  have p: "\<And>q r. matches s a q r \<Longrightarrow> q \<le> length s \<Longrightarrow> q \<le> r \<and> r \<le> length s"
    by (rule matches_bounds)
  show ?case
    using set_rplus [where B = "matches s a", OF RPlus.IH p RPlus.prems, where g = g]
    by (auto simp: matches_star_iff)
next
  case (RTimes n a)
  have "set (rtimes (ends a s) m k) = {j. matches s (RTimes m a) k j}" if "k \<le> length s" for m k
    using that
  proof (induction m arbitrary: k)
    case (Suc m)
    then have "set (rtimes (ends a s) (Suc m) k)
        = (\<Union>j \<in> {j. matches s a k j}. {i. matches s (RTimes m a) j i})"
      using RTimes.IH [of k] matches_bounds [of s a k] by auto
    then show ?case by auto
  qed auto
  with RTimes.prems show ?case by simp
qed (auto simp: one_rune_def)

lemma search_Some:
  assumes "search r s i k = Some (a, b)" and "i + k \<le> length s"
  shows "i \<le> a \<and> a \<le> i + k \<and> matches s r a b"
  using assms
proof (induction k arbitrary: i)
  case 0
  then show ?case using set_ends [of i s r] by (auto split: list.splits)
next
  case (Suc k)
  show ?case
  proof (cases "ends r s i")
    case Nil
    with Suc show ?thesis by fastforce
  next
    case (Cons j js)
    with Suc.prems set_ends [of i s r] show ?thesis by auto
  qed
qed

lemma search_None:
  assumes "search r s i k = None" and "i + k \<le> length s" and "i \<le> a" and "a \<le> i + k"
  shows "\<not> matches s r a b"
  using assms
proof (induction k arbitrary: i)
  case 0
  then have "ends r s i = []" by (auto split: list.splits)
  with 0 set_ends [of i s r] show ?case by auto
next
  case (Suc k)
  then have e: "ends r s i = []" and n: "search r s (Suc i) k = None" by (auto split: list.splits)
  show ?case
  proof (cases "a = i")
    case True
    with e Suc.prems set_ends [of i s r] show ?thesis by auto
  next
    case False
    with Suc n show ?thesis by auto
  qed
qed

lemma search_first: "search r s i k = Some (i, b) \<Longrightarrow> \<exists>js. ends r s i = b # js"
proof (cases k)
  case (Suc m)
  assume a: "search r s i k = Some (i, b)"
  have "search r s (Suc i) m \<noteq> Some (i, b)"
  proof -
    have "search r s j m = Some (x, y) \<Longrightarrow> j \<le> x" for j x y
    proof (induction m arbitrary: j)
      case 0
      then show ?case by (auto split: list.splits)
    next
      case (Suc m)
      then show ?case by (auto split: list.splits) fastforce
    qed
    then show ?thesis by fastforce
  qed
  with a Suc show ?thesis by (auto split: list.splits)
qed (auto split: list.splits)

text \<open>A string matches somewhere iff the search finds it.\<close>

lemma MatchString_iff:
  "MatchString r s \<longleftrightarrow> (\<exists>i j. i \<le> length (runes s) \<and> matches (runes s) r i j)"
proof
  assume "MatchString r s"
  then obtain a b where "search r (runes s) 0 (length (runes s)) = Some (a, b)"
    by (auto simp: MatchString_def)
  from search_Some [OF this] show "\<exists>i j. i \<le> length (runes s) \<and> matches (runes s) r i j" by auto
next
  assume "\<exists>i j. i \<le> length (runes s) \<and> matches (runes s) r i j"
  then show "MatchString r s"
    using search_None [of r "runes s" 0 "length (runes s)"] by (force simp: MatchString_def)
qed

end
