(* ===== verification/RegexpSyntax.thy ===== *)
theory RegexpSyntax
  imports Regexp
begin

text \<open>
  The concrete syntax of \<open>regexp\<close>: \<open>QuoteMeta\<close> and \<open>Compile\<close>. A pattern is cut into tokens and
  the tokens are parsed with a stack of open groups, as \<open>regexp/syntax\<close> does. Syntax outside the
  modelled fragment has the outcome \<open>Unmodelled\<close>, and \<open>Compile\<close> hands it to a parameter.
\<close>

section \<open>Tokens\<close>

datatype 'a outcome = Parsed 'a | Malformed | Unmodelled

primrec outcome_map :: "('a \<Rightarrow> 'b) \<Rightarrow> 'a outcome \<Rightarrow> 'b outcome" where
  "outcome_map f (Parsed a) = Parsed (f a)"
| "outcome_map f Malformed = Malformed"
| "outcome_map f Unmodelled = Unmodelled"

datatype rep = Star | Plus | Quest

datatype rtok = KAtom regex | KRep rep bool | KTimes nat | KOpen | KClose | KAlt

fun rep_regex :: "rep \<Rightarrow> bool \<Rightarrow> regex \<Rightarrow> regex" where
  "rep_regex Star g r = RStar g r"
| "rep_regex Plus g r = RPlus g r"
| "rep_regex Quest g r = RQuest g r"

text \<open>The metacharacters, which \<open>QuoteMeta\<close> escapes: \<open>\.+*?()|[]{}^$\<close>.\<close>

definition metas :: "nat list" where
  "metas = [92, 46, 43, 42, 63, 40, 41, 124, 91, 93, 123, 125, 94, 36]"

definition alnum :: "nat \<Rightarrow> bool" where
  "alnum c \<longleftrightarrow> 48 \<le> c \<and> c \<le> 57 \<or> 65 \<le> c \<and> c \<le> 90 \<or> 97 \<le> c \<and> c \<le> 122"

definition digit_ranges :: "(nat \<times> nat) list" where
  "digit_ranges = [(48, 57)]"

definition space_ranges :: "(nat \<times> nat) list" where
  "space_ranges = [(9, 10), (12, 13), (32, 32)]"

definition perl_class :: "nat \<Rightarrow> (bool \<times> (nat \<times> nat) list) option" where
  "perl_class c =
     (if c = 100 then Some (False, digit_ranges) else if c = 68 then Some (True, digit_ranges)
      else if c = 115 then Some (False, space_ranges) else if c = 83 then Some (True, space_ranges)
      else if c = 119 then Some (False, word_ranges) else if c = 87 then Some (True, word_ranges)
      else None)"

text \<open>The escape \<open>\c\<close> outside a class: punctuation stands for itself.\<close>

definition escape :: "nat \<Rightarrow> regex outcome" where
  "escape c =
     (if 128 \<le> c then Malformed
      else if \<not> alnum c then Parsed (RLit c)
      else if c = 98 then Parsed (RWord True) else if c = 66 then Parsed (RWord False)
      else if c = 65 then Parsed RBegin else if c = 122 then Parsed REnd
      else if c = 110 then Parsed (RLit 10) else if c = 116 then Parsed (RLit 9)
      else if c = 114 then Parsed (RLit 13)
      else (case perl_class c of Some (n, rs) \<Rightarrow> Parsed (RClass n rs) | None \<Rightarrow> Unmodelled))"

text \<open>The items of a class after \<open>[\<close> or \<open>[^\<close>, up to the closing bracket.\<close>

fun class_items :: "bool \<Rightarrow> nat list \<Rightarrow> ((nat \<times> nat) list \<times> nat list) outcome" where
  "class_items first [] = Malformed"
| "class_items first (c # cs) =
     (if c = 93 \<and> \<not> first then Parsed ([], cs)
      else if c = 91 \<or> c = 92 then Unmodelled
      else (case cs of
              d # h # hs \<Rightarrow>
                if d = 45 \<and> h \<noteq> 93
                then if h = 91 \<or> h = 92 then Unmodelled
                     else if h < c then Malformed
                     else outcome_map (\<lambda>(rs, rest). ((c, h) # rs, rest)) (class_items False hs)
                else outcome_map (\<lambda>(rs, rest). ((c, c) # rs, rest)) (class_items False cs)
            | _ \<Rightarrow> outcome_map (\<lambda>(rs, rest). ((c, c) # rs, rest)) (class_items False cs)))"

lemma outcome_map_Parsed:
  "outcome_map f x = Parsed y \<longleftrightarrow> (\<exists>z. x = Parsed z \<and> y = f z)"
  by (cases x) auto

lemma outcome_map_item:
  "outcome_map (\<lambda>(rs, rest). (f rs, rest)) x = Parsed (rs', rest') \<longleftrightarrow>
   (\<exists>rs. x = Parsed (rs, rest') \<and> rs' = f rs)"
  by (cases x) auto

lemma class_items_Parsed:
  assumes "class_items first (c # cs) = Parsed (rs, rest)"
  shows "rest = cs \<or> (\<exists>ds rs'. length ds \<le> length cs \<and> class_items False ds = Parsed (rs', rest))"
proof (cases cs)
  case Nil
  with assms show ?thesis
    by (auto simp: outcome_map_item split: if_splits)
next
  case (Cons d es)
  note d = this
  show ?thesis
  proof (cases es)
    case Nil
    have "rest = cs \<or> (\<exists>rs'. class_items False cs = Parsed (rs', rest))"
      using assms [unfolded class_items.simps(2)] d Nil
      by (auto simp only: list.case outcome_map_item outcome.simps prod.inject split: if_splits)
    then show ?thesis by blast
  next
    case (Cons h hs)
    consider "rest = cs" | rs' where "class_items False hs = Parsed (rs', rest)"
      | rs' where "class_items False cs = Parsed (rs', rest)"
      using assms [unfolded class_items.simps(2)] d Cons
      by (auto simp only: list.case outcome_map_item outcome.simps prod.inject split: if_splits)
    then show ?thesis
    proof cases
      case 2
      moreover have "length hs \<le> length cs" by (simp add: d Cons)
      ultimately show ?thesis by blast
    qed auto
  qed
qed

lemma class_items_length:
  "class_items first cs = Parsed (rs, rest) \<Longrightarrow> length rest < length cs"
proof (induction cs arbitrary: first rs rest rule: length_induct)
  case (1 cs)
  then obtain c ds where cs: "cs = c # ds" by (cases cs) auto
  from class_items_Parsed [OF 1(2) [unfolded cs]] show ?case
  proof
    assume "rest = ds"
    then show ?thesis by (simp add: cs)
  next
    assume "\<exists>es rs'. length es \<le> length ds \<and> class_items False es = Parsed (rs', rest)"
    then obtain es rs' where e: "length es \<le> length ds" "class_items False es = Parsed (rs', rest)"
      by blast
    with 1(1) have "length rest < length es" by (auto simp: cs)
    with e show ?thesis by (simp add: cs)
  qed
qed

definition lex_class :: "nat list \<Rightarrow> (regex \<times> nat list) outcome" where
  "lex_class cs =
     (case cs of
        [] \<Rightarrow> Malformed
      | c # ds \<Rightarrow>
          if c = 94 then outcome_map (\<lambda>(rs, rest). (RClass True rs, rest)) (class_items True ds)
          else outcome_map (\<lambda>(rs, rest). (RClass False rs, rest)) (class_items True cs))"

lemma lex_class_length: "lex_class cs = Parsed (r, rest) \<Longrightarrow> length rest < length cs"
  using class_items_length [of True "tl cs" _ rest] class_items_length [of True cs _ rest]
  by (cases cs) (auto simp: lex_class_def outcome_map_item
    split: if_splits)

definition rep_of :: "nat \<Rightarrow> rep option" where
  "rep_of c = (if c = 42 then Some Star else if c = 43 then Some Plus
               else if c = 63 then Some Quest else None)"

text \<open>
  The count of \<open>{n}\<close>, after the opening brace: one to four digits with no leading zero, at most 1000.
  Any other brace is outside the fragment.
\<close>

fun read_digits :: "nat \<Rightarrow> nat list \<Rightarrow> (nat \<times> nat list) option" where
  "read_digits acc [] = None"
| "read_digits acc (c # cs) =
     (if 48 \<le> c \<and> c \<le> 57 then read_digits (10 * acc + (c - 48)) cs
      else if c = 125 then Some (acc, cs) else None)"

definition read_count :: "nat list \<Rightarrow> (nat \<times> nat list) option" where
  "read_count cs =
     (case cs of
        c # d # _ \<Rightarrow>
          if (49 \<le> c \<and> c \<le> 57) \<or> (c = 48 \<and> d = 125)
          then (case read_digits 0 cs of
                  Some (n, rest) \<Rightarrow> if n \<le> 1000 then Some (n, rest) else None
                | None \<Rightarrow> None)
          else None
      | _ \<Rightarrow> None)"

lemma read_digits_length: "read_digits acc cs = Some (n, rest) \<Longrightarrow> length rest < length cs"
  by (induction acc cs rule: read_digits.induct) (fastforce split: if_splits)+

lemma read_count_length: "read_count cs = Some (n, rest) \<Longrightarrow> length rest < length cs"
  using read_digits_length [of 0 cs n rest]
  by (auto simp: read_count_def split: list.splits if_splits option.splits)

text \<open>
  The tokens of a pattern. A repetition operator followed by \<open>?\<close> is the non-greedy one; after an
  opening parenthesis, \<open>?:\<close> is a group without capture and any other \<open>?\<close> is outside the fragment.
\<close>

function lex :: "nat list \<Rightarrow> rtok list outcome" where
  "lex [] = Parsed []"
| "lex (c # cs) =
     (if c = 92 then
        (case cs of
           [] \<Rightarrow> Malformed
         | d # ds \<Rightarrow> (case escape d of
                        Parsed a \<Rightarrow> outcome_map ((#) (KAtom a)) (lex ds)
                      | Malformed \<Rightarrow> Malformed
                      | Unmodelled \<Rightarrow> Unmodelled))
      else if c = 91 then
        (case lex_class cs of
           Parsed (a, ds) \<Rightarrow> outcome_map ((#) (KAtom a)) (lex ds)
         | Malformed \<Rightarrow> Malformed
         | Unmodelled \<Rightarrow> Unmodelled)
      else if c = 40 then
        (case cs of
           d # e # ds \<Rightarrow>
             if d = 63 then (if e = 58 then outcome_map ((#) KOpen) (lex ds) else Unmodelled)
             else outcome_map ((#) KOpen) (lex cs)
         | _ \<Rightarrow> outcome_map ((#) KOpen) (lex cs))
      else if c = 41 then outcome_map ((#) KClose) (lex cs)
      else if c = 124 then outcome_map ((#) KAlt) (lex cs)
      else if c = 123 then
        (case read_count cs of
           None \<Rightarrow> Unmodelled
         | Some (n, ds) \<Rightarrow>
             (case ds of
                d # es \<Rightarrow> if d = 63 then outcome_map ((#) (KTimes n)) (lex es)
                          else outcome_map ((#) (KTimes n)) (lex ds)
              | [] \<Rightarrow> Parsed [KTimes n]))
      else (case rep_of c of
              Some k \<Rightarrow>
                (case cs of
                   d # ds \<Rightarrow> if d = 63 then outcome_map ((#) (KRep k False)) (lex ds)
                             else outcome_map ((#) (KRep k True)) (lex cs)
                 | [] \<Rightarrow> outcome_map ((#) (KRep k True)) (lex cs))
            | None \<Rightarrow>
                outcome_map ((#) (KAtom (if c = 46 then RAny else if c = 94 then RBegin
                                         else if c = 36 then REnd else RLit c))) (lex cs)))"
  by pat_completeness auto
termination
  by (relation "measure length") (auto dest: lex_class_length read_count_length)

declare lex.simps(2) [simp del]

section \<open>Parsing\<close>

fun seq :: "regex list \<Rightarrow> regex" where
  "seq [] = REmpty"
| "seq [r] = r"
| "seq (r # r' # rs) = RCat r (seq (r' # rs))"

fun alts :: "regex list \<Rightarrow> regex" where
  "alts [] = REmpty"
| "alts [r] = r"
| "alts (r # r' # rs) = RAlt r (alts (r' # rs))"

text \<open>
  The stack holds, for every open group, the finished alternatives and the items of the current
  one outside it, latest first. An operator needs an item before it, and may not follow another;
  a count applied to an expression that holds one is outside the fragment (the compiler bounds
  the product of the counts).
\<close>

fun counted :: "regex \<Rightarrow> bool" where
  "counted (RTimes n r) = True"
| "counted (RCat a b) \<longleftrightarrow> counted a \<or> counted b"
| "counted (RAlt a b) \<longleftrightarrow> counted a \<or> counted b"
| "counted (RStar g a) = counted a"
| "counted (RPlus g a) = counted a"
| "counted (RQuest g a) = counted a"
| "counted _ = False"

fun parse :: "rtok list \<Rightarrow> bool \<Rightarrow> (regex list \<times> regex list) list \<Rightarrow> regex list \<Rightarrow> regex list
    \<Rightarrow> regex outcome" where
  "parse [] lastrep stk as cur =
     (if stk = [] then Parsed (alts (rev (seq (rev cur) # as))) else Malformed)"
| "parse (KAtom a # ts) lastrep stk as cur = parse ts False stk as (a # cur)"
| "parse (KRep k g # ts) lastrep stk as cur =
     (case cur of
        [] \<Rightarrow> Malformed
      | a # cur' \<Rightarrow> if lastrep then Malformed else parse ts True stk as (rep_regex k g a # cur'))"
| "parse (KTimes n # ts) lastrep stk as cur =
     (case cur of
        [] \<Rightarrow> Malformed
      | a # cur' \<Rightarrow> if lastrep then Malformed else if counted a then Unmodelled
                    else parse ts True stk as (RTimes n a # cur'))"
| "parse (KAlt # ts) lastrep stk as cur = parse ts False stk (seq (rev cur) # as) []"
| "parse (KOpen # ts) lastrep stk as cur = parse ts False ((as, cur) # stk) [] []"
| "parse (KClose # ts) lastrep stk as cur =
     (case stk of
        [] \<Rightarrow> Malformed
      | (as', cur') # stk' \<Rightarrow>
          parse ts False stk' as' (alts (rev (seq (rev cur) # as)) # cur'))"

definition parse_pattern :: "string \<Rightarrow> regex outcome" where
  "parse_pattern p =
     (if \<not> valid_utf8 p then Malformed
      else (case lex (runes p) of
              Parsed ts \<Rightarrow> parse ts False [] [] []
            | Malformed \<Rightarrow> Malformed
            | Unmodelled \<Rightarrow> Unmodelled))"

text \<open>\<open>regexp.Compile\<close>: \<open>None\<close> is the error.\<close>

definition Compile :: "(string \<Rightarrow> regex option) \<Rightarrow> string \<Rightarrow> regex option" where
  "Compile ext p =
     (case parse_pattern p of Parsed r \<Rightarrow> Some r | Malformed \<Rightarrow> None | Unmodelled \<Rightarrow> ext p)"

section \<open>QuoteMeta\<close>

definition special :: "char \<Rightarrow> bool" where
  "special c \<longleftrightarrow> c \<in> set [CHR 0x5C, CHR ''.'', CHR ''+'', CHR ''*'', CHR ''?'', CHR ''('', CHR '')'',
     CHR ''|'', CHR ''['', CHR '']'', CHR ''{'', CHR ''}'', CHR ''^'', CHR ''$'']"

definition QuoteMeta :: "string \<Rightarrow> string" where
  "QuoteMeta s = concat (map (\<lambda>c. if special c then [CHR 0x5C, c] else [c]) s)"

end
