(* ===== verification/SubPattern.thy ===== *)
theory SubPattern
  imports RegexpSyntax
begin

text \<open>
  The subject patterns of \<open>internal/authz/authz.go\<close>: \<open>compileSub\<close>, \<open>subMatches\<close> and the two
  guardrail checks \<open>subIsExact\<close> and \<open>accountPinnedInARN\<close>. The specification of a glob is
  \<open>glob_match\<close>; the lemmas show that the regular expression the code builds from a glob has
  exactly that meaning, and what an accepted guardrail says of the subjects a pattern matches.
\<close>

section \<open>The code\<close>

datatype sub_error = UnanchoredRegex | InvalidSubRegex | InvalidSubGlob

text \<open>\<open>var awsAccountID = regexp.MustCompile("^[0-9]{12}$")\<close>\<close>

definition awsAccountID :: regex where
  "awsAccountID = RCat RBegin (RCat (RTimes 12 (RClass False [(48, 57)])) REnd)"

definition subIsExact :: "string \<Rightarrow> bool" where
  "subIsExact pattern =
     (if pattern = [] \<or> HasPrefix pattern ''re:'' then False
      else CHR ''*'' \<notin> set pattern)"

definition accountPinnedInARN :: "string \<Rightarrow> bool" where
  "accountPinnedInARN pattern =
     (if pattern = [] then False
      else
        let p1 = TrimPrefix pattern ''re:'';
            p2 = TrimPrefix p1 ''^'';
            p3 = TrimSuffix p2 ''$'';
            fields = SplitN 6 (CHR '':'') p3
        in if length fields < 5 then False
           else MatchString awsAccountID (fields ! 4))"

text \<open>The text the glob branch hands to the compiler: the builder's loop, the trim, the anchor.\<close>

definition glob_text :: "string \<Rightarrow> string" where
  "glob_text pattern =
     (let b = fold (\<lambda>part b. b @ QuoteMeta part @ ''.*'') (Split (CHR ''*'') pattern) ''^''
      in TrimSuffix b ''.*'' @ ''$'')"

definition compileSub :: "(string \<Rightarrow> regex option) \<Rightarrow> string \<Rightarrow> sub_error + regex option" where
  "compileSub ext pattern =
     (if pattern = [] then Inr None
      else (case CutPrefix pattern ''re:'' of
              Some rest \<Rightarrow>
                if \<not> HasPrefix rest ''^'' \<or> \<not> HasSuffix rest ''$'' then Inl UnanchoredRegex
                else (case Compile ext rest of
                        None \<Rightarrow> Inl InvalidSubRegex
                      | Some re \<Rightarrow> Inr (Some re))
            | None \<Rightarrow>
                (case Compile ext (glob_text pattern) of
                   None \<Rightarrow> Inl InvalidSubGlob
                 | Some re \<Rightarrow> Inr (Some re))))"

definition subMatches :: "regex option \<Rightarrow> string \<Rightarrow> bool" where
  "subMatches matcher sub =
     (case matcher of
        None \<Rightarrow> True
      | Some re \<Rightarrow>
          (case FindStringIndex re sub of
             None \<Rightarrow> False
           | Some (a, b) \<Rightarrow> a = 0 \<and> b = length sub))"

section \<open>The glob, specified\<close>

text \<open>
  On runes: \<open>*\<close> (42) stands for any sequence of runes other than newline (10), every other rune
  for itself.
\<close>

fun glob_match :: "nat list \<Rightarrow> nat list \<Rightarrow> bool" where
  "glob_match [] s \<longleftrightarrow> s = []"
| "glob_match (p # ps) [] \<longleftrightarrow> p = 42 \<and> glob_match ps []"
| "glob_match (p # ps) (c # cs) \<longleftrightarrow>
     (if p = 42
      then glob_match ps (c # cs) \<or> (c \<noteq> 10 \<and> glob_match (p # ps) cs)
      else c = p \<and> glob_match ps cs)"

section \<open>The text built from a glob\<close>

definition glob_bytes :: "string \<Rightarrow> string" where
  "glob_bytes p = concat (map (\<lambda>c. if c = CHR ''*'' then ''.*'' else QuoteMeta [c]) p)"

lemma QuoteMeta_Nil [simp]: "QuoteMeta [] = []"
  by (simp add: QuoteMeta_def)

lemma QuoteMeta_Cons: "QuoteMeta (c # s) = QuoteMeta [c] @ QuoteMeta s"
  by (simp add: QuoteMeta_def)

lemma glob_parts:
  "concat (map (\<lambda>part. QuoteMeta part @ ''.*'') (Split (CHR ''*'') p)) = glob_bytes p @ ''.*''"
proof (induction p)
  case Nil
  then show ?case by (simp add: glob_bytes_def)
next
  case (Cons c p)
  obtain f fs where f: "Split (CHR ''*'') p = f # fs" by (cases "Split (CHR ''*'') p") auto
  show ?case
  proof (cases "c = CHR ''*''")
    case True
    with Cons show ?thesis by (simp add: glob_bytes_def)
  next
    case False
    from Cons f False show ?thesis
      by (simp add: glob_bytes_def QuoteMeta_Cons [of c f])
  qed
qed

lemma fold_builder: "fold (\<lambda>x b. b @ f x) xs b = b @ concat (map f xs)"
  by (induction xs arbitrary: b) auto

lemma glob_text_eq: "glob_text p = ''^'' @ glob_bytes p @ ''$''"
proof -
  have "fold (\<lambda>part b. b @ QuoteMeta part @ ''.*'') (Split (CHR ''*'') p) ''^''
      = (''^'' @ glob_bytes p) @ ''.*''"
    by (simp add: fold_builder glob_parts)
  then show ?thesis
    unfolding glob_text_def Let_def by (simp only: TrimSuffix_append) simp
qed

section \<open>The runes of the text\<close>

definition quote_rune :: "nat \<Rightarrow> nat list" where
  "quote_rune c = (if c \<in> set metas then [92, c] else [c])"

definition glob_rune :: "nat \<Rightarrow> nat list" where
  "glob_rune c = (if c = 42 then [46, 42] else quote_rune c)"

definition special_chars :: "char list" where
  "special_chars = [CHR 0x5C, CHR ''.'', CHR ''+'', CHR ''*'', CHR ''?'', CHR ''('', CHR '')'',
     CHR ''|'', CHR ''['', CHR '']'', CHR ''{'', CHR ''}'', CHR ''^'', CHR ''$'']"

lemma special_iff: "special c \<longleftrightarrow> byte c \<in> set metas"
proof -
  have "map byte special_chars = metas" by (simp add: special_chars_def metas_def byte_def)
  then have "set metas = byte ` set special_chars" by (metis set_map)
  moreover have "special c \<longleftrightarrow> c \<in> set special_chars"
    by (simp add: special_def special_chars_def)
  ultimately show ?thesis by (auto simp: byte_inj)
qed

lemma byte_star: "byte c = 42 \<longleftrightarrow> c = CHR ''*''"
proof -
  have "byte (CHR ''*'') = 42" by (simp add: byte_def)
  then show ?thesis by (metis byte_inj)
qed

lemma metas_ascii: "c \<in> set metas \<Longrightarrow> c < 128"
  by (auto simp: metas_def)

lemma glob_bytes_append: "glob_bytes (a @ b) = glob_bytes a @ glob_bytes b"
  by (simp add: glob_bytes_def)

lemma glob_bytes_high: "\<forall>d \<in> set s. 128 \<le> byte d \<Longrightarrow> glob_bytes s = s"
proof (induction s)
  case Nil
  then show ?case by (simp add: glob_bytes_def)
next
  case (Cons d s)
  then have "\<not> special d" and "d \<noteq> CHR ''*''"
    using metas_ascii [of "byte d"] by (auto simp: special_iff byte_star [symmetric])
  with Cons show ?case by (simp add: glob_bytes_def QuoteMeta_def)
qed

lemma decode_ascii_append:
  "\<forall>d \<in> set s. byte d < 128 \<Longrightarrow>
   decode (s @ t) = map (\<lambda>d. (byte d, 1)) s @ decode t"
  by (induction s) (simp_all add: decode_ascii)

lemma glob_bytes_ascii:
  assumes "byte c < 128"
  shows "map byte (glob_bytes [c]) = glob_rune (byte c) \<and> (\<forall>d \<in> set (glob_bytes [c]). byte d < 128)"
proof -
  have [simp]: "byte (CHR 0x5C) = 92" "byte (CHR ''.'') = 46" "byte (CHR ''*'') = 42"
    by (simp_all add: byte_def)
  show ?thesis
    using assms
    by (auto simp: glob_bytes_def glob_rune_def quote_rune_def QuoteMeta_def special_iff byte_star)
qed

lemma glob_bytes_decode:
  "valid_utf8 p \<Longrightarrow> valid_utf8 (glob_bytes p) \<and> runes (glob_bytes p) = concat (map glob_rune (runes p))"
proof (induction p rule: decode_induct)
  case Nil
  then show ?case by (simp add: glob_bytes_def)
next
  case (step p)
  let ?r = "fst (DecodeRune p)" and ?w = "snd (DecodeRune p)"
  have nv: "DecodeRune p \<noteq> (RuneError, 1)" and v: "valid_utf8 (drop ?w p)"
    using step by (auto simp: valid_utf8_def decode_nonempty)
  obtain c cs where p: "p = c # cs" using step(1) by (cases p) auto
  have IH: "valid_utf8 (glob_bytes (drop ?w p))"
    "runes (glob_bytes (drop ?w p)) = concat (map glob_rune (runes (drop ?w p)))"
    using step(2) v by blast+
  have rp: "runes p = ?r # runes (drop ?w p)"
    using step(1) by (simp add: runes_def decode_nonempty)
  show ?case
  proof (cases "byte c < 128")
    case True
    then have d: "?r = byte c" "?w = 1" by (simp_all add: p DecodeRune_def)
    have vcs: "valid_utf8 (glob_bytes cs)" "runes (glob_bytes cs) = concat (map glob_rune (runes cs))"
      using IH d by (simp_all add: p)
    have g: "glob_bytes p = glob_bytes [c] @ glob_bytes cs"
      using glob_bytes_append [of "[c]" cs] by (simp add: p)
    have dec: "decode (glob_bytes p) = map (\<lambda>d. (byte d, 1)) (glob_bytes [c]) @ decode (glob_bytes cs)"
      unfolding g using glob_bytes_ascii [OF True] decode_ascii_append by blast
    have "map fst (map (\<lambda>d. (byte d, 1::nat)) (glob_bytes [c])) = glob_rune (byte c)"
      using glob_bytes_ascii [OF True] by (simp add: comp_def)
    then have "runes (glob_bytes p) = glob_rune (byte c) @ runes (glob_bytes cs)"
      by (simp add: runes_def dec)
    moreover have "valid_utf8 (glob_bytes p)"
      using vcs(1) glob_bytes_ascii [OF True] unfolding valid_utf8_def dec by auto
    moreover have "runes p = byte c # runes cs" using rp d by (simp add: p)
    ultimately show ?thesis using vcs(2) by simp
  next
    case False
    obtain r w where rw: "DecodeRune p = (r, w)" by (cases "DecodeRune p")
    have h: "2 \<le> w" "\<forall>d \<in> set (take w p). 128 \<le> byte d"
      using DecodeRune_high [of c cs r w] rw nv False by (auto simp: p)
    have sp: "glob_bytes p = take w p @ glob_bytes (drop w p)"
      using glob_bytes_append [of "take w p" "drop w p"] glob_bytes_high [OF h(2)] by simp
    have dec: "decode (glob_bytes p) = (r, w) # decode (glob_bytes (drop w p))"
      unfolding sp using decode_take_append [OF step(1) nv] rw by simp
    have "EncodeRune r = take w p" using EncodeRune_DecodeRune [OF step(1) nv] rw by simp
    moreover have "w \<le> length p" using DecodeRune_width [OF step(1)] rw by simp
    ultimately have "128 \<le> r" using EncodeRune_ascii [of r] h(1) by (cases "r < 128") auto
    then have "glob_rune r = [r]"
      using metas_ascii [of r] by (auto simp: glob_rune_def quote_rune_def)
    then show ?thesis
      using IH rp rw nv by (auto simp: valid_utf8_def runes_def dec)
  qed
qed

section \<open>Parsing the text\<close>

definition glob_item :: "nat \<Rightarrow> regex" where
  "glob_item c = (if c = 42 then RStar True RAny else RLit c)"

definition glob_regex :: "nat list \<Rightarrow> regex" where
  "glob_regex ps = seq (RBegin # map glob_item ps @ [REnd])"

definition glob_toks :: "nat \<Rightarrow> rtok list" where
  "glob_toks c = (if c = 42 then [KAtom RAny, KRep Star True] else [KAtom (RLit c)])"

lemma lex_quote:
  assumes "lex t = Parsed ts"
  shows "lex (quote_rune c @ t) = Parsed (KAtom (RLit c) # ts)"
proof (cases "c \<in> set metas")
  case True
  then have "escape c = Parsed (RLit c)" by (auto simp: metas_def escape_def alnum_def)
  with True assms show ?thesis by (simp add: quote_rune_def lex.simps(2))
next
  case False
  then have "c \<noteq> 92" "c \<noteq> 91" "c \<noteq> 40" "c \<noteq> 41" "c \<noteq> 124" "c \<noteq> 123" "c \<noteq> 46" "c \<noteq> 94" "c \<noteq> 36"
    "rep_of c = None"
    by (auto simp: metas_def rep_of_def)
  with False assms show ?thesis by (simp add: quote_rune_def lex.simps(2))
qed

lemma lex_glob:
  assumes "lex t = Parsed ts" and "\<exists>d ds. t = d # ds \<and> d \<noteq> 63"
  shows "lex (concat (map glob_rune ps) @ t) = Parsed (concat (map glob_toks ps) @ ts)
    \<and> (\<exists>d ds. concat (map glob_rune ps) @ t = d # ds \<and> d \<noteq> 63)"
proof (induction ps)
  case Nil
  with assms show ?case by simp
next
  case (Cons p ps)
  let ?rest = "concat (map glob_rune ps) @ t"
  obtain d ds where r: "?rest = d # ds" "d \<noteq> 63" using Cons by blast
  show ?case
  proof (cases "p = 42")
    case True
    have "lex (42 # ?rest) = outcome_map ((#) (KRep Star True)) (lex ?rest)"
      using r by (simp add: lex.simps(2) rep_of_def)
    moreover have "lex (46 # 42 # ?rest) = outcome_map ((#) (KAtom RAny)) (lex (42 # ?rest))"
      by (simp add: lex.simps(2) [of 46] rep_of_def)
    moreover have "glob_rune 42 = [46, 42]" "glob_toks 42 = [KAtom RAny, KRep Star True]"
      by (simp_all add: glob_rune_def glob_toks_def)
    ultimately show ?thesis using Cons True by simp
  next
    case False
    have "\<exists>d ds. quote_rune p @ ?rest = d # ds \<and> d \<noteq> 63"
      by (auto simp: quote_rune_def metas_def)
    moreover have "glob_rune p = quote_rune p" "glob_toks p = [KAtom (RLit p)]"
      using False by (simp_all add: glob_rune_def glob_toks_def)
    ultimately show ?thesis using Cons lex_quote [of ?rest _ p] by simp
  qed
qed

lemma parse_glob:
  "parse (concat (map glob_toks ps) @ ts) lastrep stk as cur
   = parse ts (if ps = [] then lastrep else last ps = 42) stk as (rev (map glob_item ps) @ cur)"
  by (induction ps arbitrary: lastrep cur) (auto simp: glob_toks_def glob_item_def)

lemma compile_glob:
  assumes "valid_utf8 p"
  shows "Compile ext (glob_text p) = Some (glob_regex (runes p))"
proof -
  have asc: "byte (CHR ''^'') = 94" "byte (CHR ''$'') = 36" by (simp_all add: byte_def)
  have g: "valid_utf8 (glob_bytes p)" "runes (glob_bytes p) = concat (map glob_rune (runes p))"
    using glob_bytes_decode [OF assms] by simp_all
  have v: "valid_utf8 (glob_text p)"
    using g(1) by (simp add: glob_text_eq valid_utf8_ascii valid_utf8_append asc)
  have r: "runes (glob_text p) = 94 # concat (map glob_rune (runes p)) @ [36]"
    using g by (simp add: glob_text_eq runes_ascii runes_append asc)
  have "lex [36] = Parsed [KAtom REnd]" by (simp add: lex.simps(2) rep_of_def)
  then have "lex (concat (map glob_rune (runes p)) @ [36])
      = Parsed (concat (map glob_toks (runes p)) @ [KAtom REnd])"
    using lex_glob [of "[36]" "[KAtom REnd]" "runes p"] by simp
  then have "lex (runes (glob_text p))
      = Parsed (KAtom RBegin # concat (map glob_toks (runes p)) @ [KAtom REnd])"
    by (simp add: r lex.simps(2) [of 94] rep_of_def)
  then have "parse_pattern (glob_text p) = Parsed (glob_regex (runes p))"
    by (simp add: parse_pattern_def v parse_glob glob_regex_def)
  then show ?thesis by (simp add: Compile_def)
qed

section \<open>The meaning of the compiled glob\<close>

lemma matches_seq_Cons:
  "matches s (seq (r # rs)) i k \<longleftrightarrow> (\<exists>j. matches s r i j \<and> matches s (seq rs) j k)"
  by (cases rs) auto

lemma matches_dot_star:
  "i \<le> length s \<Longrightarrow> matches s (RStar g RAny) i j \<longleftrightarrow>
     i \<le> j \<and> j \<le> length s \<and> (\<forall>k. i \<le> k \<and> k < j \<longrightarrow> s ! k \<noteq> 10)"
proof -
  assume i: "i \<le> length s"
  have "i \<le> j \<and> j \<le> length s \<and> (\<forall>k. i \<le> k \<and> k < j \<longrightarrow> s ! k \<noteq> 10)"
    if "(matches s RAny)\<^sup>*\<^sup>* i j"
    using that i by (induction rule: rtranclp_induct) (auto simp: less_Suc_eq)
  moreover have "(matches s RAny)\<^sup>*\<^sup>* i j"
    if "i \<le> j \<and> j \<le> length s \<and> (\<forall>k. i \<le> k \<and> k < j \<longrightarrow> s ! k \<noteq> 10)"
  proof -
    from that have "i \<le> j" by simp
    then show ?thesis using that
    proof (induction j rule: dec_induct)
      case base
      then show ?case by simp
    next
      case (step m)
      then have "(matches s RAny)\<^sup>*\<^sup>* i m" by (auto simp del: matches_simps)
      moreover have "matches s RAny m (Suc m)" using step by auto
      ultimately show ?case by (rule rtranclp.rtrancl_into_rtrancl)
    qed
  qed
  ultimately show ?thesis unfolding matches_star_iff by blast
qed

lemma glob_match_star:
  "glob_match (42 # ps) t \<longleftrightarrow> (\<exists>k \<le> length t. (\<forall>m < k. t ! m \<noteq> 10) \<and> glob_match ps (drop k t))"
proof (induction t)
  case Nil
  then show ?case by simp
next
  case (Cons c cs)
  have "(\<exists>k \<le> length (c # cs). (\<forall>m < k. (c # cs) ! m \<noteq> 10) \<and> glob_match ps (drop k (c # cs)))
    \<longleftrightarrow> glob_match ps (c # cs)
      \<or> (\<exists>k \<le> length cs. (\<forall>m < Suc k. (c # cs) ! m \<noteq> 10) \<and> glob_match ps (drop k cs))"
    (is "?L \<longleftrightarrow> ?R")
  proof
    assume ?L
    then obtain k where k: "k \<le> length (c # cs)" "\<forall>m < k. (c # cs) ! m \<noteq> 10"
      "glob_match ps (drop k (c # cs))" by blast
    then show ?R by (cases k) auto
  next
    assume ?R
    then show ?L
    proof
      assume "glob_match ps (c # cs)"
      then show ?L by (intro exI [of _ 0]) simp
    next
      assume "\<exists>k \<le> length cs. (\<forall>m < Suc k. (c # cs) ! m \<noteq> 10) \<and> glob_match ps (drop k cs)"
      then obtain k where "k \<le> length cs" "\<forall>m < Suc k. (c # cs) ! m \<noteq> 10"
        "glob_match ps (drop k cs)" by blast
      then show ?L by (intro exI [of _ "Suc k"]) simp
    qed
  qed
  also have "(\<exists>k \<le> length cs. (\<forall>m < Suc k. (c # cs) ! m \<noteq> 10) \<and> glob_match ps (drop k cs))
    \<longleftrightarrow> c \<noteq> 10 \<and> (\<exists>k \<le> length cs. (\<forall>m < k. cs ! m \<noteq> 10) \<and> glob_match ps (drop k cs))"
    by (auto simp: All_less_Suc2)
  finally show ?case using Cons by simp
qed

lemma matches_glob_items:
  "i \<le> length s \<Longrightarrow>
   matches s (seq (map glob_item ps @ [REnd])) i j \<longleftrightarrow> j = length s \<and> glob_match ps (drop i s)"
proof (induction ps arbitrary: i)
  case Nil
  then show ?case by auto
next
  case (Cons p ps)
  show ?case
  proof (cases "p = 42")
    case True
    have "matches s (seq (map glob_item (p # ps) @ [REnd])) i j \<longleftrightarrow>
        (\<exists>k. matches s (RStar True RAny) i k \<and> matches s (seq (map glob_item ps @ [REnd])) k j)"
      using True by (simp add: matches_seq_Cons glob_item_def del: seq.simps)
    also have "\<dots> \<longleftrightarrow> (\<exists>k. (i \<le> k \<and> k \<le> length s \<and> (\<forall>m. i \<le> m \<and> m < k \<longrightarrow> s ! m \<noteq> 10))
        \<and> j = length s \<and> glob_match ps (drop k s))"
      using matches_dot_star [OF Cons.prems] Cons.IH by blast
    also have "\<dots> \<longleftrightarrow> j = length s \<and> (\<exists>k \<le> length (drop i s).
        (\<forall>m < k. drop i s ! m \<noteq> 10) \<and> glob_match ps (drop k (drop i s)))"
    proof (intro iffI; elim exE conjE)
      fix k assume k: "i \<le> k" "k \<le> length s" "\<forall>m. i \<le> m \<and> m < k \<longrightarrow> s ! m \<noteq> 10"
        "j = length s" "glob_match ps (drop k s)"
      then show "j = length s \<and> (\<exists>k \<le> length (drop i s).
        (\<forall>m < k. drop i s ! m \<noteq> 10) \<and> glob_match ps (drop k (drop i s)))"
        by (intro conjI exI [of _ "k - i"]) auto
    next
      fix k assume k: "j = length s" "k \<le> length (drop i s)" "\<forall>m < k. drop i s ! m \<noteq> 10"
        "glob_match ps (drop k (drop i s))"
      have "s ! m \<noteq> 10" if "i \<le> m" "m < i + k" for m
      proof -
        have "m - i < k" using that by simp
        then have "drop i s ! (m - i) \<noteq> 10" using k(3) by blast
        then show ?thesis using that Cons.prems by simp
      qed
      with k Cons.prems show "\<exists>k. (i \<le> k \<and> k \<le> length s \<and> (\<forall>m. i \<le> m \<and> m < k \<longrightarrow> s ! m \<noteq> 10))
        \<and> j = length s \<and> glob_match ps (drop k s)"
        by (intro exI [of _ "i + k"]) (auto simp: add.commute)
    qed
    finally show ?thesis using True by (simp only: glob_match_star)
  next
    case False
    have "matches s (seq (map glob_item (p # ps) @ [REnd])) i j \<longleftrightarrow>
        (\<exists>k. matches s (RLit p) i k \<and> matches s (seq (map glob_item ps @ [REnd])) k j)"
      using False by (simp add: matches_seq_Cons glob_item_def del: seq.simps matches_simps)
    also have "\<dots> \<longleftrightarrow> i < length s \<and> s ! i = p \<and> j = length s \<and> glob_match ps (drop (Suc i) s)"
      using Cons.IH [of "Suc i"] by auto
    also have "\<dots> \<longleftrightarrow> j = length s \<and> glob_match (p # ps) (drop i s)"
      using False by (cases "i < length s") (auto simp: Cons_nth_drop_Suc [symmetric])
    finally show ?thesis .
  qed
qed

section \<open>subMatches\<close>

lemma byte_offset_0 [simp]: "byte_offset s 0 = 0"
  by (simp add: byte_offset_def)

lemma byte_offset_split:
  "length s = byte_offset s i + sum_list (map snd (drop i (decode s)))"
proof -
  have "sum_list (map snd (decode s)) = byte_offset s i + sum_list (map snd (drop i (decode s)))"
    unfolding byte_offset_def by (metis append_take_drop_id map_append sum_list_append)
  then show ?thesis by (simp add: decode_widths)
qed

lemma byte_offset_0_iff: "i \<le> length (runes s) \<Longrightarrow> byte_offset s i = 0 \<longleftrightarrow> i = 0"
proof
  assume i: "i \<le> length (runes s)" and z: "byte_offset s i = 0"
  show "i = 0"
  proof (rule ccontr)
    assume "i \<noteq> 0"
    with i have "decode s ! 0 \<in> set (take i (decode s))"
      by (auto simp: runes_def in_set_conv_nth intro!: exI [of _ 0])
    moreover from this have "0 < snd (decode s ! 0)" by (meson decode_width_pos in_set_takeD)
    ultimately show False using z by (auto simp: byte_offset_def)
  qed
qed simp

lemma byte_offset_end_iff: "i \<le> length (runes s) \<Longrightarrow> byte_offset s i = length s \<longleftrightarrow> i = length (runes s)"
proof
  assume i: "i \<le> length (runes s)" and e: "byte_offset s i = length s"
  show "i = length (runes s)"
  proof (rule ccontr)
    assume "i \<noteq> length (runes s)"
    with i have l: "i < length (decode s)" by (simp add: runes_def)
    then have "decode s ! i \<in> set (drop i (decode s))"
      by (metis Cons_nth_drop_Suc list.set_intros(1))
    moreover have "0 < snd (decode s ! i)" using l by (meson decode_width_pos nth_mem)
    moreover have "sum_list (map snd (drop i (decode s))) = 0"
      using byte_offset_split [of s i] e by simp
    ultimately show False by auto
  qed
next
  assume "i = length (runes s)"
  then show "byte_offset s i = length s"
    by (simp add: byte_offset_def runes_def decode_widths)
qed

text \<open>A subject is accepted when the leftmost-first match of the expression spans it.\<close>

lemma subMatches_iff:
  "subMatches (Some re) sub \<longleftrightarrow> search re (runes sub) 0 (length (runes sub)) = Some (0, length (runes sub))"
proof (cases "search re (runes sub) 0 (length (runes sub))")
  case None
  then show ?thesis by (simp add: subMatches_def FindStringIndex_def)
next
  case (Some ab)
  obtain a b where ab: "ab = (a, b)" by (cases ab)
  have "a \<le> length (runes sub)" and "matches (runes sub) re a b"
    using search_Some [OF Some [unfolded ab]] by simp_all
  then have "b \<le> length (runes sub)" using matches_bounds by blast
  with \<open>a \<le> length (runes sub)\<close> show ?thesis
    by (simp add: subMatches_def FindStringIndex_def Some ab byte_offset_0_iff byte_offset_end_iff)
qed

lemma subMatches_sound: "subMatches (Some re) sub \<Longrightarrow> matches (runes sub) re 0 (length (runes sub))"
  unfolding subMatches_iff by (drule search_Some) auto

lemma subMatches_anchored:
  assumes "\<And>j. matches (runes sub) re 0 j \<Longrightarrow> j = length (runes sub)"
  shows "subMatches (Some re) sub \<longleftrightarrow> matches (runes sub) re 0 (length (runes sub))"
proof
  assume "matches (runes sub) re 0 (length (runes sub))"
  then obtain j js where e: "ends re (runes sub) 0 = j # js"
    using set_ends [of 0 "runes sub" re] by (cases "ends re (runes sub) 0") auto
  then have "j = length (runes sub)"
    using assms set_ends [of 0 "runes sub" re] by auto
  with e have "search re (runes sub) 0 (length (runes sub)) = Some (0, length (runes sub))"
    by (cases "length (runes sub)") auto
  then show "subMatches (Some re) sub" by (simp add: subMatches_iff)
qed (rule subMatches_sound)

lemma matches_glob_regex:
  "matches s (glob_regex ps) 0 j \<longleftrightarrow> j = length s \<and> glob_match ps s"
  unfolding glob_regex_def matches_seq_Cons using matches_glob_items [of 0 s ps j] by auto

lemma subMatches_glob:
  "subMatches (Some (glob_regex (runes p))) sub \<longleftrightarrow> glob_match (runes p) (runes sub)"
  by (subst subMatches_anchored) (auto simp: matches_glob_regex)

section \<open>What compileSub accepts\<close>

lemma compileSub_glob:
  assumes "pattern \<noteq> []" and "\<not> HasPrefix pattern ''re:''" and "valid_utf8 pattern"
  shows "compileSub ext pattern = Inr (Some (glob_regex (runes pattern)))"
  using assms by (simp add: compileSub_def CutPrefix_def compile_glob)

lemma compileSub_None_iff: "compileSub ext pattern = Inr None \<longleftrightarrow> pattern = []"
  by (auto simp: compileSub_def split: option.splits if_splits)

lemma compileSub_invalid_utf8:
  assumes "pattern \<noteq> []" and "\<not> HasPrefix pattern ''re:''" and "\<not> valid_utf8 (glob_text pattern)"
  shows "compileSub ext pattern = Inl InvalidSubGlob"
  using assms by (simp add: compileSub_def CutPrefix_def Compile_def parse_pattern_def)

lemma glob_match_exact: "42 \<notin> set ps \<Longrightarrow> glob_match ps s \<longleftrightarrow> s = ps"
  by (induction ps s rule: glob_match.induct) auto

lemma glob_match_literal_prefix:
  "42 \<notin> set ps \<Longrightarrow> glob_match (ps @ qs) s \<longleftrightarrow> (\<exists>t. s = ps @ t \<and> glob_match qs t)"
proof (induction ps arbitrary: s)
  case Nil
  then show ?case by simp
next
  case (Cons p ps)
  then show ?case by (cases s) auto
qed

lemma star_in_runes: "CHR ''*'' \<notin> set p \<Longrightarrow> valid_utf8 p \<Longrightarrow> 42 \<notin> set (runes p)"
proof (induction p rule: decode_induct)
  case Nil
  then show ?case by simp
next
  case (step p)
  have nv: "DecodeRune p \<noteq> (RuneError, 1)" and v: "valid_utf8 (drop (snd (DecodeRune p)) p)"
    using step by (auto simp: valid_utf8_def decode_nonempty)
  obtain c cs where p: "p = c # cs" using step(1) by (cases p) auto
  have "fst (DecodeRune p) \<noteq> 42"
  proof
    assume e: "fst (DecodeRune p) = 42"
    have "EncodeRune 42 = take (snd (DecodeRune p)) p"
      using EncodeRune_DecodeRune [OF step(1) nv] e by simp
    moreover have "EncodeRune 42 = [CHR ''*'']"
      using byte_star [of "char_of (42::nat)"] by (simp add: EncodeRune_def byte_def)
    ultimately have "CHR ''*'' \<in> set p" by (metis in_set_takeD list.set_intros(1))
    with step show False by simp
  qed
  moreover have "42 \<notin> set (runes (drop (snd (DecodeRune p)) p))"
    using step v by (meson in_set_dropD)
  ultimately show ?case using step(1) by (auto simp: runes_def decode_nonempty)
qed

text \<open>
  C10. A glob is matched as its specification says. For every sub pattern that is not a regular
  expression and is valid UTF-8, \<open>compileSub\<close> succeeds, whatever the pattern holds, and the
  compiled matcher accepts a subject iff the glob matches the whole of it, rune by rune: \<open>*\<close>
  stands for any newline-free sequence and every other character, regular-expression
  metacharacters included, for itself.
\<close>

theorem glob_sub_correct:
  assumes "pattern \<noteq> []" and "\<not> HasPrefix pattern ''re:''" and "valid_utf8 pattern"
  shows "\<exists>re. compileSub ext pattern = Inr (Some re)
    \<and> (\<forall>sub. subMatches (Some re) sub \<longleftrightarrow> glob_match (runes pattern) (runes sub))"
  using compileSub_glob [OF assms] subMatches_glob by blast

theorem glob_sub_correct_witness:
  "\<exists>re. compileSub (\<lambda>_. None) ''repo:a.b/*'' = Inr (Some re)
    \<and> subMatches (Some re) ''repo:a.b/c'' \<and> \<not> subMatches (Some re) ''repo:axb/c''"
proof -
  have "glob_match (runes ''repo:a.b/*'') (runes ''repo:a.b/c'')"
    and "\<not> glob_match (runes ''repo:a.b/*'') (runes ''repo:axb/c'')"
    by code_simp+
  moreover have "valid_utf8 ''repo:a.b/*''" by code_simp
  ultimately show ?thesis
    using glob_sub_correct [of "''repo:a.b/*''" "\<lambda>_. None"] by auto
qed

text \<open>
  An exact sub pattern pins one subject. A pattern the guardrail calls exact compiles, and its
  matcher accepts a (valid UTF-8) subject iff the subject is the pattern itself: no superstring,
  no prefix, no other string.
\<close>

theorem exact_sub_pins_subject:
  assumes "subIsExact pattern" and "valid_utf8 pattern" and "valid_utf8 sub"
  shows "\<exists>re. compileSub ext pattern = Inr (Some re) \<and> (subMatches (Some re) sub \<longleftrightarrow> sub = pattern)"
proof -
  have p: "pattern \<noteq> []" "\<not> HasPrefix pattern ''re:''" "CHR ''*'' \<notin> set pattern"
    using assms(1) by (auto simp: subIsExact_def split: if_splits)
  have "subMatches (Some (glob_regex (runes pattern))) sub \<longleftrightarrow> runes sub = runes pattern"
    using glob_match_exact [OF star_in_runes [OF p(3) assms(2)]] by (simp add: subMatches_glob)
  then show ?thesis
    using compileSub_glob [OF p(1,2) assms(2)] runes_inj [OF assms(3,2)] by auto
qed

theorem exact_sub_pins_subject_witness:
  "\<exists>re. compileSub (\<lambda>_. None) ''arn:aws:iam::1:role/r'' = Inr (Some re)
    \<and> subMatches (Some re) ''arn:aws:iam::1:role/r''"
proof -
  have "subIsExact ''arn:aws:iam::1:role/r''" and "valid_utf8 ''arn:aws:iam::1:role/r''"
    by code_simp+
  then show ?thesis
    using exact_sub_pins_subject [of "''arn:aws:iam::1:role/r''" "''arn:aws:iam::1:role/r''"] by auto
qed

section \<open>The account field of an ARN\<close>

lemma awsAccountID_compiled: "Compile ext ''^[0-9]{12}$'' = Some awsAccountID"
proof -
  have "parse_pattern ''^[0-9]{12}$'' = Parsed awsAccountID" by code_simp
  then show ?thesis by (simp add: Compile_def)
qed

lemma all_from_Suc:
  "i < j \<Longrightarrow> (\<forall>k. i \<le> k \<and> k < j \<longrightarrow> P k) \<longleftrightarrow> P i \<and> (\<forall>k. Suc i \<le> k \<and> k < j \<longrightarrow> P k)"
  by (metis Suc_leI le_eq_less_or_eq le_trans nat_le_linear not_less_eq_eq)

lemma matches_times_class:
  "i \<le> length s \<Longrightarrow> matches s (RTimes n (RClass False [(lo, hi)])) i j \<longleftrightarrow>
     j = i + n \<and> j \<le> length s \<and> (\<forall>k. i \<le> k \<and> k < j \<longrightarrow> lo \<le> s ! k \<and> s ! k \<le> hi)"
proof (induction n arbitrary: i)
  case 0
  then show ?case by auto
next
  case (Suc n)
  have "matches s (RTimes (Suc n) (RClass False [(lo, hi)])) i j \<longleftrightarrow>
      i < length s \<and> lo \<le> s ! i \<and> s ! i \<le> hi \<and> matches s (RTimes n (RClass False [(lo, hi)])) (Suc i) j"
    by (auto simp: in_class_def)
  also have "\<dots> \<longleftrightarrow> i < length s \<and> lo \<le> s ! i \<and> s ! i \<le> hi \<and> j = Suc i + n \<and> j \<le> length s
      \<and> (\<forall>k. Suc i \<le> k \<and> k < j \<longrightarrow> lo \<le> s ! k \<and> s ! k \<le> hi)"
    using Suc.IH [of "Suc i"] by auto
  also have "\<dots> \<longleftrightarrow> j = i + Suc n \<and> j \<le> length s
      \<and> (\<forall>k. i \<le> k \<and> k < j \<longrightarrow> lo \<le> s ! k \<and> s ! k \<le> hi)"
    using all_from_Suc [of i j "\<lambda>k. lo \<le> s ! k \<and> s ! k \<le> hi"] by auto
  finally show ?case .
qed

definition account_id :: "string \<Rightarrow> bool" where
  "account_id v \<longleftrightarrow> length v = 12 \<and> (\<forall>c \<in> set v. 48 \<le> byte c \<and> byte c \<le> 57)"

lemma MatchString_awsAccountID: "MatchString awsAccountID v \<longleftrightarrow> account_id v"
proof -
  let ?r = "runes v"
  have "MatchString awsAccountID v \<longleftrightarrow> length ?r = 12 \<and> (\<forall>k < 12. 48 \<le> ?r ! k \<and> ?r ! k \<le> 57)"
    by (auto simp: MatchString_iff awsAccountID_def matches_times_class simp del: matches_simps(12,13))
  also have "\<dots> \<longleftrightarrow> length ?r = 12 \<and> (\<forall>c \<in> set ?r. 48 \<le> c \<and> c \<le> 57)"
    by (auto simp: all_set_conv_all_nth)
  also have "\<dots> \<longleftrightarrow> account_id v"
  proof
    assume a: "length ?r = 12 \<and> (\<forall>c \<in> set ?r. 48 \<le> c \<and> c \<le> 57)"
    then have "?r = map byte v" by (intro runes_all_ascii) auto
    with a show "account_id v" by (auto simp: account_id_def)
  next
    assume a: "account_id v"
    then have "decode (v @ []) = map (\<lambda>d. (byte d, 1)) v @ decode []"
      by (intro decode_ascii_append) (auto simp: account_id_def)
    then have "?r = map byte v" by (simp add: runes_def comp_def)
    with a show "length ?r = 12 \<and> (\<forall>c \<in> set ?r. 48 \<le> c \<and> c \<le> 57)"
      by (auto simp: account_id_def)
  qed
  finally show ?thesis .
qed

text \<open>The fifth field of a pattern with a sixth one, under the trims of the guardrail.\<close>

lemma TrimPrefix_one:
  "TrimPrefix (f @ CHR '':'' # s) [c] = (if f \<noteq> [] \<and> hd f = c then tl f else f) @ CHR '':'' # s"
  if "c \<noteq> CHR '':''"
  using that by (cases f) (auto simp: TrimPrefix_def)

lemma TrimSuffix_one:
  assumes "d \<noteq> c"
  shows "\<exists>t. TrimSuffix (f @ c # s) [d] = f @ c # t"
proof (cases s rule: rev_cases)
  case Nil
  with assms have "\<not> HasSuffix (f @ c # s) [d]" by (auto simp: HasSuffix_def suffix_def)
  then show ?thesis by (auto simp: TrimSuffix_def)
next
  case (snoc s' x)
  then show ?thesis
    using TrimSuffix_append [of "f @ c # s'" "[d]"] by (cases "x = d") (auto simp: TrimSuffix_def)
qed

lemma accountPinnedInARN_fields:
  assumes "p = Join (CHR '':'') [f0, f1, f2, f3, acct, rest]" and "\<not> HasPrefix p ''re:''"
    and "CHR '':'' \<notin> set f0 \<union> set f1 \<union> set f2 \<union> set f3 \<union> set acct"
  shows "accountPinnedInARN p \<longleftrightarrow> account_id acct"
proof -
  define g where "g = (if f0 \<noteq> [] \<and> hd f0 = CHR ''^'' then tl f0 else f0)"
  have p1: "TrimPrefix p ''re:'' = p" using assms(2) by (simp add: TrimPrefix_def)
  have p2: "TrimPrefix p ''^'' = (g @ CHR '':'' # f1 @ CHR '':'' # f2 @ CHR '':'' # f3 @ CHR '':''
      # acct) @ CHR '':'' # rest"
    using TrimPrefix_one [of "CHR ''^''" f0] by (simp add: assms(1) g_def)
  let ?h = "g @ CHR '':'' # f1 @ CHR '':'' # f2 @ CHR '':'' # f3 @ CHR '':'' # acct"
  obtain t where "TrimSuffix (?h @ CHR '':'' # rest) [CHR ''$''] = ?h @ CHR '':'' # t"
    using TrimSuffix_one [of "CHR ''$''" "CHR '':''" ?h rest] by auto
  then have p3: "TrimSuffix (TrimPrefix p ''^'') ''$'' = g @ CHR '':'' # f1 @ CHR '':'' # f2
      @ CHR '':'' # f3 @ CHR '':'' # acct @ CHR '':'' # t"
    unfolding p2 by simp
  have "CHR '':'' \<notin> set g" using assms(3) by (auto simp: g_def dest: list.set_sel(2))
  then have "SplitN 6 (CHR '':'') (TrimSuffix (TrimPrefix p ''^'') ''$'') = [g, f1, f2, f3, acct]
      @ SplitN 1 (CHR '':'') t"
    using assms(3) by (simp add: p3 SplitN_append_sep)
  moreover have "SplitN 1 (CHR '':'') t \<noteq> []" by simp
  moreover have "p \<noteq> []" by (simp add: assms(1))
  ultimately show ?thesis
    by (simp add: accountPinnedInARN_def p1 Let_def MatchString_awsAccountID)
qed

lemma account_id_ascii: "account_id v \<Longrightarrow> valid_utf8 v \<and> CHR ''*'' \<notin> set v"
proof -
  assume a: "account_id v"
  then have "\<forall>c \<in> set v. byte c < 128" by (auto simp: account_id_def)
  then have "valid_utf8 v" by (induction v) (auto simp: valid_utf8_ascii)
  moreover have "byte (CHR ''*'') = 42" by (simp add: byte_star)
  then have "CHR ''*'' \<notin> set v" using a by (auto simp: account_id_def)
  ultimately show ?thesis ..
qed

text \<open>
  C33. The account guardrail is sound for globs whose leading fields are literal. If a glob of at
  least six colon-separated fields passes \<open>accountPinnedInARN\<close> and its first four fields hold no
  \<open>*\<close>, then every (valid UTF-8) subject its matcher accepts has the same first five fields, the
  fifth a literal 12-digit account.
\<close>

theorem account_pin_fixes_account:
  assumes "pattern = Join (CHR '':'') [f0, f1, f2, f3, acct, rest]"
    and "\<not> HasPrefix pattern ''re:''" and "accountPinnedInARN pattern"
    and "CHR '':'' \<notin> set f0 \<union> set f1 \<union> set f2 \<union> set f3 \<union> set acct"
    and "CHR ''*'' \<notin> set f0 \<union> set f1 \<union> set f2 \<union> set f3"
    and "list_all valid_utf8 [f0, f1, f2, f3, rest]"
    and "compileSub ext pattern = Inr m" and "subMatches m sub" and "valid_utf8 sub"
  shows "account_id acct \<and> (\<exists>r. sub = Join (CHR '':'') [f0, f1, f2, f3, acct, r])"
proof -
  have acct: "account_id acct"
    using accountPinnedInARN_fields [OF assms(1,2,4)] assms(3) by simp
  define pre where "pre = f0 @ CHR '':'' # f1 @ CHR '':'' # f2 @ CHR '':'' # f3 @ CHR '':'' # acct @ '':''"
  have colon: "byte (CHR '':'') = 58" by (simp add: byte_def)
  have p: "pattern = pre @ rest" by (simp add: assms(1) pre_def)
  have vpre: "valid_utf8 pre"
    using assms(6) account_id_ascii [OF acct]
    by (simp add: pre_def valid_utf8_append valid_utf8_ascii colon)
  have star: "42 \<notin> set (runes pre)"
    using star_in_runes [OF _ vpre] assms(5) account_id_ascii [OF acct] by (auto simp: pre_def)
  have vp: "valid_utf8 pattern" using vpre assms(6) by (simp add: p valid_utf8_append)
  have "pattern \<noteq> []" by (simp add: p pre_def)
  then have "m = Some (glob_regex (runes pattern))"
    using compileSub_glob [OF _ assms(2) vp] assms(7) by simp
  then have "glob_match (runes pre @ runes rest) (runes sub)"
    using assms(8) vpre subMatches_glob [of pattern sub] by (simp add: p runes_append)
  then obtain t where t: "runes sub = runes pre @ t"
    using glob_match_literal_prefix [OF star] by blast
  have "sub = concat (map EncodeRune (runes sub))" using encode_runes [OF assms(9)] by simp
  also have "\<dots> = pre @ concat (map EncodeRune t)" using encode_runes [OF vpre] by (simp add: t)
  finally have "sub = Join (CHR '':'') [f0, f1, f2, f3, acct, concat (map EncodeRune t)]"
    by (simp add: pre_def)
  with acct show ?thesis by blast
qed

theorem account_pin_fixes_account_witness:
  "account_id ''123456789012'' \<and> (\<exists>r. ''arn:aws:iam::123456789012:role/Any'' =
     Join (CHR '':'') [''arn'', ''aws'', ''iam'', [], ''123456789012'', r])"
proof -
  let ?p = "''arn:aws:iam::123456789012:role/*''"
  have c: "compileSub (\<lambda>_. None) ?p = Inr (Some (glob_regex (runes ?p)))"
    by (rule compileSub_glob) code_simp+
  have m: "subMatches (Some (glob_regex (runes ?p))) ''arn:aws:iam::123456789012:role/Any''"
    unfolding subMatches_glob by code_simp
  have a: "accountPinnedInARN ?p" "valid_utf8 ''arn:aws:iam::123456789012:role/Any''"
    "list_all valid_utf8 [''arn'', ''aws'', ''iam'', [], ''role/*'']"
    by code_simp+
  show ?thesis
    by (rule account_pin_fixes_account [OF _ _ a(1) _ _ a(3) c m a(2)]) simp_all
qed

text \<open>
  The account guardrail is not sound for a glob with a \<open>*\<close> before the account field. The glob
  \<open>arn:aws:*::123456789012:role/Admin\<close> passes \<open>accountPinnedInARN\<close>, and its matcher accepts a
  subject whose account field is \<open>999999999999\<close>: the \<open>*\<close> runs over colons.
\<close>

lemma wildcard_field_escapes_account_pin:
  "accountPinnedInARN ''arn:aws:*::123456789012:role/Admin''
   \<and> (\<exists>re. compileSub ext ''arn:aws:*::123456789012:role/Admin'' = Inr (Some re)
        \<and> subMatches (Some re) ''arn:aws:iam::999999999999:x::123456789012:role/Admin'')
   \<and> Split (CHR '':'') ''arn:aws:iam::999999999999:x::123456789012:role/Admin'' ! 4 = ''999999999999''"
proof -
  have "accountPinnedInARN ''arn:aws:*::123456789012:role/Admin''" by code_simp
  moreover have "compileSub ext ''arn:aws:*::123456789012:role/Admin''
      = Inr (Some (glob_regex (runes ''arn:aws:*::123456789012:role/Admin'')))"
    by (rule compileSub_glob) code_simp+
  moreover have "glob_match (runes ''arn:aws:*::123456789012:role/Admin'')
      (runes ''arn:aws:iam::999999999999:x::123456789012:role/Admin'')"
    by code_simp
  moreover have "Split (CHR '':'') ''arn:aws:iam::999999999999:x::123456789012:role/Admin'' ! 4
      = ''999999999999''"
    by simp
  ultimately show ?thesis by (simp add: subMatches_glob)
qed

lemma rloop_dot_star:
  "length s = q + f \<Longrightarrow> (\<forall>k. q \<le> k \<and> k < length s \<longrightarrow> s ! k \<noteq> 10) \<Longrightarrow>
   \<exists>js. rloop (one_rune s (\<lambda>d. d \<noteq> 10)) True f q = length s # js"
proof (induction f arbitrary: q)
  case 0
  then show ?case by simp
next
  case (Suc f)
  then have IH: "\<exists>js. rloop (one_rune s (\<lambda>d. d \<noteq> 10)) True f (Suc q) = length s # js" by auto
  have "one_rune s (\<lambda>d. d \<noteq> 10) q = [Suc q]" using Suc.prems by (simp add: one_rune_def)
  with IH show ?case by auto
qed

text \<open>
  An alternation escapes the account guardrail altogether. The anchored regular expression
  \<open>re:^.*|a:b:c:d:123456789012:$\<close> passes \<open>accountPinnedInARN\<close>, which reads the fifth field of its
  text, and \<open>compileSub\<close> accepts it; its matcher accepts every subject without a newline.
\<close>

lemma alternation_escapes_account_pin:
  "accountPinnedInARN ''re:^.*|a:b:c:d:123456789012:$''
   \<and> (\<exists>re. compileSub ext ''re:^.*|a:b:c:d:123456789012:$'' = Inr (Some re)
        \<and> (\<forall>sub. subMatches (Some re) sub \<longleftrightarrow> 10 \<notin> set (runes sub)))"
proof -
  define tail where "tail = seq (map (\<lambda>c. RLit (byte c)) ''a:b:c:d:123456789012:'' @ [REnd])"
  define re where "re = RAlt (RCat RBegin (RStar True RAny)) tail"
  have "parse_pattern ''^.*|a:b:c:d:123456789012:$'' = Parsed (RAlt (RCat RBegin (RStar True RAny))
      (seq (map (\<lambda>c. RLit (byte c)) ''a:b:c:d:123456789012:'' @ [REnd])))"
    by code_simp
  then have "Compile ext ''^.*|a:b:c:d:123456789012:$'' = Some re"
    by (simp add: Compile_def re_def tail_def)
  then have c: "compileSub ext ''re:^.*|a:b:c:d:123456789012:$'' = Inr (Some re)"
    by (simp add: compileSub_def CutPrefix_def HasSuffix_code)
  have eta: "ends RAny s = one_rune s (\<lambda>d. d \<noteq> 10)" for s by (rule ext) simp
  have e: "ends re s 0 = rloop (one_rune s (\<lambda>d. d \<noteq> 10)) True (length s) 0 @ ends tail s 0" for s
    by (simp add: re_def eta)
  have "subMatches (Some re) sub \<longleftrightarrow> 10 \<notin> set (runes sub)" for sub
  proof
    let ?s = "runes sub"
    assume "10 \<notin> set ?s"
    then have "\<forall>k. 0 \<le> k \<and> k < length ?s \<longrightarrow> ?s ! k \<noteq> 10" by (metis nth_mem)
    then obtain js where "rloop (one_rune ?s (\<lambda>d. d \<noteq> 10)) True (length ?s) 0 = length ?s # js"
      using rloop_dot_star [where s = ?s and q = 0 and f = "length ?s"] by auto
    then have "ends re ?s 0 = length ?s # (js @ ends tail ?s 0)" by (simp add: e)
    then have "search re ?s 0 (length ?s) = Some (0, length ?s)"
      by (cases "length ?s") auto
    then show "subMatches (Some re) sub" by (simp add: subMatches_iff)
  next
    let ?s = "runes sub"
    assume m: "subMatches (Some re) sub"
    then obtain js where js: "ends re ?s 0 = length ?s # js"
      unfolding subMatches_iff using search_first by blast
    have "set (rloop (one_rune ?s (\<lambda>d. d \<noteq> 10)) True (length ?s) 0)
        = {j. matches ?s (RStar True RAny) 0 j}"
      using set_ends [of 0 ?s "RStar True RAny"] by (simp add: eta)
    moreover have "rloop (one_rune ?s (\<lambda>d. d \<noteq> 10)) True (length ?s) 0 \<noteq> []"
      by (cases "length ?s") auto
    ultimately have "matches ?s (RStar True RAny) 0 (length ?s)"
      using js e [of ?s] by (cases "rloop (one_rune ?s (\<lambda>d. d \<noteq> 10)) True (length ?s) 0") auto
    then show "10 \<notin> set ?s" by (auto simp: matches_dot_star in_set_conv_nth)
  qed
  moreover have "accountPinnedInARN ''re:^.*|a:b:c:d:123456789012:$''" by code_simp
  ultimately show ?thesis using c by blast
qed

text \<open>
  C37. The account guardrail can be passed without fixing an account. A glob with a wildcard before the
  account field, pinned to one account as far as \<open>accountPinnedInARN\<close> can see, matches an ARN of
  another account; and an anchored regular expression with an alternation that passes it matches
  every subject without a newline.
\<close>

theorem account_pin_escapes:
  "(\<exists>pattern re. accountPinnedInARN pattern \<and> compileSub ext pattern = Inr (Some re)
      \<and> Split (CHR '':'') pattern ! 5 = ''role/Admin'' \<and> Split (CHR '':'') pattern ! 4 = ''123456789012''
      \<and> subMatches (Some re) ''arn:aws:iam::999999999999:x::123456789012:role/Admin'')
   \<and> (\<exists>pattern re. accountPinnedInARN pattern \<and> compileSub ext pattern = Inr (Some re)
      \<and> (\<forall>sub. subMatches (Some re) sub \<longleftrightarrow> 10 \<notin> set (runes sub)))"
proof -
  have "Split (CHR '':'') ''arn:aws:*::123456789012:role/Admin'' ! 5 = ''role/Admin''"
    "Split (CHR '':'') ''arn:aws:*::123456789012:role/Admin'' ! 4 = ''123456789012''" by simp_all
  then show ?thesis
    using wildcard_field_escapes_account_pin [of ext] alternation_escapes_account_pin [of ext] by blast
qed

end
