(* ===== verification/FirstMatch.thy ===== *)
theory FirstMatch
  imports Prelude
begin

text \<open>
  The contract of a scan for the first rule that matches, as a locale: \<open>scan i rs\<close> looks through
  the rules \<open>rs\<close>, the first of which has the index \<open>i\<close>. The policy evaluator provides it. What
  follows from the contract, and the policy's clients rest on, is proved here once.
\<close>

locale first_match =
  fixes hit :: "nat \<Rightarrow> 'r \<Rightarrow> bool"
    and scan :: "nat \<Rightarrow> 'r list \<Rightarrow> (nat \<times> 'r) option"
  assumes scan_Nil: "scan i [] = None"
    and scan_Cons: "scan i (r # rs) = (if hit i r then Some (i, r) else scan (Suc i) rs)"
begin

lemma scan_None: "scan i rs = None \<longleftrightarrow> (\<forall>k < length rs. \<not> hit (i + k) (rs ! k))"
proof (induction rs arbitrary: i)
  case Nil
  then show ?case by (simp add: scan_Nil)
next
  case (Cons r rs)
  have "(\<forall>k < Suc (length rs). \<not> hit (i + k) ((r # rs) ! k)) \<longleftrightarrow>
      \<not> hit i r \<and> (\<forall>k < length rs. \<not> hit (Suc i + k) (rs ! k))"
    by (simp add: All_less_Suc2)
  then show ?case using Cons by (auto simp: scan_Cons)
qed

lemma scan_Some:
  "scan i rs = Some (j, r) \<longleftrightarrow>
     (\<exists>k < length rs. j = i + k \<and> r = rs ! k \<and> hit j r \<and> (\<forall>l < k. \<not> hit (i + l) (rs ! l)))"
proof (induction rs arbitrary: i)
  case Nil
  then show ?case by (simp add: scan_Nil)
next
  case (Cons x rs)
  have "(\<exists>k < Suc (length rs). j = i + k \<and> r = (x # rs) ! k \<and> hit j r
          \<and> (\<forall>l < k. \<not> hit (i + l) ((x # rs) ! l))) \<longleftrightarrow>
      (j = i \<and> r = x \<and> hit j r) \<or>
      (\<not> hit i x \<and> (\<exists>k < length rs. j = Suc i + k \<and> r = rs ! k \<and> hit j r
          \<and> (\<forall>l < k. \<not> hit (Suc i + l) (rs ! l))))"
    by (auto simp: Ex_less_Suc2 All_less_Suc2)
  then show ?case using Cons by (auto simp: scan_Cons)
qed

text \<open>A rule behind the one that matches is never reached; a new last rule only adds grants.\<close>

lemma scan_append:
  "scan i (rs @ more) = (case scan i rs of None \<Rightarrow> scan (i + length rs) more | Some x \<Rightarrow> Some x)"
  by (induction rs arbitrary: i) (auto simp: scan_Nil scan_Cons split: option.split)

lemma scan_shadowed: "scan i rs = Some x \<Longrightarrow> scan i (rs @ more) = Some x"
  by (simp add: scan_append)

lemma scan_cong: "(\<And>k. k < length rs \<Longrightarrow> hit (i + k) (rs ! k) \<longleftrightarrow> hit (i + k) (rs' ! k)) \<Longrightarrow>
    length rs = length rs' \<Longrightarrow> map_option fst (scan i rs) = map_option fst (scan i rs')"
proof (induction rs arbitrary: rs' i)
  case Nil
  then show ?case by (simp add: scan_Nil)
next
  case (Cons r rs)
  then obtain r' rs'' where rs': "rs' = r' # rs''" by (cases rs') auto
  have "hit i r \<longleftrightarrow> hit i r'" using Cons.prems(1) [of 0] rs' by simp
  moreover have "map_option fst (scan (Suc i) rs) = map_option fst (scan (Suc i) rs'')"
    using Cons.prems rs' by (intro Cons.IH) (force+)
  ultimately show ?case by (simp add: rs' scan_Cons)
qed

end

end
