(* ===== verification/Authz.thy ===== *)
theory Authz
  imports Cel SubPattern FirstMatch
begin

text \<open>
  \<open>internal/authz/authz.go\<close>: the policy, its validation and its evaluation. The sub patterns are
  in \<open>SubPattern\<close>, the CEL expressions in \<open>Cel\<close>.

  \<open>Validate\<close> works on the policy in place: it returns the policy it leaves behind together with
  the error, so that a run that fails leaves the rules before the failure compiled and the flag as
  it was. \<open>Evaluate\<close> takes the readings of the clock, one for each rule it gets to.

  Parameters: the CEL library (\<open>cel\<close>), the regular-expression syntax outside the modelled
  fragment (\<open>ext\<close>, see \<open>RegexpSyntax\<close>), and for \<open>LoadPolicy\<close> the file system and the YAML decoder.
\<close>

section \<open>Data\<close>

record Permission =
  Allow :: "string list"
  Deny :: "string list"

record Response =
  Response_Max :: "64 word"
  Response_TTL :: duration

record Grant =
  Grant_Account :: string
  Grant_Publish :: Permission
  Grant_Subscribe :: Permission
  Grant_Response :: "Response option"
  Grant_MaxExpiry :: duration

record Match =
  Match_Issuer :: string
  Match_Sub :: string
  Match_Claims :: "string gomap"
  Match_Expr :: string
  Match_AllowBroad :: bool

record 'prg Rule =
  Rule_Name :: string
  Rule_Match :: Match
  Rule_Grant :: Grant
  matcher :: "regex option"
  celProgram :: "'prg option"

record 'prg Policy =
  Rules :: "'prg Rule list"
  validated :: bool

text \<open>The fields of the JWT library's permission limits that the code sets; the rest are zero.\<close>

record ResponsePermission =
  MaxMsgs :: "64 word"
  Expires :: duration

record UserPermissionLimits =
  lim_Pub :: Permission
  lim_Sub :: Permission
  lim_Resp :: "ResponsePermission option"

record Decision =
  RuleName :: string
  Account :: string
  Permissions :: UserPermissionLimits
  MaxExpiry :: duration

datatype policy_error =
    NoRules
  | AccountRequired string
  | RuleSub string sub_error
  | ExprNeedsAllowBroad string
  | CELEnvironment string
  | RuleCEL string cel_error
  | BroadRule string

datatype evaluate_error = NotValidated | NoRuleMatched

datatype load_error =
    ReadPolicy string
  | ParsePolicy string
  | InvalidPolicy policy_error

section \<open>Rules\<close>

definition githubStrongPinKeys :: "string set" where
  "githubStrongPinKeys = {''repository'', ''repository_id'', ''job_workflow_ref''}"

definition hasStrongPin :: "'prg Rule \<Rightarrow> bool" where
  "hasStrongPin r =
     (if subIsExact (Match_Sub (Rule_Match r)) then True
      else if accountPinnedInARN (Match_Sub (Rule_Match r)) then True
      else if (case map_of (Match_Claims (Rule_Match r)) ''aws.aws_account'' of
                 Some v \<Rightarrow> MatchString awsAccountID v | None \<Rightarrow> False) then True
      else list_ex (\<lambda>(k, _). k \<in> githubStrongPinKeys) (Match_Claims (Rule_Match r)))"

definition rule_identity :: "'prg Rule \<Rightarrow> nat \<Rightarrow> string" where
  "rule_identity r i = (if Rule_Name r \<noteq> [] then Rule_Name r else ''#'' @ decimal i)"

definition permissionLimits :: "Grant \<Rightarrow> UserPermissionLimits" where
  "permissionLimits g =
     \<lparr>lim_Pub = \<lparr>Allow = Allow (Grant_Publish g), Deny = Deny (Grant_Publish g)\<rparr>,
      lim_Sub = \<lparr>Allow = Allow (Grant_Subscribe g), Deny = Deny (Grant_Subscribe g)\<rparr>,
      lim_Resp = map_option (\<lambda>r. \<lparr>MaxMsgs = Response_Max r, Expires = Response_TTL r\<rparr>) (Grant_Response g)\<rparr>"

definition rule_matches :: "('env, 'ast, 'prg) cel_api \<Rightarrow> time \<Rightarrow> 'prg Rule \<Rightarrow> identity \<Rightarrow> bool" where
  "rule_matches cel now r i =
     (if Match_Issuer (Rule_Match r) \<noteq> [] \<and> Match_Issuer (Rule_Match r) \<noteq> Issuer i then False
      else if \<not> subMatches (matcher r) (Subject i) then False
      else if list_ex (\<lambda>(k, want). Claim i k \<noteq> Some want) (Match_Claims (Rule_Match r)) then False
      else (case celProgram r of None \<Rightarrow> True | Some prg \<Rightarrow> evalCEL cel now prg i))"

section \<open>Validation\<close>

text \<open>
  One iteration of the loop: the rule as it is left, and the error or the CEL environment, which
  is created when the first rule needs it.
\<close>

definition validate_rule ::
  "('env, 'ast, 'prg) cel_api \<Rightarrow> (string \<Rightarrow> regex option) \<Rightarrow> nat \<Rightarrow> 'env option \<Rightarrow> 'prg Rule
   \<Rightarrow> 'prg Rule \<times> (policy_error + 'env option)" where
  "validate_rule cel ext i celEnv r =
     (if Grant_Account (Rule_Grant r) = [] then (r, Inl (AccountRequired (rule_identity r i)))
      else (case compileSub ext (Match_Sub (Rule_Match r)) of
              Inl e \<Rightarrow> (r, Inl (RuleSub (rule_identity r i) e))
            | Inr re \<Rightarrow>
                let r1 = r\<lparr>matcher := re\<rparr>;
                    broad = (\<lambda>r' env'. if \<not> hasStrongPin r' \<and> \<not> Match_AllowBroad (Rule_Match r')
                                        then (r', Inl (BroadRule (rule_identity r' i)))
                                        else (r', Inr env')) in
                if Match_Expr (Rule_Match r1) = [] then broad r1 celEnv
                else if \<not> Match_AllowBroad (Rule_Match r1)
                then (r1, Inl (ExprNeedsAllowBroad (rule_identity r1 i)))
                else (case (case celEnv of Some env \<Rightarrow> Inr env | None \<Rightarrow> newCELEnv cel) of
                        Inl e \<Rightarrow> (r1, Inl (CELEnvironment e))
                      | Inr env \<Rightarrow>
                          (case compileCELProgram cel env (Match_Expr (Rule_Match r1)) of
                             Inl e \<Rightarrow> (r1, Inl (RuleCEL (rule_identity r1 i) e))
                           | Inr prg \<Rightarrow> broad (r1\<lparr>celProgram := Some prg\<rparr>) (Some env)))))"

fun validate_rules ::
  "('env, 'ast, 'prg) cel_api \<Rightarrow> (string \<Rightarrow> regex option) \<Rightarrow> nat \<Rightarrow> 'env option \<Rightarrow> 'prg Rule list
   \<Rightarrow> 'prg Rule list \<times> policy_error option" where
  "validate_rules cel ext i celEnv [] = ([], None)"
| "validate_rules cel ext i celEnv (r # rs) =
     (case validate_rule cel ext i celEnv r of
        (r', Inl e) \<Rightarrow> (r' # rs, Some e)
      | (r', Inr celEnv') \<Rightarrow> apfst ((#) r') (validate_rules cel ext (Suc i) celEnv' rs))"

definition policy_Validate ::
  "('env, 'ast, 'prg) cel_api \<Rightarrow> (string \<Rightarrow> regex option) \<Rightarrow> 'prg Policy
   \<Rightarrow> 'prg Policy \<times> policy_error option" where
  "policy_Validate cel ext p =
     (if Rules p = [] then (p, Some NoRules)
      else (case validate_rules cel ext 0 None (Rules p) of
              (rs, Some e) \<Rightarrow> (p\<lparr>Rules := rs\<rparr>, Some e)
            | (rs, None) \<Rightarrow> (p\<lparr>Rules := rs, validated := True\<rparr>, None)))"

section \<open>Evaluation\<close>

fun first_rule ::
  "('env, 'ast, 'prg) cel_api \<Rightarrow> (nat \<Rightarrow> time) \<Rightarrow> identity \<Rightarrow> nat \<Rightarrow> 'prg Rule list
   \<Rightarrow> (nat \<times> 'prg Rule) option" where
  "first_rule cel clock d i [] = None"
| "first_rule cel clock d i (r # rs) =
     (if rule_matches cel (clock i) r d then Some (i, r) else first_rule cel clock d (Suc i) rs)"

definition decision_of :: "nat \<Rightarrow> 'prg Rule \<Rightarrow> Decision" where
  "decision_of i r =
     \<lparr>RuleName = rule_identity r i, Account = Grant_Account (Rule_Grant r),
      Permissions = permissionLimits (Rule_Grant r), MaxExpiry = Grant_MaxExpiry (Rule_Grant r)\<rparr>"

definition policy_Evaluate ::
  "('env, 'ast, 'prg) cel_api \<Rightarrow> (nat \<Rightarrow> time) \<Rightarrow> 'prg Policy \<Rightarrow> identity \<Rightarrow> evaluate_error + Decision" where
  "policy_Evaluate cel clock p d =
     (if \<not> validated p then Inl NotValidated
      else (case first_rule cel clock d 0 (Rules p) of
              Some (i, r) \<Rightarrow> Inr (decision_of i r)
            | None \<Rightarrow> Inl NoRuleMatched))"

text \<open>
  \<open>LoadPolicy\<close>: the file system and the YAML decoder are parameters. The decoder fills a zero
  policy, whose unexported fields it cannot reach.
\<close>

definition LoadPolicy ::
  "('env, 'ast, 'prg) cel_api \<Rightarrow> (string \<Rightarrow> regex option) \<Rightarrow> (string \<Rightarrow> string + string)
   \<Rightarrow> (string \<Rightarrow> string + 'prg Policy) \<Rightarrow> string \<Rightarrow> load_error + 'prg Policy" where
  "LoadPolicy cel ext readFile yamlUnmarshal path =
     (case readFile path of
        Inl e \<Rightarrow> Inl (ReadPolicy e)
      | Inr data \<Rightarrow>
          (case yamlUnmarshal data of
             Inl e \<Rightarrow> Inl (ParsePolicy e)
           | Inr p \<Rightarrow>
               (case policy_Validate cel ext p of
                  (_, Some e) \<Rightarrow> Inl (InvalidPolicy e)
                | (p', None) \<Rightarrow> Inr p')))"

interpretation policy_scan: first_match "\<lambda>i r. rule_matches cel (clock i) r d" "first_rule cel clock d"
  for cel :: "('env, 'ast, 'prg) cel_api" and clock :: "nat \<Rightarrow> time" and d :: identity
  by unfold_locales simp_all

end
