(* ===== verification/PolicyProps.thy ===== *)
theory PolicyProps
  imports Authz
begin

text \<open>
  What validation and evaluation of a policy guarantee. \<open>rule_valid\<close> is the contract of a rule,
  stated without the loop and its state; \<open>compiled\<close> is a rule with its matchers in place.
\<close>

section \<open>The contract of validation\<close>

definition rule_valid :: "('env, 'ast, 'prg) cel_api \<Rightarrow> (string \<Rightarrow> regex option) \<Rightarrow> 'prg Rule \<Rightarrow> bool" where
  "rule_valid cel ext r \<longleftrightarrow>
     Grant_Account (Rule_Grant r) \<noteq> []
     \<and> \<not> isl (compileSub ext (Match_Sub (Rule_Match r)))
     \<and> (Match_Expr (Rule_Match r) \<noteq> [] \<longrightarrow>
          Match_AllowBroad (Rule_Match r) \<and> \<not> isl (newCELEnv cel)
          \<and> \<not> isl (compileCELProgram cel (projr (newCELEnv cel)) (Match_Expr (Rule_Match r))))
     \<and> (hasStrongPin r \<or> Match_AllowBroad (Rule_Match r))"

definition compiled :: "('env, 'ast, 'prg) cel_api \<Rightarrow> (string \<Rightarrow> regex option) \<Rightarrow> 'prg Rule \<Rightarrow> 'prg Rule" where
  "compiled cel ext r =
     r\<lparr>matcher := projr (compileSub ext (Match_Sub (Rule_Match r))),
       celProgram := (if Match_Expr (Rule_Match r) = [] then celProgram r
                      else Some (projr (compileCELProgram cel (projr (newCELEnv cel))
                                          (Match_Expr (Rule_Match r)))))\<rparr>"

definition env_ok :: "('env, 'ast, 'prg) cel_api \<Rightarrow> 'env option \<Rightarrow> bool" where
  "env_ok cel celEnv \<longleftrightarrow> (\<forall>env. celEnv = Some env \<longrightarrow> newCELEnv cel = Inr env)"

lemma hasStrongPin_update [simp]:
  "hasStrongPin (r\<lparr>matcher := m\<rparr>) = hasStrongPin r"
  "hasStrongPin (r\<lparr>celProgram := c\<rparr>) = hasStrongPin r"
  by (simp_all add: hasStrongPin_def)

lemma compiled_simps [simp]:
  "Rule_Name (compiled cel ext r) = Rule_Name r"
  "Rule_Match (compiled cel ext r) = Rule_Match r"
  "Rule_Grant (compiled cel ext r) = Rule_Grant r"
  "hasStrongPin (compiled cel ext r) = hasStrongPin r"
  by (simp_all add: compiled_def)

lemma validate_rule_Inr:
  assumes "env_ok cel celEnv"
  shows "(\<exists>celEnv'. validate_rule cel ext i celEnv r = (r', Inr celEnv') \<and> env_ok cel celEnv')
    \<longleftrightarrow> rule_valid cel ext r \<and> r' = compiled cel ext r"
  using assms
  by (auto simp: validate_rule_def rule_valid_def compiled_def env_ok_def Let_def
           split: sum.splits option.splits if_splits)

lemma validate_rule_env_ok:
  "env_ok cel celEnv \<Longrightarrow> validate_rule cel ext i celEnv r = (r', Inr celEnv') \<Longrightarrow> env_ok cel celEnv'"
  by (auto simp: validate_rule_def env_ok_def Let_def split: sum.splits option.splits if_splits)

lemma validate_rule_cases:
  assumes "env_ok cel celEnv"
  obtains (ok) celEnv' where "rule_valid cel ext r" "env_ok cel celEnv'"
      "validate_rule cel ext i celEnv r = (compiled cel ext r, Inr celEnv')"
    | (err) r' e where "\<not> rule_valid cel ext r" "validate_rule cel ext i celEnv r = (r', Inl e)"
proof (cases "validate_rule cel ext i celEnv r")
  case (Pair r' x)
  show thesis
  proof (cases x)
    case (Inl e)
    have "\<not> rule_valid cel ext r"
      using validate_rule_Inr [OF assms, of ext i r "compiled cel ext r"] Pair Inl by auto
    then show thesis using err Pair Inl by blast
  next
    case (Inr celEnv')
    with Pair have v: "validate_rule cel ext i celEnv r = (r', Inr celEnv')" by simp
    note e = validate_rule_env_ok [OF assms v]
    then show thesis using ok v validate_rule_Inr [OF assms, of ext i r r'] by blast
  qed
qed

lemma validate_rules_None:
  "env_ok cel celEnv \<Longrightarrow> validate_rules cel ext i celEnv rs = (rs', None) \<longleftrightarrow>
     (\<forall>r \<in> set rs. rule_valid cel ext r) \<and> rs' = map (compiled cel ext) rs"
proof (induction rs arbitrary: i celEnv rs')
  case Nil
  then show ?case by auto
next
  case (Cons r rs)
  show ?case
  proof (rule validate_rule_cases [OF Cons.prems, of ext r i])
    fix celEnv'
    assume ok: "rule_valid cel ext r" "env_ok cel celEnv'"
      "validate_rule cel ext i celEnv r = (compiled cel ext r, Inr celEnv')"
    obtain rs1 e where v: "validate_rules cel ext (Suc i) celEnv' rs = (rs1, e)" by fastforce
    show ?thesis using Cons.IH [OF ok(2), of "Suc i" rs1] Cons.IH [OF ok(2), of "Suc i" "map (compiled cel ext) rs"] ok v
      by (cases e) auto
  next
    fix r' e
    assume "\<not> rule_valid cel ext r" "validate_rule cel ext i celEnv r = (r', Inl e)"
    then show ?thesis by auto
  qed
qed

lemma policy_Validate_None:
  "policy_Validate cel ext p = (p', None) \<longleftrightarrow>
     Rules p \<noteq> [] \<and> (\<forall>r \<in> set (Rules p). rule_valid cel ext r)
     \<and> p' = p\<lparr>Rules := map (compiled cel ext) (Rules p), validated := True\<rparr>"
proof -
  have "env_ok cel None" by (simp add: env_ok_def)
  note v = validate_rules_None [OF this, of ext 0 "Rules p"]
  obtain rs e where "validate_rules cel ext 0 None (Rules p) = (rs, e)" by fastforce
  with v [of rs] v [of "map (compiled cel ext) (Rules p)"] show ?thesis
    by (cases e) (auto simp: policy_Validate_def)
qed

lemma policy_Validate_Some:
  "policy_Validate cel ext p = (p', Some e) \<Longrightarrow> validated p' = validated p"
  by (auto simp: policy_Validate_def split: if_splits prod.splits option.splits)

section \<open>Evaluation\<close>

lemma policy_Evaluate_Inr:
  "policy_Evaluate cel clock p d = Inr x \<longleftrightarrow>
     validated p \<and> (\<exists>i < length (Rules p). x = decision_of i (Rules p ! i)
       \<and> rule_matches cel (clock i) (Rules p ! i) d
       \<and> (\<forall>j < i. \<not> rule_matches cel (clock j) (Rules p ! j) d))"
  using policy_scan.scan_Some [of cel clock d 0 "Rules p"]
  by (auto simp: policy_Evaluate_def split: option.split) (metis linorder_neqE_nat)

lemma policy_Evaluate_NoRuleMatched:
  "policy_Evaluate cel clock p d = Inl NoRuleMatched \<longleftrightarrow>
     validated p \<and> (\<forall>j < length (Rules p). \<not> rule_matches cel (clock j) (Rules p ! j) d)"
  using policy_scan.scan_None [of cel clock d 0 "Rules p"]
  by (auto simp: policy_Evaluate_def split: option.split)

lemma rule_matches_iff:
  "rule_matches cel now r d \<longleftrightarrow>
     (Match_Issuer (Rule_Match r) = [] \<or> Match_Issuer (Rule_Match r) = Issuer d)
     \<and> subMatches (matcher r) (Subject d)
     \<and> (\<forall>(k, want) \<in> set (Match_Claims (Rule_Match r)). Claim d k = Some want)
     \<and> (\<forall>prg. celProgram r = Some prg \<longrightarrow> prg_Eval cel prg (activation_of d now) = Inr (CelBool True))"
  by (auto simp: rule_matches_def evalCEL_iff list_ex_iff split: option.split)

lemma hasStrongPin_iff:
  "hasStrongPin r \<longleftrightarrow>
     subIsExact (Match_Sub (Rule_Match r)) \<or> accountPinnedInARN (Match_Sub (Rule_Match r))
     \<or> (\<exists>v. map_of (Match_Claims (Rule_Match r)) ''aws.aws_account'' = Some v \<and> account_id v)
     \<or> (\<exists>k v. k \<in> githubStrongPinKeys \<and> (k, v) \<in> set (Match_Claims (Rule_Match r)))"
  by (auto simp: hasStrongPin_def MatchString_awsAccountID list_ex_iff split: option.split)

section \<open>A policy and an identity to evaluate\<close>

text \<open>
  A stand-in for the CEL library: an expression is its own program, and it holds iff it spells the
  issuer of the token.
\<close>

definition sample_cel :: "(unit, string, string) cel_api" where
  "sample_cel =
     \<lparr>NewEnv = (\<lambda>_. Inr ()), env_Compile = (\<lambda>_ expr. Inr expr), OutputType = (\<lambda>_. BoolType),
      env_Program = (\<lambda>_ ast _. Inr ast), prg_Eval = (\<lambda>prg act. Inr (CelBool (prg = act_iss act)))\<rparr>"

definition sample_grant :: "string \<Rightarrow> Grant" where
  "sample_grant account =
     \<lparr>Grant_Account = account, Grant_Publish = \<lparr>Allow = [''app.>''], Deny = []\<rparr>,
      Grant_Subscribe = \<lparr>Allow = [], Deny = [''>'']\<rparr>, Grant_Response = None, Grant_MaxExpiry = 0\<rparr>"

definition sample_rule :: "string \<Rightarrow> Match \<Rightarrow> string Rule" where
  "sample_rule account m =
     \<lparr>Rule_Name = [], Rule_Match = m, Rule_Grant = sample_grant account, matcher = None, celProgram = None\<rparr>"

definition github_rule :: "string Rule" where
  "github_rule = sample_rule ''CI''
     \<lparr>Match_Issuer = ''gh'', Match_Sub = [], Match_Claims = [(''repository'', ''o/r'')],
      Match_Expr = [], Match_AllowBroad = False\<rparr>"

definition arn_rule :: "string Rule" where
  "arn_rule = sample_rule ''APP''
     \<lparr>Match_Issuer = [], Match_Sub = ''arn:aws:iam::123456789012:role/*'', Match_Claims = [],
      Match_Expr = [], Match_AllowBroad = False\<rparr>"

definition cel_rule :: "string Rule" where
  "cel_rule = sample_rule ''CEL''
     \<lparr>Match_Issuer = [], Match_Sub = [], Match_Claims = [], Match_Expr = ''aws'', Match_AllowBroad = True\<rparr>"

definition sample_policy :: "string Rule list \<Rightarrow> string Policy" where
  "sample_policy rs = \<lparr>Rules = rs, validated = False\<rparr>"

definition arn_identity :: identity where
  "arn_identity =
     \<lparr>Issuer = ''aws'', Subject = ''arn:aws:iam::123456789012:role/x'', Audience = [''nats''],
      Expiry = 0, claims = []\<rparr>"

definition validated_sample :: "string Rule list \<Rightarrow> string Policy" where
  "validated_sample rs = fst (policy_Validate sample_cel (\<lambda>_. None) (sample_policy rs))"

lemma sample_validates:
  "policy_Validate sample_cel (\<lambda>_. None) (sample_policy [github_rule, arn_rule, cel_rule])
     = (validated_sample [github_rule, arn_rule, cel_rule], None)"
proof -
  have "snd (policy_Validate sample_cel (\<lambda>_. None) (sample_policy [github_rule, arn_rule, cel_rule])) = None"
    by code_simp
  then show ?thesis unfolding validated_sample_def by (metis prod.collapse)
qed

lemma grant_conditions:
  assumes "\<forall>r \<in> set (Rules p). celProgram r = None"
    and "policy_Validate cel ext p = (p', None)" and "policy_Evaluate cel clock p' d = Inr x"
  shows "\<exists>i < length (Rules p). \<exists>re. x = decision_of i (Rules p ! i)
    \<and> (let m = Rule_Match (Rules p ! i) in
         Match_Issuer m \<in> {[], Issuer d}
         \<and> compileSub ext (Match_Sub m) = Inr re \<and> subMatches re (Subject d)
         \<and> (\<forall>(k, want) \<in> set (Match_Claims m). Claim d k = Some want)
         \<and> (Match_Expr m \<noteq> [] \<longrightarrow>
              (\<exists>env prg. newCELEnv cel = Inr env \<and> compileCELProgram cel env (Match_Expr m) = Inr prg
                 \<and> prg_Eval cel prg (activation_of d (clock i)) = Inr (CelBool True))))"
proof -
  have v: "\<forall>r \<in> set (Rules p). rule_valid cel ext r" "Rules p' = map (compiled cel ext) (Rules p)"
    using assms(2) by (simp_all add: policy_Validate_None)
  obtain i where i: "i < length (Rules p)" "x = decision_of i (compiled cel ext (Rules p ! i))"
    "rule_matches cel (clock i) (compiled cel ext (Rules p ! i)) d"
    using assms(3) by (auto simp: policy_Evaluate_Inr v(2))
  let ?r = "Rules p ! i"
  have r: "rule_valid cel ext ?r" "celProgram ?r = None" using v(1) assms(1) i(1) by auto
  have x: "x = decision_of i ?r" by (simp add: i(2) decision_of_def rule_identity_def)
  show ?thesis
    using i(1,3) r x
    by (auto simp: Let_def rule_matches_iff compiled_def rule_valid_def split: if_splits
             intro!: exI [of _ i] exI [of _ "projr (compileSub ext (Match_Sub (Rule_Match ?r)))"])
      (metis sum.collapse(2))+
qed

lemma exact_sub_subject:
  assumes "subIsExact pattern" and "valid_utf8 pattern" and "valid_utf8 sub"
    and "compileSub ext pattern = Inr re" and "subMatches re sub"
  shows "sub = pattern"
proof -
  have p: "pattern \<noteq> []" "\<not> HasPrefix pattern ''re:''" "CHR ''*'' \<notin> set pattern"
    using assms(1) by (auto simp: subIsExact_def split: if_splits)
  have "re = Some (glob_regex (runes pattern))"
    using compileSub_glob [OF p(1,2) assms(2), of ext] assms(4) by simp
  then have "runes sub = runes pattern"
    using assms(5) glob_match_exact [OF star_in_runes [OF p(3) assms(2)]] by (simp add: subMatches_glob)
  then show ?thesis using runes_inj [OF assms(3,2)] by simp
qed

section \<open>Properties\<close>

abbreviation sample_rules :: "string Rule list" where
  "sample_rules \<equiv> [github_rule, arn_rule, cel_rule]"

lemma sample_evaluates:
  "policy_Evaluate sample_cel (\<lambda>_. 0) (validated_sample sample_rules) arn_identity = Inr (decision_of 1 arn_rule)"
  by code_simp

text \<open>
  C13. The policy is decided by the first rule that matches. \<open>Evaluate\<close> grants iff the policy is
  validated and some rule matches; then the decision is that of the matching rule no earlier rule
  precedes, with that rule's name or index, account, permissions and cap. Each rule is asked at the
  clock reading of its own turn.
\<close>

theorem evaluate_first_match:
  "policy_Evaluate cel clock p d = Inr x \<longleftrightarrow>
     validated p \<and> (\<exists>i < length (Rules p). x = decision_of i (Rules p ! i)
       \<and> rule_matches cel (clock i) (Rules p ! i) d
       \<and> (\<forall>j < i. \<not> rule_matches cel (clock j) (Rules p ! j) d))"
  by (rule policy_Evaluate_Inr)

theorem evaluate_first_match_witness:
  "\<exists>i < 3. decision_of 1 arn_rule = decision_of i (Rules (validated_sample sample_rules) ! i)
     \<and> (\<forall>j < i. \<not> rule_matches sample_cel 0 (Rules (validated_sample sample_rules) ! j) arn_identity)"
proof -
  have "length (Rules (validated_sample sample_rules)) = 3" by code_simp
  then show ?thesis
    using sample_evaluates unfolding evaluate_first_match by auto
qed

text \<open>
  C12. What validation accepts, exactly. \<open>Validate\<close> succeeds iff the policy has rules and each of them
  has an account, a sub pattern that compiles, for an expression the \<open>allow_broad\<close> flag, an
  environment and a program of Boolean type, and a strong identity pin or the flag. It then leaves
  every rule compiled, changes nothing else of it, and marks the policy validated.
\<close>

theorem validate_contract:
  "policy_Validate cel ext p = (p', None) \<longleftrightarrow>
     Rules p \<noteq> [] \<and> (\<forall>r \<in> set (Rules p). rule_valid cel ext r)
     \<and> p' = p\<lparr>Rules := map (compiled cel ext) (Rules p), validated := True\<rparr>"
  by (rule policy_Validate_None)

theorem validate_contract_witness:
  "rule_valid sample_cel (\<lambda>_. None) cel_rule
   \<and> \<not> rule_valid sample_cel (\<lambda>_. None) (cel_rule\<lparr>Rule_Match := (Rule_Match cel_rule)\<lparr>Match_AllowBroad := False\<rparr>\<rparr>)"
proof -
  have "rule_valid sample_cel (\<lambda>_. None) cel_rule"
    using sample_validates unfolding validate_contract by (simp add: sample_policy_def)
  moreover have "Match_Expr (Rule_Match cel_rule) \<noteq> []" by (simp add: cel_rule_def sample_rule_def)
  ultimately show ?thesis by (simp add: rule_valid_def)
qed

text \<open>
  A policy that fails validation denies everything. Whatever rule the failure is at, and
  although the rules before it are already compiled, the policy \<open>Validate\<close> leaves behind answers
  every identity with the error that it is not validated.
\<close>

theorem failed_validation_denies:
  assumes "\<not> validated p" and "policy_Validate cel ext p = (p', Some e)"
  shows "policy_Evaluate cel' clock p' d = Inl NotValidated"
  using policy_Validate_Some [OF assms(2)] assms(1) by (simp add: policy_Evaluate_def)

theorem failed_validation_denies_witness:
  "\<exists>p' e. policy_Validate sample_cel (\<lambda>_. None)
        (sample_policy [arn_rule, arn_rule\<lparr>Rule_Grant := sample_grant []\<rparr>]) = (p', Some e)
     \<and> policy_Evaluate sample_cel (\<lambda>_. 0) p' arn_identity = Inl NotValidated"
proof -
  let ?p = "sample_policy [arn_rule, arn_rule\<lparr>Rule_Grant := sample_grant []\<rparr>]"
  have "snd (policy_Validate sample_cel (\<lambda>_. None) ?p) = Some (AccountRequired ''#1'')" by code_simp
  then have v: "policy_Validate sample_cel (\<lambda>_. None) ?p
      = (fst (policy_Validate sample_cel (\<lambda>_. None) ?p), Some (AccountRequired ''#1''))"
    by (metis prod.collapse)
  have "\<not> validated ?p" by (simp add: sample_policy_def)
  from failed_validation_denies [OF this v] v show ?thesis by blast
qed

text \<open>
  C8. A grant means that every condition of its rule holds. When a policy that has passed
  validation grants, some rule of the source policy has the issuer of the token or none, a sub
  pattern that spans the whole subject or none, only claims the identity has with the wanted
  value, and, if it has an expression, one that compiles to a Boolean program under the cost limit
  and evaluates to true; an evaluation error or another value never grants.
\<close>

theorem grant_conditions_hold:
  assumes "\<forall>r \<in> set (Rules p). celProgram r = None"
    and "policy_Validate cel ext p = (p', None)" and "policy_Evaluate cel clock p' d = Inr x"
  shows "\<exists>i < length (Rules p). \<exists>re. x = decision_of i (Rules p ! i)
    \<and> (let m = Rule_Match (Rules p ! i) in
         Match_Issuer m \<in> {[], Issuer d}
         \<and> compileSub ext (Match_Sub m) = Inr re \<and> subMatches re (Subject d)
         \<and> (\<forall>(k, want) \<in> set (Match_Claims m). Claim d k = Some want)
         \<and> (Match_Expr m \<noteq> [] \<longrightarrow>
              (\<exists>env prg. newCELEnv cel = Inr env \<and> compileCELProgram cel env (Match_Expr m) = Inr prg
                 \<and> prg_Eval cel prg (activation_of d (clock i)) = Inr (CelBool True))))"
  by (rule grant_conditions [OF assms])

theorem grant_conditions_hold_witness:
  "\<exists>i < 3. \<exists>re. decision_of 1 arn_rule = decision_of i (sample_rules ! i)
     \<and> compileSub (\<lambda>_. None) (Match_Sub (Rule_Match (sample_rules ! i))) = Inr re
     \<and> subMatches re (Subject arn_identity)"
proof -
  have "\<forall>r \<in> set (Rules (sample_policy sample_rules)). celProgram r = None"
    by (simp add: sample_policy_def github_rule_def arn_rule_def cel_rule_def sample_rule_def)
  from grant_conditions_hold [OF this sample_validates sample_evaluates]
  show ?thesis by (auto simp: Let_def sample_policy_def numeral_3_eq_3)
qed

text \<open>
  C5. No grant without a pin unless the operator asked for it. When a validated policy grants, the
  rule that did either carries \<open>allow_broad\<close>, or ties the identity down: its sub is exact and is the
  subject, or it passes the account guardrail and spans the subject, or it wants an AWS account
  claim that is a 12-digit literal and the identity has it, or it wants a value of one of the strong
  GitHub claims and the identity has that value.
\<close>

theorem narrow_unless_allowed:
  assumes "\<forall>r \<in> set (Rules p). celProgram r = None \<and> valid_utf8 (Match_Sub (Rule_Match r))"
    and "valid_utf8 (Subject d)"
    and "policy_Validate cel ext p = (p', None)" and "policy_Evaluate cel clock p' d = Inr x"
  shows "\<exists>i < length (Rules p). x = decision_of i (Rules p ! i) \<and> Account x \<noteq> []
    \<and> (let m = Rule_Match (Rules p ! i) in
         Match_AllowBroad m
         \<or> (subIsExact (Match_Sub m) \<and> Subject d = Match_Sub m)
         \<or> (accountPinnedInARN (Match_Sub m)
              \<and> (\<exists>re. compileSub ext (Match_Sub m) = Inr re \<and> subMatches re (Subject d)))
         \<or> (\<exists>v. (''aws.aws_account'', v) \<in> set (Match_Claims m) \<and> account_id v
              \<and> Claim d ''aws.aws_account'' = Some v)
         \<or> (\<exists>k v. k \<in> githubStrongPinKeys \<and> (k, v) \<in> set (Match_Claims m) \<and> Claim d k = Some v))"
proof -
  have n: "\<forall>r \<in> set (Rules p). celProgram r = None" using assms(1) by blast
  obtain i re where i: "i < length (Rules p)" "x = decision_of i (Rules p ! i)"
    and re: "compileSub ext (Match_Sub (Rule_Match (Rules p ! i))) = Inr re" "subMatches re (Subject d)"
    and cl: "\<forall>(k, want) \<in> set (Match_Claims (Rule_Match (Rules p ! i))). Claim d k = Some want"
    using grant_conditions [OF n assms(3,4)] by (auto simp: Let_def)
  let ?r = "Rules p ! i"
  let ?m = "Rule_Match ?r"
  have r: "?r \<in> set (Rules p)" using i(1) by simp
  then have v: "rule_valid cel ext ?r" using assms(3) by (simp add: policy_Validate_None)
  then have a: "Account x \<noteq> []" by (simp add: i(2) decision_of_def rule_valid_def)
  have "Match_AllowBroad ?m \<or> hasStrongPin ?r" using v by (auto simp: rule_valid_def)
  then have "Match_AllowBroad ?m
      \<or> (subIsExact (Match_Sub ?m) \<and> Subject d = Match_Sub ?m)
      \<or> accountPinnedInARN (Match_Sub ?m)
      \<or> (\<exists>v. (''aws.aws_account'', v) \<in> set (Match_Claims ?m) \<and> account_id v
           \<and> Claim d ''aws.aws_account'' = Some v)
      \<or> (\<exists>k v. k \<in> githubStrongPinKeys \<and> (k, v) \<in> set (Match_Claims ?m) \<and> Claim d k = Some v)"
    unfolding hasStrongPin_iff
    using exact_sub_subject [of "Match_Sub ?m" "Subject d" ext re] assms(1,2) r re cl
    by (elim disjE exE conjE) (force dest!: map_of_SomeD)+
  with i a re show ?thesis by (auto simp: Let_def)
qed

theorem narrow_unless_allowed_witness:
  "accountPinnedInARN (Match_Sub (Rule_Match arn_rule))
   \<and> (\<exists>i < 2. decision_of 1 arn_rule = decision_of i ([github_rule, arn_rule] ! i)
        \<and> \<not> Match_AllowBroad (Rule_Match ([github_rule, arn_rule] ! i)))"
proof -
  let ?p = "sample_policy [github_rule, arn_rule]" and ?p' = "validated_sample [github_rule, arn_rule]"
  have "snd (policy_Validate sample_cel (\<lambda>_. None) ?p) = None" by code_simp
  then have v: "policy_Validate sample_cel (\<lambda>_. None) ?p = (?p', None)"
    unfolding validated_sample_def by (metis prod.collapse)
  have e: "policy_Evaluate sample_cel (\<lambda>_. 0) ?p' arn_identity = Inr (decision_of 1 arn_rule)" by code_simp
  have n: "\<forall>r \<in> set (Rules ?p). celProgram r = None \<and> valid_utf8 (Match_Sub (Rule_Match r))" by code_simp
  have u: "valid_utf8 (Subject arn_identity)" by code_simp
  have a: "accountPinnedInARN (Match_Sub (Rule_Match arn_rule))" by code_simp
  have b: "\<forall>i < 2. \<not> Match_AllowBroad (Rule_Match ([github_rule, arn_rule] ! i))"
    by (simp add: All_less_Suc numeral_2_eq_2 github_rule_def arn_rule_def sample_rule_def)
  from narrow_unless_allowed [OF n u v e] a b show ?thesis
    by (auto simp: sample_policy_def numeral_2_eq_2)
qed

text \<open>
  Rules at the end never change a grant. Extending a policy by further rules keeps every decision
  that the shorter policy took, its account, permissions and cap included: no later rule can
  override or narrow an earlier one.
\<close>

theorem appended_rules_keep_grants:
  assumes "policy_Validate cel ext p = (p', None)"
    and "policy_Validate cel ext (p\<lparr>Rules := Rules p @ extra\<rparr>) = (q', None)"
    and "policy_Evaluate cel clock p' d = Inr x"
  shows "policy_Evaluate cel clock q' d = Inr x"
proof -
  have p': "validated p'" "Rules p' = map (compiled cel ext) (Rules p)"
    using assms(1) by (simp_all add: policy_Validate_None)
  have q': "validated q'" "Rules q' = Rules p' @ map (compiled cel ext) extra"
    using assms(2) p'(2) by (simp_all add: policy_Validate_None)
  obtain i r where "first_rule cel clock d 0 (Rules p') = Some (i, r)" "x = decision_of i r"
    using assms(3) by (auto simp: policy_Evaluate_def split: if_splits option.splits)
  with policy_scan.scan_shadowed [OF this(1)] q' show ?thesis by (simp add: policy_Evaluate_def)
qed

theorem appended_rules_keep_grants_witness:
  "policy_Evaluate sample_cel (\<lambda>_. 0) (validated_sample [github_rule, arn_rule, cel_rule]) arn_identity
     = Inr (decision_of 1 arn_rule)"
proof -
  let ?p = "sample_policy [github_rule, arn_rule]" and ?p' = "validated_sample [github_rule, arn_rule]"
  have "snd (policy_Validate sample_cel (\<lambda>_. None) ?p) = None" by code_simp
  then have v: "policy_Validate sample_cel (\<lambda>_. None) ?p = (?p', None)"
    unfolding validated_sample_def by (metis prod.collapse)
  have e: "policy_Evaluate sample_cel (\<lambda>_. 0) ?p' arn_identity = Inr (decision_of 1 arn_rule)" by code_simp
  have q: "policy_Validate sample_cel (\<lambda>_. None) (?p\<lparr>Rules := Rules ?p @ [cel_rule]\<rparr>)
      = (validated_sample [github_rule, arn_rule, cel_rule], None)"
    using sample_validates by (simp add: sample_policy_def)
  show ?thesis by (rule appended_rules_keep_grants [OF v q e])
qed

text \<open>
  A policy that was loaded is a policy that was validated. When \<open>LoadPolicy\<close> returns a policy,
  the file was read and decoded, the decoded rules all met the contract of validation, and the
  policy is the decoded one with its rules compiled and its flag set.
\<close>

theorem loaded_policy_enforced:
  assumes "LoadPolicy cel ext readFile yamlUnmarshal path = Inr p'"
  shows "\<exists>data p. readFile path = Inr data \<and> yamlUnmarshal data = Inr p \<and> Rules p \<noteq> []
    \<and> (\<forall>r \<in> set (Rules p). rule_valid cel ext r)
    \<and> p' = p\<lparr>Rules := map (compiled cel ext) (Rules p), validated := True\<rparr>"
  using assms policy_Validate_None [of cel ext]
  by (auto simp: LoadPolicy_def split: sum.splits prod.splits option.splits)

end
