(* ===== verification/Verifier.thy ===== *)
theory Verifier
  imports Identity Base64
begin

text \<open>
  \<open>internal/verifier/verifier.go\<close>: the set of trusted issuers and the verification of a token.

  The OIDC library is a parameter, the record \<open>oidc_api\<close>: discovery of a provider, the verifier of
  a provider under a configuration, and the verification of a token, which yields the verified
  token or an error (it stands for the signature, the keys it fetches and the clock at the time of
  the call). \<open>New\<close> asks for each issuer once, so one answer per URL is all it can observe.
\<close>

section \<open>The OIDC library\<close>

datatype tls_version = VersionTLS10 | VersionTLS11 | VersionTLS12 | VersionTLS13

record 'cas transport =
  ProxyFromEnvironment :: bool
  tls_RootCAs :: 'cas
  tls_MinVersion :: tls_version

record 'cas http_client =
  client_Timeout :: duration
  client_Transport :: "'cas transport option"

record oidc_config =
  SkipClientIDCheck :: bool
  SupportedSigningAlgs :: "string list"

text \<open>\<open>tok_Claims\<close> is what reading the raw claims of the token yields.\<close>

record id_token =
  tok_Issuer :: string
  tok_Subject :: string
  tok_Audience :: "string list"
  tok_Expiry :: time
  tok_Claims :: "string + string"

record ('cas, 'prov, 'idv) oidc_api =
  NewProvider :: "'cas http_client \<Rightarrow> string \<Rightarrow> string + 'prov"
  provider_Verifier :: "'prov \<Rightarrow> oidc_config \<Rightarrow> 'idv"
  idv_Verify :: "'idv \<Rightarrow> string \<Rightarrow> string + id_token"

section \<open>Configuration\<close>

record IssuerOption =
  URL :: string
  RequireClaims :: "string gomap"

record 'cas Options =
  Issuers :: "IssuerOption list"
  Audiences :: "string list"
  SigningAlgs :: "string list"
  HTTPTimeout :: duration
  RootCAs :: "'cas option"

record 'idv issuerEntry =
  entry_verifier :: 'idv
  requireClaims :: "string gomap"

record 'idv Verifier =
  issuers :: "'idv issuerEntry gomap"
  audiences :: "string set"

datatype new_error =
    NoIssuers
  | NoAudiences
  | NoSigningAlgs
  | DuplicateIssuer string
  | Discovery string string

definition http_client_of :: "'cas Options \<Rightarrow> 'cas http_client" where
  "http_client_of opts =
     (let timeout = (if HTTPTimeout opts = 0 then 10 * Second else HTTPTimeout opts) in
      \<lparr>client_Timeout = timeout,
       client_Transport =
         (case RootCAs opts of
            None \<Rightarrow> None
          | Some cas \<Rightarrow> Some \<lparr>ProxyFromEnvironment = True, tls_RootCAs = cas, tls_MinVersion = VersionTLS12\<rparr>)\<rparr>)"

fun add_issuers ::
  "('cas, 'prov, 'idv) oidc_api \<Rightarrow> 'cas http_client \<Rightarrow> string list \<Rightarrow> IssuerOption list
   \<Rightarrow> 'idv issuerEntry gomap \<Rightarrow> new_error + 'idv issuerEntry gomap" where
  "add_issuers oidc client algs [] m = Inr m"
| "add_issuers oidc client algs (iss # rest) m =
     (if map_of m (URL iss) \<noteq> None then Inl (DuplicateIssuer (URL iss))
      else (case NewProvider oidc client (URL iss) of
              Inl e \<Rightarrow> Inl (Discovery (URL iss) e)
            | Inr provider \<Rightarrow>
                let oidcVerifier = provider_Verifier oidc provider
                      \<lparr>SkipClientIDCheck = True, SupportedSigningAlgs = algs\<rparr> in
                add_issuers oidc client algs rest
                  (AList.update (URL iss)
                    \<lparr>entry_verifier = oidcVerifier, requireClaims = RequireClaims iss\<rparr> m)))"

definition Verifier_New :: "('cas, 'prov, 'idv) oidc_api \<Rightarrow> 'cas Options \<Rightarrow> new_error + 'idv Verifier" where
  "Verifier_New oidc opts =
     (if Issuers opts = [] then Inl NoIssuers
      else if Audiences opts = [] then Inl NoAudiences
      else if SigningAlgs opts = [] then Inl NoSigningAlgs
      else (case add_issuers oidc (http_client_of opts) (SigningAlgs opts) (Issuers opts) [] of
              Inl e \<Rightarrow> Inl e
            | Inr m \<Rightarrow> Inr \<lparr>issuers = m, audiences = set (Audiences opts)\<rparr>))"

section \<open>Verification\<close>

datatype verify_error =
    EmptyToken
  | ThreeSegments
  | PayloadBase64
  | PayloadJSON
  | NoIssuer
  | UntrustedIssuer
  | TokenVerification string
  | AudienceNotAllowed "string list"
  | ReadTokenClaims string
  | DecodeClaims parse_error
  | RequiredClaim string

definition audienceAllowed :: "'idv Verifier \<Rightarrow> string list \<Rightarrow> bool" where
  "audienceAllowed v tokenAudiences \<longleftrightarrow> list_ex (\<lambda>aud. aud \<in> audiences v) tokenAudiences"

text \<open>The struct with the one field \<open>iss\<close>: the value and whether a member has the wrong type.\<close>

definition issuer_struct :: "json \<Rightarrow> string \<times> bool" where
  "issuer_struct v =
     (case v of
        JObj ms \<Rightarrow> fold (string_field ''iss'') ms ([], False)
      | JNull \<Rightarrow> ([], False)
      | _ \<Rightarrow> ([], True))"

definition unverifiedIssuer :: "string \<Rightarrow> verify_error + string" where
  "unverifiedIssuer rawToken =
     (let parts = Split CHR ''.'' rawToken in
      if length parts \<noteq> 3 then Inl ThreeSegments
      else (case RawURL_DecodeString (parts ! 1) of
              None \<Rightarrow> Inl PayloadBase64
            | Some payload \<Rightarrow>
                (case Unmarshal payload of
                   None \<Rightarrow> Inl PayloadJSON
                 | Some v \<Rightarrow>
                     (case issuer_struct v of
                        (iss, err) \<Rightarrow>
                          if err then Inl PayloadJSON
                          else if iss = [] then Inl NoIssuer else Inr iss))))"

fun unmet_claim :: "identity \<Rightarrow> string gomap \<Rightarrow> string option" where
  "unmet_claim d [] = None"
| "unmet_claim d ((k, want) # rest) = (if Claim d k \<noteq> Some want then Some k else unmet_claim d rest)"

definition Verify ::
  "('cas, 'prov, 'idv) oidc_api \<Rightarrow> (json \<Rightarrow> json) \<Rightarrow> 'idv Verifier \<Rightarrow> string \<Rightarrow> verify_error + identity" where
  "Verify oidc order v rawToken =
     (if rawToken = [] then Inl EmptyToken
      else case unverifiedIssuer rawToken of
        Inl e \<Rightarrow> Inl e
      | Inr iss \<Rightarrow>
          (case map_of (issuers v) iss of
             None \<Rightarrow> Inl UntrustedIssuer
           | Some entry \<Rightarrow>
               (case idv_Verify oidc (entry_verifier entry) rawToken of
                  Inl e \<Rightarrow> Inl (TokenVerification e)
                | Inr idToken \<Rightarrow>
                    if \<not> audienceAllowed v (tok_Audience idToken)
                    then Inl (AudienceNotAllowed (tok_Audience idToken))
                    else (case tok_Claims idToken of
                            Inl e \<Rightarrow> Inl (ReadTokenClaims e)
                          | Inr raw \<Rightarrow>
                              (case Parse order raw of
                                 Inl e \<Rightarrow> Inl (DecodeClaims e)
                               | Inr d0 \<Rightarrow>
                                   let d = d0\<lparr>Issuer := tok_Issuer idToken, Subject := tok_Subject idToken,
                                              Audience := tok_Audience idToken, Expiry := tok_Expiry idToken\<rparr> in
                                   (case unmet_claim d (requireClaims entry) of
                                      Some k \<Rightarrow> Inl (RequiredClaim k)
                                    | None \<Rightarrow> Inr d))))))"

end
