(* ===== verification/VerifierProps.thy ===== *)
theory VerifierProps
  imports Verifier
begin

text \<open>
  What the verifier guarantees. \<open>oidc_contract\<close> states the documented behaviour of the OIDC
  library that the trust in a token rests on: discovery fails unless the provider it finds claims
  the URL it was asked for, and a verifier accepts a token only from the issuer of its provider.
\<close>

section \<open>Construction\<close>

definition verifier_config :: "string list \<Rightarrow> oidc_config" where
  "verifier_config algs = \<lparr>SkipClientIDCheck = True, SupportedSigningAlgs = algs\<rparr>"

definition entry_of ::
  "('cas, 'prov, 'idv) oidc_api \<Rightarrow> 'cas http_client \<Rightarrow> string list \<Rightarrow> IssuerOption
   \<Rightarrow> string \<times> 'idv issuerEntry" where
  "entry_of oidc client algs i =
     (URL i, \<lparr>entry_verifier = provider_Verifier oidc (projr (NewProvider oidc client (URL i))) (verifier_config algs),
              requireClaims = RequireClaims i\<rparr>)"

lemma fst_entry_of [simp]: "fst (entry_of oidc client algs i) = URL i"
  by (simp add: entry_of_def)

lemma add_issuers_Inr:
  "add_issuers oidc client algs is m = Inr m' \<longleftrightarrow>
     distinct (map URL is) \<and> (\<forall>i \<in> set is. URL i \<notin> fst ` set m \<and> \<not> isl (NewProvider oidc client (URL i)))
     \<and> m' = m @ map (entry_of oidc client algs) is"
proof (induction "is" arbitrary: m)
  case Nil
  then show ?case by auto
next
  case (Cons i "is")
  show ?case
  proof (cases "map_of m (URL i)")
    case (Some x)
    then have "URL i \<in> fst ` set m" by (force dest: map_of_SomeD)
    with Some show ?thesis by simp
  next
    case None
    then have n: "URL i \<notin> fst ` set m" by (simp add: map_of_eq_None_iff)
    show ?thesis
    proof (cases "NewProvider oidc client (URL i)")
      case (Inl e)
      with None show ?thesis by simp
    next
      case (Inr prov)
      then have "add_issuers oidc client algs (i # is) m
          = add_issuers oidc client algs is (m @ [entry_of oidc client algs i])"
        using None n by (simp add: update_new entry_of_def verifier_config_def)
      then show ?thesis
        using Inr n Cons.IH [of "m @ [entry_of oidc client algs i]"]
        by (auto simp: image_iff simp del: add_issuers.simps)
    qed
  qed
qed

lemma Verifier_New_Inr:
  "Verifier_New oidc opts = Inr v \<longleftrightarrow>
     Issuers opts \<noteq> [] \<and> Audiences opts \<noteq> [] \<and> SigningAlgs opts \<noteq> [] \<and> distinct (map URL (Issuers opts))
     \<and> (\<forall>i \<in> set (Issuers opts). \<not> isl (NewProvider oidc (http_client_of opts) (URL i)))
     \<and> v = \<lparr>issuers = map (entry_of oidc (http_client_of opts) (SigningAlgs opts)) (Issuers opts),
             audiences = set (Audiences opts)\<rparr>"
  using add_issuers_Inr [of oidc "http_client_of opts" "SigningAlgs opts" "Issuers opts" "[]"]
  by (cases "add_issuers oidc (http_client_of opts) (SigningAlgs opts) (Issuers opts) []")
    (auto simp: Verifier_New_def)

section \<open>Verification\<close>

lemma unmet_claim_None: "unmet_claim d m = None \<longleftrightarrow> (\<forall>(k, want) \<in> set m. Claim d k = Some want)"
  by (induction d m rule: unmet_claim.induct) auto

lemma unmet_claim_Some:
  "unmet_claim d m = Some k \<Longrightarrow> \<not> (\<forall>(k, want) \<in> set m. Claim d k = Some want)"
  using unmet_claim_None [of d m] by simp

lemma Claim_update [simp]:
  "Claim (d\<lparr>Issuer := a\<rparr>) = Claim d" "Claim (d\<lparr>Subject := a\<rparr>) = Claim d"
  "Claim (d\<lparr>Audience := l\<rparr>) = Claim d" "Claim (d\<lparr>Expiry := t\<rparr>) = Claim d"
  by (simp_all add: Claim_def fun_eq_iff)

text \<open>The identity a verified token stands for.\<close>

definition identity_of_token :: "id_token \<Rightarrow> identity \<Rightarrow> identity" where
  "identity_of_token idt d0 =
     d0\<lparr>Issuer := tok_Issuer idt, Subject := tok_Subject idt, Audience := tok_Audience idt,
        Expiry := tok_Expiry idt\<rparr>"

lemma Claim_identity_of_token [simp]: "Claim (identity_of_token idt d0) = Claim d0"
  by (simp add: identity_of_token_def)

lemma audienceAllowed_iff: "audienceAllowed v auds \<longleftrightarrow> (\<exists>a \<in> set auds. a \<in> audiences v)"
  by (simp add: audienceAllowed_def list_ex_iff)

lemma Verify_Inr:
  "Verify oidc order v tok = Inr d \<longleftrightarrow>
     (\<exists>iss entry idt raw d0. tok \<noteq> [] \<and> unverifiedIssuer tok = Inr iss
        \<and> map_of (issuers v) iss = Some entry \<and> idv_Verify oidc (entry_verifier entry) tok = Inr idt
        \<and> (\<exists>a \<in> set (tok_Audience idt). a \<in> audiences v)
        \<and> tok_Claims idt = Inr raw \<and> Parse order raw = Inr d0
        \<and> d = identity_of_token idt d0
        \<and> (\<forall>(k, want) \<in> set (requireClaims entry). Claim d k = Some want))"
  by (auto simp: Verify_def audienceAllowed_iff identity_of_token_def unmet_claim_None Let_def
           split: sum.splits option.splits if_splits dest!: unmet_claim_Some) force

definition oidc_contract ::
  "('cas, 'prov, 'idv) oidc_api \<Rightarrow> ('prov \<Rightarrow> string) \<Rightarrow> bool" where
  "oidc_contract oidc issuer_of \<longleftrightarrow>
     (\<forall>client url prov. NewProvider oidc client url = Inr prov \<longrightarrow> issuer_of prov = url)
     \<and> (\<forall>prov cfg tok idt. idv_Verify oidc (provider_Verifier oidc prov cfg) tok = Inr idt
          \<longrightarrow> tok_Issuer idt = issuer_of prov)"

section \<open>The payload segment of an encoded token\<close>

lemma alphabet_no_dot: "n < 64 \<Longrightarrow> alphabet n \<noteq> CHR ''.''"
proof
  assume n: "n < 64" and a: "alphabet n = CHR ''.''"
  have "byte (CHR ''.'') = 46" by (simp add: byte_def)
  then have "byte (alphabet n) = 46" using a by simp
  then show False using n by (auto simp: byte_alphabet split: if_splits)
qed

lemma RawURL_EncodeToString_no_dot: "CHR ''.'' \<notin> set (RawURL_EncodeToString s)"
proof (induction s rule: RawURL_EncodeToString.induct)
  case (2 x)
  have "16 * (byte x mod 4) < 64" using sextet_bounds(1) [of "byte x mod 4" 0] by simp
  then show ?case using alphabet_no_dot byte_lt by (metis RawURL_EncodeToString.simps(2) set_ConsD empty_iff empty_set)
next
  case (3 x y)
  have "4 * (byte y mod 16) < 64" using sextet_bounds(2) [of "byte y mod 16" 0] by simp
  moreover have "16 * (byte x mod 4) + byte y div 16 < 64" by (simp add: sextet_bounds byte_lt)
  ultimately show ?case
    using alphabet_no_dot byte_lt(1) [of x] by (metis RawURL_EncodeToString.simps(3) set_ConsD empty_iff empty_set)
next
  case (4 x y z rest)
  have lt: "byte x div 4 < 64" "16 * (byte x mod 4) + byte y div 16 < 64"
    "4 * (byte y mod 16) + byte z div 64 < 64" "byte z mod 64 < 64"
    by (simp_all only: byte_lt sextet_bounds mod_less_divisor zero_less_numeral)
  have "c \<notin> {alphabet (byte x div 4), alphabet (16 * (byte x mod 4) + byte y div 16),
      alphabet (4 * (byte y mod 16) + byte z div 64), alphabet (byte z mod 64)}" if "c = CHR ''.''" for c
    using that lt [THEN alphabet_no_dot] by auto
  with 4 show ?case by (simp only: RawURL_EncodeToString.simps set_simps) blast
qed simp

lemma unverifiedIssuer_encoded:
  assumes "CHR ''.'' \<notin> set header" and "CHR ''.'' \<notin> set signature"
  shows "unverifiedIssuer (header @ ''.'' @ RawURL_EncodeToString payload @ ''.'' @ signature) =
    (case Unmarshal payload of
       None \<Rightarrow> Inl PayloadJSON
     | Some v \<Rightarrow> (case issuer_struct v of
                  (iss, err) \<Rightarrow> if err then Inl PayloadJSON else if iss = [] then Inl NoIssuer else Inr iss))"
proof -
  have "header @ ''.'' @ RawURL_EncodeToString payload @ ''.'' @ signature
      = Join CHR ''.'' [header, RawURL_EncodeToString payload, signature]" by simp
  then have "Split CHR ''.'' (header @ ''.'' @ RawURL_EncodeToString payload @ ''.'' @ signature)
      = [header, RawURL_EncodeToString payload, signature]"
    using assms RawURL_EncodeToString_no_dot Split_Join
      [of "[header, RawURL_EncodeToString payload, signature]" "CHR ''.''"] by simp
  then show ?thesis by (simp add: unverifiedIssuer_def base64_roundtrip)
qed

section \<open>A library, a configuration and a token to evaluate\<close>

text \<open>
  A provider and a verifier are the URL; the verifier accepts every token, in the name of its
  issuer, with the claims of \<open>sample_payload\<close>.
\<close>

definition sample_oidc :: "(unit, string, string) oidc_api" where
  "sample_oidc =
     \<lparr>NewProvider = (\<lambda>_ url. if HasPrefix url ''https://'' then Inr url else Inl ''unsupported scheme''),
      provider_Verifier = (\<lambda>prov _. prov),
      idv_Verify = (\<lambda>idv tok. Inr \<lparr>tok_Issuer = idv, tok_Subject = ''s'', tok_Audience = [''x'', ''nats''],
                                      tok_Expiry = 100000000000, tok_Claims = Inr sample_payload\<rparr>)\<rparr>"

definition sample_options :: "unit Options" where
  "sample_options =
     \<lparr>Issuers = [\<lparr>URL = ''https://sts'', RequireClaims = [(''aws.aws_account'', ''123456789012'')]\<rparr>,
                 \<lparr>URL = ''https://gh'', RequireClaims = [(''repository_owner'', ''o'')]\<rparr>],
      Audiences = [''nats''], SigningAlgs = [''RS256''], HTTPTimeout = 0, RootCAs = None\<rparr>"

definition sample_token :: "string \<Rightarrow> string" where
  "sample_token iss = ''h.'' @ RawURL_EncodeToString (''{\"iss\":\"'' @ iss @ ''\"}'') @ ''.s''"

definition sample_verifier :: "string Verifier" where
  "sample_verifier = projr (Verifier_New sample_oidc sample_options)"

lemma sample_verifier_built: "Verifier_New sample_oidc sample_options = Inr sample_verifier"
proof -
  have "\<not> isl (Verifier_New sample_oidc sample_options)" by code_simp
  then show ?thesis unfolding sample_verifier_def by (cases "Verifier_New sample_oidc sample_options") auto
qed

definition sample_verified :: identity where
  "sample_verified = projr (Verify sample_oidc (\<lambda>v. v) sample_verifier (sample_token ''https://sts''))"

lemma sample_token_verified:
  "Verify sample_oidc (\<lambda>v. v) sample_verifier (sample_token ''https://sts'') = Inr sample_verified"
proof -
  have "\<not> isl (Verify sample_oidc (\<lambda>v. v) sample_verifier (sample_token ''https://sts''))" by code_simp
  then show ?thesis unfolding sample_verified_def
    by (cases "Verify sample_oidc (\<lambda>v. v) sample_verifier (sample_token ''https://sts'')") auto
qed

lemma sample_oidc_contract: "oidc_contract sample_oidc (\<lambda>prov. prov)"
  by (auto simp: oidc_contract_def sample_oidc_def split: if_splits)

text \<open>
  The library may have changed since the verifier was made, by the keys it has fetched for instance;
  it keeps the contract between any two of its states.
\<close>

definition oidc_family ::
  "('cas, 'prov, 'idv) oidc_api set \<Rightarrow> ('prov \<Rightarrow> string) \<Rightarrow> bool" where
  "oidc_family apis issuer_of \<longleftrightarrow>
     (\<forall>o1 \<in> apis. (\<forall>client url prov. NewProvider o1 client url = Inr prov \<longrightarrow> issuer_of prov = url)
        \<and> (\<forall>o2 \<in> apis. \<forall>prov cfg tok idt. idv_Verify o2 (provider_Verifier o1 prov cfg) tok = Inr idt
             \<longrightarrow> tok_Issuer idt = issuer_of prov))"

lemma oidc_family_single: "oidc_family {oidc} issuer_of \<longleftrightarrow> oidc_contract oidc issuer_of"
  by (simp add: oidc_family_def oidc_contract_def)

lemma verified_trusted_family:
  assumes "oidc_family apis issuer_of" and "o1 \<in> apis" and "o2 \<in> apis" and "Verifier_New o1 opts = Inr v"
    and "Verify o2 order v tok = Inr d"
  shows "\<exists>opt \<in> set (Issuers opts). URL opt = Issuer d
    \<and> (\<forall>(k, want) \<in> set (RequireClaims opt). Claim d k = Some want)
    \<and> (\<exists>a \<in> set (Audience d). a \<in> set (Audiences opts))"
proof -
  have v: "v = \<lparr>issuers = map (entry_of o1 (http_client_of opts) (SigningAlgs opts)) (Issuers opts),
             audiences = set (Audiences opts)\<rparr>"
    and n: "\<forall>i \<in> set (Issuers opts). \<not> isl (NewProvider o1 (http_client_of opts) (URL i))"
    using assms(4) by (simp_all add: Verifier_New_Inr)
  obtain iss entry idt d0 where e: "map_of (issuers v) iss = Some entry"
    and t: "idv_Verify o2 (entry_verifier entry) tok = Inr idt"
    and a: "\<exists>a \<in> set (tok_Audience idt). a \<in> audiences v"
    and d: "d = identity_of_token idt d0" "\<forall>(k, want) \<in> set (requireClaims entry). Claim d k = Some want"
    using assms(5) unfolding Verify_Inr by blast
  obtain opt where opt: "opt \<in> set (Issuers opts)"
    and oe: "(iss, entry) = entry_of o1 (http_client_of opts) (SigningAlgs opts) opt"
    using map_of_SomeD [OF e] by (auto simp: v)
  obtain prov where p: "NewProvider o1 (http_client_of opts) (URL opt) = Inr prov"
    using n opt by (cases "NewProvider o1 (http_client_of opts) (URL opt)") auto
  have "tok_Issuer idt = issuer_of prov"
    using assms(1-3) t oe p by (auto simp: oidc_family_def entry_of_def)
  also have "\<dots> = URL opt" using assms(1,2) p by (auto simp: oidc_family_def)
  finally have "URL opt = Issuer d" by (simp add: d(1) identity_of_token_def)
  moreover have "requireClaims entry = RequireClaims opt" using oe by (simp add: entry_of_def)
  moreover have "\<exists>a \<in> set (Audience d). a \<in> set (Audiences opts)"
    using a by (simp add: v d(1) identity_of_token_def)
  ultimately show ?thesis using opt d(2) by auto
qed

lemma verified_trusted:
  assumes "oidc_contract oidc issuer_of" and "Verifier_New oidc opts = Inr v"
    and "Verify oidc order v tok = Inr d"
  shows "\<exists>opt \<in> set (Issuers opts). URL opt = Issuer d
    \<and> (\<forall>(k, want) \<in> set (RequireClaims opt). Claim d k = Some want)
    \<and> (\<exists>a \<in> set (Audience d). a \<in> set (Audiences opts))"
  using verified_trusted_family [of "{oidc}" issuer_of oidc oidc] assms by (simp add: oidc_family_single)

section \<open>Properties\<close>

text \<open>
  C7. A verified identity comes from a configured issuer and meets that issuer's conditions. With an
  OIDC library that checks the issuer, every identity \<open>Verify\<close> returns names as its issuer the URL
  of a configured entry, has the value of each claim that entry requires, and has at least one
  audience of the allowlist.
\<close>

theorem verified_identity_trusted:
  assumes "oidc_contract oidc issuer_of" and "Verifier_New oidc opts = Inr v"
    and "Verify oidc order v tok = Inr d"
  shows "\<exists>opt \<in> set (Issuers opts). URL opt = Issuer d
    \<and> (\<forall>(k, want) \<in> set (RequireClaims opt). Claim d k = Some want)
    \<and> (\<exists>a \<in> set (Audience d). a \<in> set (Audiences opts))"
  by (rule verified_trusted [OF assms])

theorem verified_identity_trusted_witness:
  "\<exists>opt \<in> set (Issuers sample_options). URL opt = Issuer sample_verified
     \<and> (\<forall>(k, want) \<in> set (RequireClaims opt). Claim sample_verified k = Some want)"
  using verified_identity_trusted [OF sample_oidc_contract sample_verifier_built sample_token_verified]
  by blast

text \<open>
  Nothing of an identity is taken from the unverified payload. The issuer, subject, audience and
  expiry of a verified identity are those of the token the library returned, and its claims are
  the flattened claims of that token; the unverified issuer has only chosen the verifier.
\<close>

theorem identity_from_verified_token:
  assumes "Verify oidc order v tok = Inr d"
  shows "\<exists>iss entry idt raw d0. unverifiedIssuer tok = Inr iss \<and> map_of (issuers v) iss = Some entry
    \<and> idv_Verify oidc (entry_verifier entry) tok = Inr idt
    \<and> Issuer d = tok_Issuer idt \<and> Subject d = tok_Subject idt
    \<and> Audience d = tok_Audience idt \<and> Expiry d = tok_Expiry idt
    \<and> tok_Claims idt = Inr raw \<and> Parse order raw = Inr d0 \<and> Claims d = Claims d0"
  using assms by (auto simp: Verify_Inr identity_of_token_def Claims_def)

theorem identity_from_verified_token_witness:
  "\<exists>entry idt. map_of (issuers sample_verifier) ''https://sts'' = Some entry
     \<and> idv_Verify sample_oidc (entry_verifier entry) (sample_token ''https://sts'') = Inr idt
     \<and> Subject sample_verified = tok_Subject idt \<and> Expiry sample_verified = tok_Expiry idt"
proof -
  have "unverifiedIssuer (sample_token ''https://sts'') = Inr ''https://sts''" by code_simp
  then show ?thesis using identity_from_verified_token [OF sample_token_verified] by auto
qed

text \<open>
  A token of an unknown issuer is refused without asking anyone. If the issuer the token names is
  not configured, \<open>Verify\<close> answers \<open>ErrUntrustedIssuer\<close>, whatever the OIDC library would have said:
  the outcome does not depend on it, so no keys are fetched for such a token.
\<close>

theorem untrusted_issuer_refused:
  assumes "unverifiedIssuer tok = Inr iss" and "iss \<notin> fst ` set (issuers v)"
  shows "Verify oidc order v tok = Inl UntrustedIssuer"
proof -
  have "map_of (issuers v) iss = None" using assms(2) by (simp add: map_of_eq_None_iff)
  moreover have "tok \<noteq> []" using assms(1) by (auto simp: unverifiedIssuer_def)
  ultimately show ?thesis using assms(1) by (simp add: Verify_def)
qed

theorem untrusted_issuer_refused_witness:
  "Verify sample_oidc (\<lambda>v. v) sample_verifier (sample_token ''https://evil'') = Inl UntrustedIssuer"
proof -
  have "unverifiedIssuer (sample_token ''https://evil'') = Inr ''https://evil''" by code_simp
  moreover have "''https://evil'' \<notin> fst ` set (issuers sample_verifier)" by code_simp
  ultimately show ?thesis by (rule untrusted_issuer_refused)
qed

text \<open>
  What \<open>New\<close> accepts, exactly. It succeeds iff issuers, audiences and algorithms are given, no
  issuer URL occurs twice and discovery succeeds for every one of them; the verifier then has one
  entry for each, made from the provider of its URL with the configured algorithms and its own
  required claims, and the audiences of the options.
\<close>

theorem verifier_new_contract:
  "Verifier_New oidc opts = Inr v \<longleftrightarrow>
     Issuers opts \<noteq> [] \<and> Audiences opts \<noteq> [] \<and> SigningAlgs opts \<noteq> [] \<and> distinct (map URL (Issuers opts))
     \<and> (\<forall>i \<in> set (Issuers opts). \<not> isl (NewProvider oidc (http_client_of opts) (URL i)))
     \<and> v = \<lparr>issuers = map (entry_of oidc (http_client_of opts) (SigningAlgs opts)) (Issuers opts),
             audiences = set (Audiences opts)\<rparr>"
  by (rule Verifier_New_Inr)

text \<open>
  The unverified issuer is that of the payload segment. For a token of three segments whose
  middle one is the base64url encoding of a payload, \<open>unverifiedIssuer\<close> reads the JSON of exactly
  that payload, whatever the header and the signature hold: it fails if the payload is no JSON, if
  a member that folds to \<open>iss\<close> is no string, or if there is none or it is empty.
\<close>

theorem unverified_issuer_of_payload:
  assumes "CHR ''.'' \<notin> set header" and "CHR ''.'' \<notin> set signature"
  shows "unverifiedIssuer (header @ ''.'' @ RawURL_EncodeToString payload @ ''.'' @ signature) =
    (case Unmarshal payload of
       None \<Rightarrow> Inl PayloadJSON
     | Some v \<Rightarrow> (case issuer_struct v of
                  (iss, err) \<Rightarrow> if err then Inl PayloadJSON else if iss = [] then Inl NoIssuer else Inr iss))"
  by (rule unverifiedIssuer_encoded [OF assms])

end
