(* ===== verification/Counters.thy ===== *)
theory Counters
  imports Prelude "HOL-Library.AList"
begin

text \<open>
  The contract of a set of counters, as a locale: \<open>read s l\<close> is the counter of the label \<open>l\<close>, and
  \<open>bump l s\<close> increments it and no other. The metrics of the service provide it.
\<close>

locale counters =
  fixes read :: "'s \<Rightarrow> 'l \<Rightarrow> nat"
    and bump :: "'l \<Rightarrow> 's \<Rightarrow> 's"
  assumes read_bump: "read (bump l s) l' = read s l' + (if l = l' then 1 else 0)"
begin

lemma read_fold: "read (fold bump ls s) l = read s l + count_list ls l"
  by (induction ls arbitrary: s) (auto simp: read_bump)

lemma read_mono: "read s l \<le> read (fold bump ls s) l"
  by (simp add: read_fold)

lemma bump_commute: "read (bump l (bump l' s)) = read (bump l' (bump l s))"
  by (auto simp: read_bump fun_eq_iff)

lemma sum_fold:
  "finite L \<Longrightarrow> set ls \<subseteq> L \<Longrightarrow> (\<Sum>l \<in> L. read (fold bump ls s) l) = (\<Sum>l \<in> L. read s l) + length ls"
  by (simp add: read_fold sum.distrib sum_count_set)

end

text \<open>Labelled series: a label that was never used reads 0.\<close>

definition series :: "(string \<times> nat) list \<Rightarrow> string \<Rightarrow> nat" where
  "series m l = (case map_of m l of None \<Rightarrow> 0 | Some n \<Rightarrow> n)"

definition Inc :: "string \<Rightarrow> (string \<times> nat) list \<Rightarrow> (string \<times> nat) list" where
  "Inc l m = AList.update l (Suc (series m l)) m"

interpretation label_series: counters series Inc
  by unfold_locales (auto simp: series_def Inc_def update_conv' split: option.split)

end
