(* ===== verification/Metrics.thy ===== *)
theory Metrics
  imports Counters GoTime
begin

text \<open>
  \<open>internal/metrics/metrics.go\<close>: the counters and the histogram. The Prometheus library keeps the
  values; the model keeps a counter per label and the observations in order. A nil \<open>*Metrics\<close> is
  \<open>None\<close>. The counters of the library are 64-bit floats, exact up to \<open>2 ^ 53\<close>; here they are natural
  numbers. \<open>Handler\<close>, \<open>Registry\<close> and the registration of the collectors are left out.
\<close>

definition ReasonNoToken :: string where "ReasonNoToken = ''no_token''"
definition ReasonVerificationFailed :: string where "ReasonVerificationFailed = ''verification_failed''"
definition ReasonPolicyNoMatch :: string where "ReasonPolicyNoMatch = ''policy_no_match''"
definition ReasonSigningFailed :: string where "ReasonSigningFailed = ''signing_failed''"

record Metrics =
  requests :: "(string \<times> nat) list"
  denials :: "(string \<times> nat) list"
  observed :: "duration list"

text \<open>The two result series exist from the start, at 0.\<close>

definition Metrics_New :: Metrics where
  "Metrics_New = \<lparr>requests = [(''allowed'', 0), (''denied'', 0)], denials = [], observed = []\<rparr>"

definition RecordAllowed :: "duration \<Rightarrow> Metrics option \<Rightarrow> Metrics option" where
  "RecordAllowed d m =
     (case m of
        None \<Rightarrow> None
      | Some x \<Rightarrow> Some (x\<lparr>requests := Inc ''allowed'' (requests x), observed := observed x @ [d]\<rparr>))"

definition RecordDenied :: "string \<Rightarrow> duration \<Rightarrow> Metrics option \<Rightarrow> Metrics option" where
  "RecordDenied reason d m =
     (case m of
        None \<Rightarrow> None
      | Some x \<Rightarrow>
          Some (x\<lparr>requests := Inc ''denied'' (requests x), denials := Inc reason (denials x),
                  observed := observed x @ [d]\<rparr>))"

section \<open>Sequences of records\<close>

datatype event = Allowed duration | Denied string duration

definition record_event :: "event \<Rightarrow> Metrics option \<Rightarrow> Metrics option" where
  "record_event e = (case e of Allowed d \<Rightarrow> RecordAllowed d | Denied reason d \<Rightarrow> RecordDenied reason d)"

definition result_label :: "event \<Rightarrow> string" where
  "result_label e = (case e of Allowed _ \<Rightarrow> ''allowed'' | Denied _ _ \<Rightarrow> ''denied'')"

definition reasons :: "event list \<Rightarrow> string list" where
  "reasons es = concat (map (\<lambda>e. case e of Allowed _ \<Rightarrow> [] | Denied r _ \<Rightarrow> [r]) es)"

definition duration_of :: "event \<Rightarrow> duration" where
  "duration_of e = (case e of Allowed d \<Rightarrow> d | Denied _ d \<Rightarrow> d)"

lemma record_events:
  "fold record_event es (Some m) =
     Some (m\<lparr>requests := fold Inc (map result_label es) (requests m),
             denials := fold Inc (reasons es) (denials m),
             observed := observed m @ map duration_of es\<rparr>)"
proof (induction es arbitrary: m)
  case Nil
  then show ?case by (simp add: reasons_def)
next
  case (Cons e es)
  then show ?case
    by (cases e) (simp_all add: record_event_def RecordAllowed_def RecordDenied_def result_label_def
        reasons_def duration_of_def)
qed

lemma record_events_nil: "fold record_event es None = None"
  by (induction es) (auto simp: record_event_def RecordAllowed_def RecordDenied_def split: event.split)

lemma count_allowed_denied:
  "count_list (map result_label es) ''denied'' = length (reasons es)"
  "count_list (map result_label es) ''allowed'' + length (reasons es) = length es"
  by (induction es) (auto simp: result_label_def reasons_def split: event.split)

lemma series_initial: "series [] l = 0" "series [(''allowed'', 0), (''denied'', 0)] l = 0"
  by (simp_all add: series_def)

text \<open>
  The metrics add up. After any sequence of records on a fresh \<open>Metrics\<close>, the two result
  counters are the numbers of allowed and denied requests, the counter of each reason is the number
  of denials for it, the denials of all reasons sum to the denied requests, and the histogram has
  one observation for each request, in order. A nil \<open>Metrics\<close> stays nil.
\<close>

theorem metrics_consistent:
  "\<exists>m. fold record_event es (Some Metrics_New) = Some m
     \<and> series (requests m) ''denied'' = length (reasons es)
     \<and> series (requests m) ''allowed'' + series (requests m) ''denied'' = length es
     \<and> (\<lambda>r. series (denials m) r) = count_list (reasons es)
     \<and> (\<Sum>r \<in> set (reasons es). series (denials m) r) = series (requests m) ''denied''
     \<and> observed m = map duration_of es
     \<and> fold record_event es None = None"
  by (auto simp: record_events record_events_nil Metrics_New_def label_series.read_fold
      count_allowed_denied sum_count_set fun_eq_iff series_initial)

end
