(* ===== verification/Callout.thy ===== *)
theory Callout
  imports PolicyProps VerifierProps Metrics
begin

text \<open>
  \<open>internal/callout/callout.go\<close>: the authorizer. \<open>Authorize\<close> takes the authorizer as it is when it
  loads the ruleset and returns its answer together with what it does to the metrics and the log.

  What the call reads from outside is in the record \<open>call_env\<close>: the readings of the clock in the
  order they are made (at the start, for the expressions of the rules, for the cap of the expiry,
  and at the end for the metrics) and the order maps are visited in. The JWT library is a
  parameter, the record \<open>jwt_api\<close>: new user claims for a key (nil if it refuses the key; using
  them then panics) and their encoding under the signing key.
\<close>

section \<open>Data\<close>

record ('idv, 'prg) ruleset =
  rs_verifier :: "'idv Verifier"
  rs_policy :: "'prg Policy"

datatype log_level = LevelDebug | LevelInfo | LevelWarn | LevelError

datatype log_value =
    LogString string
  | LogNumber nat
  | LogVerifyError verify_error
  | LogEvaluateError evaluate_error
  | LogError string

record log_record =
  log_Level :: log_level
  log_Message :: string
  log_Attrs :: "(string \<times> log_value) list"

record ('idv, 'prg, 'key) Authorizer =
  state :: "('idv, 'prg) ruleset"
  signKey :: 'key
  logger :: "log_record list"
  metrics :: "Metrics option"
  verifyTimeout :: duration

record AuthorizationRequest =
  UserNkey :: string
  Token :: string

text \<open>The fields of the user claims the code sets; \<open>uc_Rest\<close> is what the library fills in itself.\<close>

record 'rest UserClaims =
  uc_Subject :: string
  uc_Name :: string
  uc_Audience :: string
  uc_Permissions :: UserPermissionLimits
  uc_Expires :: "64 word"
  uc_Rest :: 'rest

record ('rest, 'key) jwt_api =
  NewUserClaims :: "string \<Rightarrow> 'rest UserClaims option"
  Encode :: "'rest UserClaims \<Rightarrow> 'key \<Rightarrow> string + string"

record call_env =
  now_start :: time
  now_rules :: "nat \<Rightarrow> time"
  now_cap :: time
  now_end :: time
  visit_order :: "json \<Rightarrow> json"

datatype answer = Issued string | ErrDenied | Panicked

section \<open>Operations\<close>

definition Authorizer_New ::
  "'idv Verifier \<Rightarrow> 'prg Policy \<Rightarrow> 'key \<Rightarrow> Metrics option \<Rightarrow> ('idv, 'prg, 'key) Authorizer" where
  "Authorizer_New v policy key m =
     \<lparr>state = \<lparr>rs_verifier = v, rs_policy = policy\<rparr>, signKey = key, logger = [], metrics = m,
      verifyTimeout = 10 * Second\<rparr>"

definition Reload ::
  "'idv Verifier \<Rightarrow> 'prg Policy \<Rightarrow> ('idv, 'prg, 'key) Authorizer \<Rightarrow> ('idv, 'prg, 'key) Authorizer" where
  "Reload v policy a = a\<lparr>state := \<lparr>rs_verifier = v, rs_policy = policy\<rparr>\<rparr>"

definition cappedExpiry :: "time \<Rightarrow> time \<Rightarrow> duration \<Rightarrow> time" where
  "cappedExpiry now tokenExpiry maxExpiry =
     (let ex = tokenExpiry in
      if 0 < sint maxExpiry then
        (let cap = Add now maxExpiry in if Before cap ex then cap else ex)
      else ex)"

definition write_log :: "log_level \<Rightarrow> string \<Rightarrow> (string \<times> log_value) list \<Rightarrow>
    ('idv, 'prg, 'key) Authorizer \<Rightarrow> ('idv, 'prg, 'key) Authorizer" where
  "write_log lvl msg attrs a =
     a\<lparr>logger := logger a @ [\<lparr>log_Level = lvl, log_Message = msg, log_Attrs = attrs\<rparr>]\<rparr>"

definition record_denied :: "string \<Rightarrow> call_env \<Rightarrow> ('idv, 'prg, 'key) Authorizer \<Rightarrow> ('idv, 'prg, 'key) Authorizer" where
  "record_denied reason env a =
     a\<lparr>metrics := RecordDenied reason (Sub (now_end env) (now_start env)) (metrics a)\<rparr>"

definition record_allowed :: "call_env \<Rightarrow> ('idv, 'prg, 'key) Authorizer \<Rightarrow> ('idv, 'prg, 'key) Authorizer" where
  "record_allowed env a =
     a\<lparr>metrics := RecordAllowed (Sub (now_end env) (now_start env)) (metrics a)\<rparr>"

text \<open>The user claims: the name, account, permissions and expiry over what the library made.\<close>

definition user_claims :: "identity \<Rightarrow> Decision \<Rightarrow> time \<Rightarrow> 'rest UserClaims \<Rightarrow> 'rest UserClaims" where
  "user_claims d decision now uc =
     uc\<lparr>uc_Name := Subject d, uc_Audience := Account decision, uc_Permissions := Permissions decision,
        uc_Expires := Unix (cappedExpiry now (Expiry d) (MaxExpiry decision))\<rparr>"

definition Authorize ::
  "('cas, 'prov, 'idv) oidc_api \<Rightarrow> ('env, 'ast, 'prg) cel_api \<Rightarrow> ('rest, 'key) jwt_api \<Rightarrow> call_env
   \<Rightarrow> AuthorizationRequest \<Rightarrow> ('idv, 'prg, 'key) Authorizer \<Rightarrow> answer \<times> ('idv, 'prg, 'key) Authorizer" where
  "Authorize oidc cel jwt env req a =
     (let st = state a; token = Token req in
      if token = [] then
        (ErrDenied,
         record_denied ReasonNoToken env
           (write_log LevelWarn ''connection rejected: no token'' [(''user_nkey'', LogString (UserNkey req))] a))
      else (case Verify oidc (visit_order env) (rs_verifier st) token of
        Inl e \<Rightarrow>
          (ErrDenied,
           record_denied ReasonVerificationFailed env
             (write_log LevelWarn ''connection rejected: token verification failed''
               [(''user_nkey'', LogString (UserNkey req)), (''error'', LogVerifyError e)] a))
      | Inr d \<Rightarrow>
          (case policy_Evaluate cel (now_rules env) (rs_policy st) d of
             Inl e \<Rightarrow>
               (ErrDenied,
                record_denied ReasonPolicyNoMatch env
                  (write_log LevelWarn ''connection rejected: no policy match''
                    [(''user_nkey'', LogString (UserNkey req)), (''iss'', LogString (Issuer d)),
                     (''sub'', LogString (Subject d)), (''error'', LogEvaluateError e)] a))
           | Inr decision \<Rightarrow>
               (case NewUserClaims jwt (UserNkey req) of
                  None \<Rightarrow> (Panicked, a)
                | Some uc \<Rightarrow>
                    (case Encode jwt (user_claims d decision (now_cap env) uc) (signKey a) of
                       Inl e \<Rightarrow>
                         (ErrDenied,
                          write_log LevelError ''connection rejected: failed to sign user JWT''
                            [(''user_nkey'', LogString (UserNkey req)), (''error'', LogError e)] a)
                     | Inr userJWT \<Rightarrow>
                         (Issued userJWT,
                          record_allowed env
                            (write_log LevelInfo ''connection authorized''
                              [(''user_nkey'', LogString (UserNkey req)), (''iss'', LogString (Issuer d)),
                               (''sub'', LogString (Subject d)), (''account'', LogString (Account decision)),
                               (''rule'', LogString (RuleName decision))] a)))))))"

end
