(* ===== verification/AtomicCell.thy ===== *)
theory AtomicCell
  imports Prelude
begin

text \<open>
  The contract of an atomic cell, as a locale: a load returns what the last store put there. The
  authorizer holds its ruleset in such a cell and provides it.
\<close>

locale atomic_cell =
  fixes load :: "'s \<Rightarrow> 'v"
    and store :: "'v \<Rightarrow> 's \<Rightarrow> 's"
  assumes load_store: "load (store v s) = v"
begin

lemma load_stores: "load (fold store vs s) = last (load s # vs)"
proof (induction vs arbitrary: s)
  case Nil
  then show ?case by simp
next
  case (Cons v vs)
  then show ?case by (cases vs) (simp_all add: load_store)
qed

lemma load_last: "vs \<noteq> [] \<Longrightarrow> load (fold store vs s) = last vs"
  by (simp add: load_stores)

end

end
