(* ===== verification/CalloutProps.thy ===== *)
theory CalloutProps
  imports Callout AtomicCell StepSystems
begin

text \<open>
  What the authorizer guarantees: when it issues a user JWT and with which claims, how long the JWT
  lives, what each call does to the metrics, and that a request is judged by one ruleset, the one
  in force when it began, while others are swapped in.
\<close>

interpretation ruleset_cell: atomic_cell state "\<lambda>rs. Reload (rs_verifier rs) (rs_policy rs)"
  by unfold_locales (simp add: Reload_def)

section \<open>Expiry\<close>

lemma cappedExpiry_eq:
  "cappedExpiry now ex cap = (if 0 < sint cap then min ex (now + sint cap) else ex)"
  by (simp add: cappedExpiry_def Let_def Before_def Add_def)

lemma time_Unix_Unix:
  assumes "- (2 ^ 63) \<le> t div 1000000000" and "t div 1000000000 < 2 ^ 63"
  shows "time_Unix (Unix t) = t div 1000000000 * 1000000000"
  using sint_word_of_int_64 [OF assms] by (simp add: time_Unix_def Unix_def)

lemma time_Unix_Unix_bounds:
  assumes "0 \<le> t" and "t < 2 ^ 63 * 1000000000"
  shows "time_Unix (Unix t) \<le> t" and "t - 1000000000 < time_Unix (Unix t)"
proof -
  have "0 \<le> t div 1000000000" using assms(1) by simp
  moreover have "t div 1000000000 < 2 ^ 63" using assms(2) by linarith
  ultimately have "time_Unix (Unix t) = t div 1000000000 * 1000000000" by (simp add: time_Unix_Unix)
  moreover have "t = t div 1000000000 * 1000000000 + t mod 1000000000" by simp
  moreover have "0 \<le> t mod 1000000000" "t mod 1000000000 < 1000000000" by simp_all
  ultimately show "time_Unix (Unix t) \<le> t" and "t - 1000000000 < time_Unix (Unix t)" by linarith+
qed

section \<open>Calls\<close>

lemma Authorize_Issued:
  "fst (Authorize oidc cel jwt env req a) = Issued tok \<longleftrightarrow>
     (\<exists>d decision uc. Token req \<noteq> []
        \<and> Verify oidc (visit_order env) (rs_verifier (state a)) (Token req) = Inr d
        \<and> policy_Evaluate cel (now_rules env) (rs_policy (state a)) d = Inr decision
        \<and> NewUserClaims jwt (UserNkey req) = Some uc
        \<and> Encode jwt (user_claims d decision (now_cap env) uc) (signKey a) = Inr tok)"
  by (auto simp: Authorize_def Let_def split: sum.splits option.splits)

definition signing_failure :: "log_record \<Rightarrow> bool" where
  "signing_failure r \<longleftrightarrow> log_Message r = ''connection rejected: failed to sign user JWT''"

text \<open>What a call records and logs, by its answer.\<close>

definition call_effect :: "answer \<Rightarrow> event list \<Rightarrow> log_record list \<Rightarrow> bool" where
  "call_effect ans es ls \<longleftrightarrow>
     (case ans of
        Issued _ \<Rightarrow> (\<exists>d. es = [Allowed d]) \<and> length ls = 1 \<and> filter signing_failure ls = []
      | ErrDenied \<Rightarrow> length ls = 1 \<and>
          ((\<exists>r d. es = [Denied r d]) \<and> filter signing_failure ls = [] \<or> es = [] \<and> filter signing_failure ls = ls)
      | Panicked \<Rightarrow> es = [] \<and> ls = [])"

lemma Authorize_effect:
  assumes "Authorize oidc cel jwt env req a = (ans, a')"
  shows "\<exists>es ls. metrics a' = fold record_event es (metrics a) \<and> logger a' = logger a @ ls
    \<and> state a' = state a \<and> signKey a' = signKey a \<and> call_effect ans es ls"
proof -
  have D: "fold record_event [Denied r t] m = RecordDenied r t m" for r t m
    by (simp add: record_event_def)
  have A: "fold record_event [Allowed t] m = RecordAllowed t m" for t m
    by (simp add: record_event_def)
  show ?thesis
  proof (cases "ans = ErrDenied \<and> metrics a' = metrics a \<and> (\<exists>l. logger a' = logger a @ [l] \<and> signing_failure l)
      \<and> state a' = state a \<and> signKey a' = signKey a")
    case True
    then obtain l where "logger a' = logger a @ [l]" "signing_failure l" by blast
    moreover from this have "call_effect ans [] [l]" using True by (simp add: call_effect_def)
    ultimately show ?thesis using True by (intro exI [of _ "[]"] exI [of _ "[l]"]) simp
  next
    case False
    with assms show ?thesis
      by (auto simp: Authorize_def Let_def write_log_def record_denied_def record_allowed_def
            call_effect_def signing_failure_def simp flip: A D split: sum.splits option.splits if_splits
            intro!: exI)
  qed
qed

section \<open>Sequences of calls\<close>

fun authorize_all ::
  "('cas, 'prov, 'idv) oidc_api \<Rightarrow> ('env, 'ast, 'prg) cel_api \<Rightarrow> ('rest, 'key) jwt_api
   \<Rightarrow> (call_env \<times> AuthorizationRequest) list \<Rightarrow> ('idv, 'prg, 'key) Authorizer
   \<Rightarrow> answer list \<times> ('idv, 'prg, 'key) Authorizer" where
  "authorize_all oidc cel jwt [] a = ([], a)"
| "authorize_all oidc cel jwt ((env, req) # calls) a =
     (let (ans, a1) = Authorize oidc cel jwt env req a;
          (anss, a2) = authorize_all oidc cel jwt calls a1 in (ans # anss, a2))"

definition issued :: "answer \<Rightarrow> bool" where
  "issued ans \<longleftrightarrow> (case ans of Issued _ \<Rightarrow> True | _ \<Rightarrow> False)"

lemma authorize_all_effect:
  "authorize_all oidc cel jwt calls a = (anss, a') \<Longrightarrow>
     \<exists>es ls. metrics a' = fold record_event es (metrics a) \<and> logger a' = logger a @ ls
       \<and> count_list (map result_label es) ''allowed'' = length (filter issued anss)
       \<and> count_list (map result_label es) ''denied'' + length (filter signing_failure ls)
           = length (filter ((=) ErrDenied) anss)"
proof (induction calls arbitrary: a anss a')
  case Nil
  then show ?case by (auto intro: exI [of _ "[]"])
next
  case (Cons c calls)
  obtain env req where c: "c = (env, req)" by fastforce
  obtain ans a1 where 1: "Authorize oidc cel jwt env req a = (ans, a1)" by fastforce
  obtain anss' a2 where 2: "authorize_all oidc cel jwt calls a1 = (anss', a2)" by fastforce
  have r: "anss = ans # anss'" "a' = a2" using Cons.prems 1 2 by (simp_all add: c)
  obtain es ls where e: "metrics a1 = fold record_event es (metrics a)" "logger a1 = logger a @ ls"
    "call_effect ans es ls"
    using Authorize_effect [OF 1] by blast
  obtain es' ls' where e': "metrics a2 = fold record_event es' (metrics a1)" "logger a2 = logger a1 @ ls'"
    "count_list (map result_label es') ''allowed'' = length (filter issued anss')"
    "count_list (map result_label es') ''denied'' + length (filter signing_failure ls')
       = length (filter ((=) ErrDenied) anss')"
    using Cons.IH [OF 2] by blast
  have n: "count_list (map result_label (es @ es')) ''allowed'' = length (filter issued (ans # anss'))"
    and d: "count_list (map result_label (es @ es')) ''denied'' + length (filter signing_failure (ls @ ls'))
       = length (filter ((=) ErrDenied) (ans # anss'))"
    using e(3) e'(3,4) by (auto simp: call_effect_def issued_def result_label_def split: answer.splits)
  show ?case
    unfolding r
    by (rule exI [of _ "es @ es'"], rule exI [of _ "ls @ ls'"]) (use e e' n d in simp)
qed

section \<open>Requests while the ruleset is swapped\<close>

text \<open>
  The service as the requests and the reloads interleave: a request begins by loading the ruleset,
  and finishes later, in whatever environment, with the ruleset it loaded. \<open>w_history\<close> lists the
  rulesets in the order they were put in force; a pending request keeps how many there were.
\<close>

record ('idv, 'prg, 'key) world =
  w_auth :: "('idv, 'prg, 'key) Authorizer"
  w_history :: "('idv, 'prg) ruleset list"
  w_pending :: "(nat \<times> AuthorizationRequest \<times> ('idv, 'prg) ruleset) list"
  w_answered :: "(nat \<times> AuthorizationRequest \<times> call_env \<times> answer) list"

definition start_world :: "('idv, 'prg, 'key) Authorizer \<Rightarrow> ('idv, 'prg, 'key) world" where
  "start_world a = \<lparr>w_auth = a, w_history = [state a], w_pending = [], w_answered = []\<rparr>"

inductive serve ::
  "('cas, 'prov, 'idv) oidc_api \<Rightarrow> ('env, 'ast, 'prg) cel_api \<Rightarrow> ('rest, 'key) jwt_api
   \<Rightarrow> ('idv, 'prg, 'key) world \<Rightarrow> ('idv, 'prg, 'key) world \<Rightarrow> bool"
  for oidc :: "('cas, 'prov, 'idv) oidc_api" and cel :: "('env, 'ast, 'prg) cel_api"
    and jwt :: "('rest, 'key) jwt_api" where
  begin_request: "serve oidc cel jwt w
     (w\<lparr>w_pending := (length (w_history w), req, state (w_auth w)) # w_pending w\<rparr>)"
| swap: "serve oidc cel jwt w
     (w\<lparr>w_auth := Reload v p (w_auth w), w_history := w_history w @ [\<lparr>rs_verifier = v, rs_policy = p\<rparr>]\<rparr>)"
| finish_request: "w_pending w = before @ (n, req, rs) # after \<Longrightarrow>
     Authorize oidc cel jwt env req ((w_auth w)\<lparr>state := rs\<rparr>) = (ans, a') \<Longrightarrow>
     serve oidc cel jwt w
       (w\<lparr>w_auth := a'\<lparr>state := state (w_auth w)\<rparr>, w_pending := before @ after,
          w_answered := (n, req, env, ans) # w_answered w\<rparr>)"

inductive_cases serveE: "serve oidc cel jwt w w'"

text \<open>The answer a ruleset gives, on its own.\<close>

definition answer_under ::
  "('cas, 'prov, 'idv) oidc_api \<Rightarrow> ('env, 'ast, 'prg) cel_api \<Rightarrow> ('rest, 'key) jwt_api
   \<Rightarrow> call_env \<Rightarrow> AuthorizationRequest \<Rightarrow> 'key \<Rightarrow> ('idv, 'prg) ruleset \<Rightarrow> answer" where
  "answer_under oidc cel jwt env req key rs =
     fst (Authorize oidc cel jwt env req (Reload (rs_verifier rs) (rs_policy rs)
       (Authorizer_New (rs_verifier rs) (rs_policy rs) key None)))"

lemma fst_Authorize_cong:
  "state a = state b \<Longrightarrow> signKey a = signKey b \<Longrightarrow>
     fst (Authorize oidc cel jwt env req a) = fst (Authorize oidc cel jwt env req b)"
  by (auto simp: Authorize_def Let_def split: sum.split option.split)

definition world_ok ::
  "('cas, 'prov, 'idv) oidc_api \<Rightarrow> ('env, 'ast, 'prg) cel_api \<Rightarrow> ('rest, 'key) jwt_api
   \<Rightarrow> 'key \<Rightarrow> ('idv, 'prg, 'key) world \<Rightarrow> bool" where
  "world_ok oidc cel jwt key w \<longleftrightarrow>
     signKey (w_auth w) = key \<and> w_history w \<noteq> [] \<and> state (w_auth w) = last (w_history w)
     \<and> (\<forall>(n, req, rs) \<in> set (w_pending w). 0 < n \<and> n \<le> length (w_history w) \<and> rs = w_history w ! (n - 1))
     \<and> (\<forall>(n, req, env, ans) \<in> set (w_answered w). 0 < n \<and> n \<le> length (w_history w)
          \<and> ans = answer_under oidc cel jwt env req key (w_history w ! (n - 1)))"

lemma answer_under_eq:
  "fst (Authorize oidc cel jwt env req (a\<lparr>state := rs\<rparr>)) = answer_under oidc cel jwt env req (signKey a) rs"
  unfolding answer_under_def by (rule fst_Authorize_cong) (simp_all add: Reload_def Authorizer_New_def)

lemma world_ok_serve:
  assumes "serve oidc cel jwt w w'" and "world_ok oidc cel jwt key w"
  shows "world_ok oidc cel jwt key w'"
  using assms(1)
proof (cases rule: serve.cases)
  case (begin_request req)
  then show ?thesis using assms(2) by (auto simp: world_ok_def last_conv_nth)
next
  case (swap v p)
  have "(w_history w @ [rs]) ! (n - 1) = w_history w ! (n - 1)" if "0 < n" "n \<le> length (w_history w)" for n rs
    using that by (simp add: nth_append)
  then show ?thesis using swap assms(2) by (fastforce simp: world_ok_def Reload_def)
next
  case (finish_request before n req rs after env ans a')
  have "signKey a' = signKey (w_auth w)"
    using Authorize_effect [OF finish_request(3)] by auto
  moreover have "ans = answer_under oidc cel jwt env req (signKey (w_auth w)) rs"
    using answer_under_eq [of oidc cel jwt env req rs "w_auth w"] finish_request(3) by simp
  ultimately show ?thesis using finish_request(1,2) assms(2) by (auto simp: world_ok_def)
qed

definition world_initial :: "'key \<Rightarrow> ('idv, 'prg, 'key) world \<Rightarrow> bool" where
  "world_initial key w \<longleftrightarrow> (\<exists>a. signKey a = key \<and> w = start_world a)"

lemma world_ok_initial: "world_initial key w \<Longrightarrow> world_ok oidc cel jwt key w"
  by (auto simp: world_initial_def world_ok_def start_world_def)

interpretation callout: invariant_system "world_initial key" "serve oidc cel jwt" "world_ok oidc cel jwt key"
  by unfold_locales (fact world_ok_initial world_ok_serve)+

section \<open>An authorizer to evaluate\<close>

definition sample_jwt :: "(unit, string) jwt_api" where
  "sample_jwt =
     \<lparr>NewUserClaims = (\<lambda>nkey. if nkey = [] then None
        else Some \<lparr>uc_Subject = nkey, uc_Name = [], uc_Audience = [],
                   uc_Permissions = \<lparr>lim_Pub = \<lparr>Allow = [], Deny = []\<rparr>, lim_Sub = \<lparr>Allow = [], Deny = []\<rparr>, lim_Resp = None\<rparr>,
                   uc_Expires = 0, uc_Rest = ()\<rparr>),
      Encode = (\<lambda>uc key. if key = [] then Inl ''no key'' else Inr (key @ uc_Name uc @ uc_Audience uc))\<rparr>"

definition aws_rule :: "string Rule" where
  "aws_rule = sample_rule ''APP''
     \<lparr>Match_Issuer = ''https://sts'', Match_Sub = [], Match_Claims = [(''aws.aws_account'', ''123456789012'')],
      Match_Expr = [], Match_AllowBroad = False\<rparr>"

definition sample_env :: call_env where
  "sample_env = \<lparr>now_start = 0, now_rules = (\<lambda>_. 1), now_cap = 2, now_end = 3, visit_order = (\<lambda>v. v)\<rparr>"

definition sample_request :: AuthorizationRequest where
  "sample_request = \<lparr>UserNkey = ''U'', Token = sample_token ''https://sts''\<rparr>"

definition sample_authorizer :: "string \<Rightarrow> (string, string, string) Authorizer" where
  "sample_authorizer key =
     Authorizer_New sample_verifier (validated_sample [aws_rule]) key (Some Metrics_New)"

lemma sample_authorizes:
  "fst (Authorize sample_oidc sample_cel sample_jwt sample_env sample_request (sample_authorizer ''K'')) = Issued ''KsAPP''"
  by code_simp

lemma aws_rule_validates:
  "policy_Validate sample_cel (\<lambda>_. None) (sample_policy [aws_rule]) = (validated_sample [aws_rule], None)"
proof -
  have "snd (policy_Validate sample_cel (\<lambda>_. None) (sample_policy [aws_rule])) = None" by code_simp
  then show ?thesis unfolding validated_sample_def by (metis prod.collapse)
qed

section \<open>Properties\<close>

text \<open>
  C6. What is issued, exactly. \<open>Authorize\<close> answers with a JWT iff the request has a token, the
  verifier of the ruleset accepts it, the policy of the same ruleset grants the verified identity, and
  the JWT library encodes the claims; these name the verified subject, are bound to the granted
  account with the granted permissions, and expire at the capped expiry. In every other case the
  caller gets the one generic error, or the library has refused the user key.
\<close>

theorem authorize_issues:
  "fst (Authorize oidc cel jwt env req a) = Issued tok \<longleftrightarrow>
     (\<exists>d decision uc. Token req \<noteq> []
        \<and> Verify oidc (visit_order env) (rs_verifier (state a)) (Token req) = Inr d
        \<and> policy_Evaluate cel (now_rules env) (rs_policy (state a)) d = Inr decision
        \<and> NewUserClaims jwt (UserNkey req) = Some uc
        \<and> Encode jwt (uc\<lparr>uc_Name := Subject d, uc_Audience := Account decision,
             uc_Permissions := Permissions decision,
             uc_Expires := Unix (cappedExpiry (now_cap env) (Expiry d) (MaxExpiry decision))\<rparr>) (signKey a) = Inr tok)"
  unfolding Authorize_Issued user_claims_def by blast

text \<open>
  C14. A user JWT never outlives the token, nor the cap of its rule. With a token expiry and a clock
  that 64-bit seconds can hold, the expiry written into the JWT, read back as a time, is no later
  than the token's expiry and, where the rule has a positive cap, than now plus the cap; and it
  falls short of the earlier of the two by less than a second.
\<close>

theorem expiry_capped:
  assumes "0 \<le> now" and "0 \<le> ex" and "ex < 2 ^ 63 * 1000000000"
  shows "(let e = time_Unix (Unix (cappedExpiry now ex cap)) in
    e \<le> ex \<and> (0 < sint cap \<longrightarrow> e \<le> now + sint cap)
    \<and> (if 0 < sint cap then min ex (now + sint cap) else ex) - 1000000000 < e)"
proof -
  let ?t = "cappedExpiry now ex cap"
  have "0 \<le> ?t" "?t < 2 ^ 63 * 1000000000" using assms by (auto simp: cappedExpiry_eq)
  from time_Unix_Unix_bounds [OF this] show ?thesis
    unfolding Let_def by (auto simp: cappedExpiry_eq split: if_splits)
qed

theorem expiry_capped_witness:
  "time_Unix (Unix (cappedExpiry 1000 5000000000 Second)) \<le> 1000 + sint Second"
proof -
  have "sint Second = 1000000000" by (simp add: Second_def)
  then show ?thesis using expiry_capped [of 1000 5000000000 Second] by (simp add: Let_def)
qed

text \<open>
  The metrics count the answers, but for one kind. After any sequence of calls on an authorizer
  with fresh metrics and an empty log, the allowed counter is the number of JWTs issued, and the
  denied counter falls short of the number of refusals by exactly the refusals for which the log
  says that the JWT could not be signed.
\<close>

theorem metrics_count_answers:
  assumes "metrics a = Some Metrics_New" and "logger a = []"
    and "authorize_all oidc cel jwt calls a = (anss, a')"
  shows "\<exists>m. metrics a' = Some m
    \<and> series (requests m) ''allowed'' = length (filter issued anss)
    \<and> series (requests m) ''denied'' + length (filter signing_failure (logger a'))
        = length (filter ((=) ErrDenied) anss)"
proof -
  obtain es ls where "metrics a' = fold record_event es (metrics a)" "logger a' = logger a @ ls"
    and n: "count_list (map result_label es) ''allowed'' = length (filter issued anss)"
      "count_list (map result_label es) ''denied'' + length (filter signing_failure ls)
         = length (filter ((=) ErrDenied) anss)"
    using authorize_all_effect [OF assms(3)] by blast
  then have "metrics a' = fold record_event es (Some Metrics_New)" "logger a' = ls"
    using assms(1,2) by simp_all
  with n show ?thesis
    by (auto simp: record_events Metrics_New_def label_series.read_fold series_initial)
qed

theorem metrics_count_answers_witness:
  "\<exists>m. metrics (snd (authorize_all sample_oidc sample_cel sample_jwt [(sample_env, sample_request)]
          (sample_authorizer ''K''))) = Some m
     \<and> series (requests m) ''allowed'' = 1"
proof -
  let ?r = "authorize_all sample_oidc sample_cel sample_jwt [(sample_env, sample_request)] (sample_authorizer ''K'')"
  have "fst ?r = [Issued ''KsAPP'']"
    using sample_authorizes by (simp add: Let_def case_prod_unfold)
  then have r: "?r = ([Issued ''KsAPP''], snd ?r)" by (metis prod.collapse)
  have "metrics (sample_authorizer ''K'') = Some Metrics_New" "logger (sample_authorizer ''K'') = []"
    by (simp_all add: sample_authorizer_def Authorizer_New_def)
  from metrics_count_answers [OF this r] show ?thesis by (auto simp: issued_def)
qed

text \<open>
  C36. A failure to sign is denied and logged, but not counted. When everything is granted and only
  the encoding of the JWT fails, the caller gets the generic error and one error is logged, while
  the metrics stay as they were, the counter for signing failures included.
\<close>

theorem signing_failure_unrecorded:
  assumes "Token req \<noteq> []"
    and "Verify oidc (visit_order env) (rs_verifier (state a)) (Token req) = Inr d"
    and "policy_Evaluate cel (now_rules env) (rs_policy (state a)) d = Inr decision"
    and "NewUserClaims jwt (UserNkey req) = Some uc"
    and "Encode jwt (user_claims d decision (now_cap env) uc) (signKey a) = Inl e"
  shows "\<exists>l a'. Authorize oidc cel jwt env req a = (ErrDenied, a') \<and> metrics a' = metrics a
    \<and> logger a' = logger a @ [l] \<and> log_Level l = LevelError"
  using assms by (simp add: Authorize_def Let_def write_log_def)

theorem signing_failure_unrecorded_witness:
  "\<exists>a'. Authorize sample_oidc sample_cel sample_jwt sample_env sample_request (sample_authorizer []) = (ErrDenied, a')
     \<and> metrics a' = Some Metrics_New"
proof -
  let ?a = "sample_authorizer []" and ?d = "sample_verified"
  have a: "rs_verifier (state ?a) = sample_verifier" "rs_policy (state ?a) = validated_sample [aws_rule]"
    "signKey ?a = []" "metrics ?a = Some Metrics_New"
    by (simp_all add: sample_authorizer_def Authorizer_New_def)
  have t: "Token sample_request \<noteq> []" by (simp add: sample_request_def sample_token_def)
  have v: "Verify sample_oidc (visit_order sample_env) (rs_verifier (state ?a)) (Token sample_request) = Inr ?d"
    using sample_token_verified by (simp add: a sample_env_def sample_request_def)
  have p: "policy_Evaluate sample_cel (now_rules sample_env) (rs_policy (state ?a)) ?d = Inr (decision_of 0 aws_rule)"
    unfolding a by code_simp
  have n: "NewUserClaims sample_jwt (UserNkey sample_request) = Some (the (NewUserClaims sample_jwt ''U''))"
    by (simp add: sample_jwt_def sample_request_def)
  have e: "Encode sample_jwt (user_claims ?d (decision_of 0 aws_rule) (now_cap sample_env)
      (the (NewUserClaims sample_jwt ''U''))) (signKey ?a) = Inl ''no key''"
    by (simp add: a sample_jwt_def)
  from signing_failure_unrecorded [OF t v p n e] show ?thesis by (auto simp: a)
qed

text \<open>
  Every request is judged by one ruleset, the one in force when it began. However requests and
  reloads interleave, the answer to a request is the answer that the ruleset current at its start
  gives on its own: no request sees the verifier of one configuration with the policy of another,
  and a reload in between changes no request that has begun.
\<close>

theorem one_ruleset_per_request:
  assumes "(serve oidc cel jwt)\<^sup>*\<^sup>* (start_world a) w" and "(n, req, env, ans) \<in> set (w_answered w)"
  shows "0 < n \<and> n \<le> length (w_history w)
    \<and> ans = answer_under oidc cel jwt env req (signKey a) (w_history w ! (n - 1))"
  using callout.reachable_inv [OF _ assms(1), of "signKey a"] assms(2)
  by (fastforce simp: world_ok_def world_initial_def)

theorem one_ruleset_per_request_witness:
  "answer_under sample_oidc sample_cel sample_jwt sample_env sample_request ''K''
     (state (sample_authorizer ''K'')) = Issued ''KsAPP''"
proof -
  let ?a = "sample_authorizer ''K''"
  let ?w0 = "start_world ?a"
  let ?w1 = "?w0\<lparr>w_pending := (length (w_history ?w0), sample_request, state (w_auth ?w0)) # w_pending ?w0\<rparr>"
  let ?w2 = "?w1\<lparr>w_auth := Reload sample_verifier (sample_policy []) (w_auth ?w1),
      w_history := w_history ?w1 @ [\<lparr>rs_verifier = sample_verifier, rs_policy = sample_policy []\<rparr>]\<rparr>"
  obtain ans a' where f: "Authorize sample_oidc sample_cel sample_jwt sample_env sample_request
      ((w_auth ?w2)\<lparr>state := state ?a\<rparr>) = (ans, a')" by fastforce
  let ?w3 = "?w2\<lparr>w_auth := a'\<lparr>state := state (w_auth ?w2)\<rparr>, w_pending := [] @ [],
      w_answered := (1, sample_request, sample_env, ans) # w_answered ?w2\<rparr>"
  have 1: "serve sample_oidc sample_cel sample_jwt ?w0 ?w1" by (rule begin_request)
  have 2: "serve sample_oidc sample_cel sample_jwt ?w1 ?w2" by (rule swap)
  have 3: "serve sample_oidc sample_cel sample_jwt ?w2 ?w3"
    by (rule finish_request [OF _ f]) (simp add: start_world_def)
  have r: "(serve sample_oidc sample_cel sample_jwt)\<^sup>*\<^sup>* ?w0 ?w3"
    using 1 2 3 by (meson converse_rtranclp_into_rtranclp rtranclp.rtrancl_refl)
  have "(1, sample_request, sample_env, ans) \<in> set (w_answered ?w3)" by simp
  from one_ruleset_per_request [OF r this]
  have "ans = answer_under sample_oidc sample_cel sample_jwt sample_env sample_request (signKey ?a) (state ?a)"
    by (simp add: start_world_def)
  moreover have "ans = Issued ''KsAPP''"
  proof -
    have "fst (Authorize sample_oidc sample_cel sample_jwt sample_env sample_request ((w_auth ?w2)\<lparr>state := state ?a\<rparr>))
        = fst (Authorize sample_oidc sample_cel sample_jwt sample_env sample_request ?a)"
      by (rule fst_Authorize_cong) (simp_all add: start_world_def Reload_def)
    then show ?thesis using f sample_authorizes by simp
  qed
  ultimately show ?thesis by (simp add: sample_authorizer_def Authorizer_New_def)
qed

end
