(* ===== verification/Config.thy ===== *)
theory Config
  imports PolicyProps
begin

text \<open>
  \<open>internal/config/config.go\<close>: the service configuration, its defaults, its validation, and
  \<open>Load\<close>. The file system and the YAML decoder, for the configuration and for the policy file,
  are parameters; the decoder fills a zero configuration.

  \<open>Config.Validate\<close> validates the policy in place, so it returns the configuration it leaves.
\<close>

section \<open>Data\<close>

record MetricsConfig =
  Metrics_Enabled :: bool
  Metrics_Address :: string
  Metrics_Path :: string

record NATSConfig =
  NATS_URL :: string
  NATS_Credentials :: string
  NATS_Username :: string
  NATS_Password :: string
  NATS_CACert :: string
  NATS_ClientCert :: string
  NATS_ClientKey :: string

record IssuerConfig =
  Issuer_URL :: string
  Issuer_RequireClaims :: "string gomap"

record 'prg Config =
  cfg_NATS :: NATSConfig
  cfg_IssuerAccountSeed :: string
  cfg_XKeySeed :: string
  cfg_Audiences :: "string list"
  cfg_SigningAlgs :: "string list"
  cfg_Issuers :: "IssuerConfig list"
  cfg_HTTPTimeout :: duration
  cfg_OIDCCACert :: string
  cfg_Metrics :: MetricsConfig
  cfg_Policy :: "'prg Policy"
  cfg_PolicyFile :: string

definition DefaultHTTPTimeout :: duration where
  "DefaultHTTPTimeout = 10 * Second"

definition DefaultMetricsAddress :: string where
  "DefaultMetricsAddress = '':9090''"

datatype config_error =
    ReadConfig string
  | ParseConfig string
  | PolicyFileError load_error
  | NATSURLRequired
  | IssuerAccountSeedRequired
  | AudienceRequired
  | SigningAlgRequired
  | IssuerRequired
  | IssuerURLRequired nat
  | PolicyError policy_error

section \<open>Operations\<close>

fun empty_issuer_url :: "nat \<Rightarrow> IssuerConfig list \<Rightarrow> nat option" where
  "empty_issuer_url i [] = None"
| "empty_issuer_url i (iss # rest) = (if Issuer_URL iss = [] then Some i else empty_issuer_url (Suc i) rest)"

definition Config_Validate ::
  "('env, 'ast, 'prg) cel_api \<Rightarrow> (string \<Rightarrow> regex option) \<Rightarrow> 'prg Config \<Rightarrow> 'prg Config \<times> config_error option" where
  "Config_Validate cel ext c =
     (if NATS_URL (cfg_NATS c) = [] then (c, Some NATSURLRequired)
      else if cfg_IssuerAccountSeed c = [] then (c, Some IssuerAccountSeedRequired)
      else if cfg_Audiences c = [] then (c, Some AudienceRequired)
      else if cfg_SigningAlgs c = [] then (c, Some SigningAlgRequired)
      else if cfg_Issuers c = [] then (c, Some IssuerRequired)
      else (case empty_issuer_url 0 (cfg_Issuers c) of
              Some i \<Rightarrow> (c, Some (IssuerURLRequired i))
            | None \<Rightarrow>
                (case policy_Validate cel ext (cfg_Policy c) of
                   (p, Some e) \<Rightarrow> (c\<lparr>cfg_Policy := p\<rparr>, Some (PolicyError e))
                 | (p, None) \<Rightarrow> (c\<lparr>cfg_Policy := p\<rparr>, None))))"

definition set_http_timeout :: "'prg Config \<Rightarrow> 'prg Config" where
  "set_http_timeout c = (if cfg_HTTPTimeout c = 0 then c\<lparr>cfg_HTTPTimeout := DefaultHTTPTimeout\<rparr> else c)"

definition set_metrics_defaults :: "'prg Config \<Rightarrow> 'prg Config" where
  "set_metrics_defaults c =
     (if Metrics_Enabled (cfg_Metrics c) then
        (let m0 = cfg_Metrics c;
             m1 = (if Metrics_Address m0 = [] then m0\<lparr>Metrics_Address := DefaultMetricsAddress\<rparr> else m0);
             m2 = (if Metrics_Path m1 = [] then m1\<lparr>Metrics_Path := ''/metrics''\<rparr> else m1) in
         c\<lparr>cfg_Metrics := m2\<rparr>)
      else c)"

record 'prg io =
  readFile :: "string \<Rightarrow> string + string"
  yamlConfig :: "string \<Rightarrow> string + 'prg Config"
  yamlPolicy :: "string \<Rightarrow> string + 'prg Policy"

definition Load ::
  "('env, 'ast, 'prg) cel_api \<Rightarrow> (string \<Rightarrow> regex option) \<Rightarrow> 'prg io \<Rightarrow> string \<Rightarrow> config_error + 'prg Config" where
  "Load cel ext fs path =
     (case readFile fs path of
        Inl e \<Rightarrow> Inl (ReadConfig e)
      | Inr data \<Rightarrow>
          (case yamlConfig fs data of
             Inl e \<Rightarrow> Inl (ParseConfig e)
           | Inr cfg0 \<Rightarrow>
               (case (if cfg_PolicyFile cfg0 \<noteq> []
                      then (case LoadPolicy cel ext (readFile fs) (yamlPolicy fs) (cfg_PolicyFile cfg0) of
                              Inl e \<Rightarrow> Inl (PolicyFileError e)
                            | Inr pol \<Rightarrow> Inr (cfg0\<lparr>cfg_Policy := pol\<rparr>))
                      else Inr cfg0) of
                  Inl e \<Rightarrow> Inl e
                | Inr cfg1 \<Rightarrow>
                    (case Config_Validate cel ext (set_metrics_defaults (set_http_timeout cfg1)) of
                       (_, Some e) \<Rightarrow> Inl e
                     | (cfg, None) \<Rightarrow> Inr cfg))))"

section \<open>What a loaded configuration satisfies\<close>

definition config_ok :: "('env, 'ast, 'prg) cel_api \<Rightarrow> (string \<Rightarrow> regex option) \<Rightarrow> 'prg Config \<Rightarrow> bool" where
  "config_ok cel ext c \<longleftrightarrow>
     NATS_URL (cfg_NATS c) \<noteq> [] \<and> cfg_IssuerAccountSeed c \<noteq> [] \<and> cfg_Audiences c \<noteq> []
     \<and> cfg_SigningAlgs c \<noteq> [] \<and> cfg_Issuers c \<noteq> [] \<and> (\<forall>i \<in> set (cfg_Issuers c). Issuer_URL i \<noteq> [])
     \<and> validated (cfg_Policy c) \<and> Rules (cfg_Policy c) \<noteq> []
     \<and> (\<forall>r \<in> set (Rules (cfg_Policy c)). rule_valid cel ext r \<and> compiled cel ext r = r)
     \<and> cfg_HTTPTimeout c \<noteq> 0
     \<and> (Metrics_Enabled (cfg_Metrics c) \<longrightarrow> Metrics_Address (cfg_Metrics c) \<noteq> [] \<and> Metrics_Path (cfg_Metrics c) \<noteq> [])"

lemma empty_issuer_url_None: "empty_issuer_url i is = None \<longleftrightarrow> (\<forall>x \<in> set is. Issuer_URL x \<noteq> [])"
  by (induction i "is" rule: empty_issuer_url.induct) auto

lemma compiled_compiled [simp]: "compiled cel ext (compiled cel ext r) = compiled cel ext r"
  by (simp add: compiled_def)

lemma rule_valid_compiled [simp]: "rule_valid cel ext (compiled cel ext r) = rule_valid cel ext r"
  by (simp add: rule_valid_def)

lemma Config_Validate_None:
  "Config_Validate cel ext c = (c', None) \<longleftrightarrow>
     NATS_URL (cfg_NATS c) \<noteq> [] \<and> cfg_IssuerAccountSeed c \<noteq> [] \<and> cfg_Audiences c \<noteq> []
     \<and> cfg_SigningAlgs c \<noteq> [] \<and> cfg_Issuers c \<noteq> [] \<and> (\<forall>i \<in> set (cfg_Issuers c). Issuer_URL i \<noteq> [])
     \<and> (\<exists>p. policy_Validate cel ext (cfg_Policy c) = (p, None) \<and> c' = c\<lparr>cfg_Policy := p\<rparr>)"
  using empty_issuer_url_None [of 0 "cfg_Issuers c"]
  by (cases "empty_issuer_url 0 (cfg_Issuers c)")
    (auto simp: Config_Validate_def split: option.splits prod.splits)

lemma set_defaults_simps [simp]:
  "cfg_NATS (set_http_timeout c) = cfg_NATS c" "cfg_NATS (set_metrics_defaults c) = cfg_NATS c"
  "cfg_Policy (set_http_timeout c) = cfg_Policy c" "cfg_Policy (set_metrics_defaults c) = cfg_Policy c"
  "cfg_HTTPTimeout (set_metrics_defaults c) = cfg_HTTPTimeout c"
  "cfg_HTTPTimeout (set_http_timeout c) \<noteq> 0"
  by (simp_all add: set_http_timeout_def set_metrics_defaults_def Let_def DefaultHTTPTimeout_def Second_def)

lemma set_metrics_defaults_nonempty:
  "Metrics_Enabled (cfg_Metrics (set_metrics_defaults c)) \<Longrightarrow>
     Metrics_Address (cfg_Metrics (set_metrics_defaults c)) \<noteq> [] \<and> Metrics_Path (cfg_Metrics (set_metrics_defaults c)) \<noteq> []"
  by (auto simp: set_metrics_defaults_def Let_def DefaultMetricsAddress_def split: if_splits)

lemma Load_Inr:
  assumes "Load cel ext fs path = Inr cfg"
  obtains data cfg0 pol where "readFile fs path = Inr data" "yamlConfig fs data = Inr cfg0"
    "if cfg_PolicyFile cfg0 \<noteq> []
     then LoadPolicy cel ext (readFile fs) (yamlPolicy fs) (cfg_PolicyFile cfg0) = Inr pol
     else pol = cfg_Policy cfg0"
    "Config_Validate cel ext (set_metrics_defaults (set_http_timeout (cfg0\<lparr>cfg_Policy := pol\<rparr>))) = (cfg, None)"
proof -
  obtain data cfg0 where d: "readFile fs path = Inr data" "yamlConfig fs data = Inr cfg0"
    using assms by (auto simp: Load_def split: sum.splits)
  show thesis
  proof (cases "cfg_PolicyFile cfg0 = []")
    case True
    then show thesis using that [OF d, of "cfg_Policy cfg0"] assms d
      by (auto simp: Load_def split: prod.splits option.splits)
  next
    case False
    then show thesis using that [OF d] assms d
      by (auto simp: Load_def split: prod.splits option.splits sum.splits)
  qed
qed

lemma policy_Validate_ok:
  "policy_Validate cel ext p = (p', None) \<Longrightarrow>
     validated p' \<and> Rules p' \<noteq> [] \<and> (\<forall>r \<in> set (Rules p'). rule_valid cel ext r \<and> compiled cel ext r = r)"
  by (auto simp: policy_Validate_None)

lemma policy_Validate_again:
  "policy_Validate cel ext p = (p', None) \<Longrightarrow> policy_Validate cel ext p' = (p', None)"
  by (auto simp: policy_Validate_None comp_def)

lemma Load_config_ok:
  assumes "Load cel ext fs path = Inr cfg"
  shows "config_ok cel ext cfg"
proof -
  obtain cfg1 where v: "Config_Validate cel ext (set_metrics_defaults (set_http_timeout cfg1)) = (cfg, None)"
    using Load_Inr [OF assms] by blast
  let ?c = "set_metrics_defaults (set_http_timeout cfg1)"
  obtain p where p: "policy_Validate cel ext (cfg_Policy ?c) = (p, None)" "cfg = ?c\<lparr>cfg_Policy := p\<rparr>"
    and c: "NATS_URL (cfg_NATS ?c) \<noteq> []" "cfg_IssuerAccountSeed ?c \<noteq> []" "cfg_Audiences ?c \<noteq> []"
      "cfg_SigningAlgs ?c \<noteq> []" "cfg_Issuers ?c \<noteq> []" "\<forall>i \<in> set (cfg_Issuers ?c). Issuer_URL i \<noteq> []"
    using v unfolding Config_Validate_None by blast
  have t: "cfg_HTTPTimeout ?c \<noteq> 0" by simp
  show ?thesis
    using c t policy_Validate_ok [OF p(1)] set_metrics_defaults_nonempty [of "set_http_timeout cfg1"]
    unfolding config_ok_def p(2) by (simp del: set_defaults_simps)
qed

section \<open>A configuration to evaluate\<close>

definition sample_config :: "string Rule list \<Rightarrow> string \<Rightarrow> string Config" where
  "sample_config rs policy_file =
     \<lparr>cfg_NATS = \<lparr>NATS_URL = ''nats://n'', NATS_Credentials = [], NATS_Username = [], NATS_Password = [],
                 NATS_CACert = [], NATS_ClientCert = [], NATS_ClientKey = []\<rparr>,
      cfg_IssuerAccountSeed = ''SA'', cfg_XKeySeed = [], cfg_Audiences = [''nats''], cfg_SigningAlgs = [''RS256''],
      cfg_Issuers = [\<lparr>Issuer_URL = ''https://sts'', Issuer_RequireClaims = []\<rparr>],
      cfg_HTTPTimeout = 0, cfg_OIDCCACert = [],
      cfg_Metrics = \<lparr>Metrics_Enabled = True, Metrics_Address = [], Metrics_Path = []\<rparr>,
      cfg_Policy = sample_policy rs, cfg_PolicyFile = policy_file\<rparr>"

definition sample_io :: "string Rule list \<Rightarrow> string \<Rightarrow> string io" where
  "sample_io rs policy_file =
     \<lparr>readFile = Inr, yamlConfig = (\<lambda>_. Inr (sample_config rs policy_file)),
      yamlPolicy = (\<lambda>_. Inr (sample_policy [arn_rule]))\<rparr>"

definition sample_loaded :: "string Rule list \<Rightarrow> string \<Rightarrow> string Config" where
  "sample_loaded rs policy_file = projr (Load sample_cel (\<lambda>_. None) (sample_io rs policy_file) ''config.yaml'')"

lemma sample_loads:
  "Load sample_cel (\<lambda>_. None) (sample_io [github_rule] []) ''config.yaml'' = Inr (sample_loaded [github_rule] [])"
  "Load sample_cel (\<lambda>_. None) (sample_io [github_rule] ''p'') ''config.yaml'' = Inr (sample_loaded [github_rule] ''p'')"
proof -
  have "\<not> isl (Load sample_cel (\<lambda>_. None) (sample_io [github_rule] []) ''config.yaml'')"
    and "\<not> isl (Load sample_cel (\<lambda>_. None) (sample_io [github_rule] ''p'') ''config.yaml'')"
    by code_simp+
  then show "Load sample_cel (\<lambda>_. None) (sample_io [github_rule] []) ''config.yaml'' = Inr (sample_loaded [github_rule] [])"
    and "Load sample_cel (\<lambda>_. None) (sample_io [github_rule] ''p'') ''config.yaml'' = Inr (sample_loaded [github_rule] ''p'')"
    unfolding sample_loaded_def by (metis sum.collapse(2))+
qed

section \<open>Properties\<close>

text \<open>
  C32. A loaded configuration is complete. When \<open>Load\<close> returns a configuration it has a NATS URL, a
  signing seed, audiences, algorithms and issuers, every issuer has a URL, the policy is validated
  and each of its rules meets the contract and is compiled, the HTTP timeout is set, and enabled
  metrics have an address and a path.
\<close>

theorem loaded_config_complete:
  assumes "Load cel ext fs path = Inr cfg"
  shows "NATS_URL (cfg_NATS cfg) \<noteq> [] \<and> cfg_IssuerAccountSeed cfg \<noteq> [] \<and> cfg_Audiences cfg \<noteq> []
     \<and> cfg_SigningAlgs cfg \<noteq> [] \<and> cfg_Issuers cfg \<noteq> [] \<and> (\<forall>i \<in> set (cfg_Issuers cfg). Issuer_URL i \<noteq> [])
     \<and> validated (cfg_Policy cfg) \<and> Rules (cfg_Policy cfg) \<noteq> []
     \<and> (\<forall>r \<in> set (Rules (cfg_Policy cfg)). rule_valid cel ext r \<and> compiled cel ext r = r)
     \<and> cfg_HTTPTimeout cfg \<noteq> 0
     \<and> (Metrics_Enabled (cfg_Metrics cfg) \<longrightarrow>
          Metrics_Address (cfg_Metrics cfg) \<noteq> [] \<and> Metrics_Path (cfg_Metrics cfg) \<noteq> [])"
  using Load_config_ok [OF assms] by (simp add: config_ok_def)

theorem loaded_config_complete_witness:
  "validated (cfg_Policy (sample_loaded [github_rule] [])) \<and> cfg_HTTPTimeout (sample_loaded [github_rule] []) \<noteq> 0"
  using loaded_config_complete [OF sample_loads(1)] by blast

text \<open>
  A policy file replaces the inline policy. When the configuration names a policy file, the policy
  of the loaded configuration is the one \<open>LoadPolicy\<close> returns for that file; the inline policy plays
  no part, and validating the policy a second time changes nothing.
\<close>

theorem policy_file_replaces_inline:
  assumes "Load cel ext fs path = Inr cfg" and "cfg_PolicyFile cfg \<noteq> []"
  shows "LoadPolicy cel ext (readFile fs) (yamlPolicy fs) (cfg_PolicyFile cfg) = Inr (cfg_Policy cfg)"
proof (rule Load_Inr [OF assms(1)])
  fix data cfg0 pol
  assume l: "if cfg_PolicyFile cfg0 \<noteq> []
     then LoadPolicy cel ext (readFile fs) (yamlPolicy fs) (cfg_PolicyFile cfg0) = Inr pol
     else pol = cfg_Policy cfg0"
    and v: "Config_Validate cel ext (set_metrics_defaults (set_http_timeout (cfg0\<lparr>cfg_Policy := pol\<rparr>))) = (cfg, None)"
  obtain p where p: "policy_Validate cel ext pol = (p, None)"
    and c: "cfg = set_metrics_defaults (set_http_timeout (cfg0\<lparr>cfg_Policy := pol\<rparr>))\<lparr>cfg_Policy := p\<rparr>"
    using v by (auto simp: Config_Validate_None)
  have f: "cfg_PolicyFile cfg = cfg_PolicyFile cfg0"
    by (simp add: c set_metrics_defaults_def set_http_timeout_def Let_def)
  with l assms(2) have pol: "LoadPolicy cel ext (readFile fs) (yamlPolicy fs) (cfg_PolicyFile cfg0) = Inr pol" by simp
  then obtain p0 where "policy_Validate cel ext p0 = (pol, None)"
    by (auto simp: LoadPolicy_def split: sum.splits prod.splits option.splits)
  then have "p = pol" using policy_Validate_again p by fastforce
  then show ?thesis using pol f by (simp add: c)
qed

end
