(* ===== verification/Service.thy ===== *)
theory Service
  imports CalloutProps Config
begin

text \<open>
  \<open>cmd/nats-oidc-callout/main.go\<close>: the start of the service, its connection to NATS, and the reload
  on SIGHUP. \<open>run\<close> returns what it does to the outside, in order, and either the error it exits
  with or the service it has started and then waits in; \<open>main\<close> gives the exit code.

  The libraries it calls are parameters, the record \<open>service_api\<close>: seeds and certificates, the
  listener of the metrics, the NATS client and the callout service.
\<close>

section \<open>Libraries\<close>

record ('cert, 'cas) TLSConfig =
  MinVersion :: tls_version
  Certificates :: "'cert list"
  TLSRootCAs :: "'cas option"

datatype ('cert, 'cas) nats_option =
    Name string
  | UserCredentials string
  | UserInfo string string
  | Secure "('cert, 'cas) TLSConfig"

datatype 'key service_option =
    AuthorizerOption
  | ResponseSignerKey 'key
  | EncryptionKey 'key

record ('key, 'cert, 'cas) service_api =
  FromSeed :: "string \<Rightarrow> string + 'key"
  AppendCertsFromPEM :: "string \<Rightarrow> 'cas option"
  LoadX509KeyPair :: "string \<Rightarrow> string \<Rightarrow> string + 'cert"
  net_Listen :: "string \<Rightarrow> string option"
  nats_Connect :: "string \<Rightarrow> ('cert, 'cas) nats_option list \<Rightarrow> string option"
  NewAuthorizationService :: "'key service_option list \<Rightarrow> string option"

section \<open>Log levels\<close>

definition level_number :: "log_level \<Rightarrow> int" where
  "level_number l = (case l of LevelDebug \<Rightarrow> -4 | LevelInfo \<Rightarrow> 0 | LevelWarn \<Rightarrow> 4 | LevelError \<Rightarrow> 8)"

lemma level_number_inject: "level_number a = level_number b \<longleftrightarrow> a = b"
  by (cases a; cases b) (simp_all add: level_number_def)

instantiation log_level :: linorder
begin

definition less_eq_log_level :: "log_level \<Rightarrow> log_level \<Rightarrow> bool" where
  "less_eq_log_level a b \<longleftrightarrow> level_number a \<le> level_number b"

definition less_log_level :: "log_level \<Rightarrow> log_level \<Rightarrow> bool" where
  "less_log_level a b \<longleftrightarrow> level_number a < level_number b"

instance
  by standard (auto simp: less_eq_log_level_def less_log_level_def level_number_inject)

end

definition newLogger :: "string \<Rightarrow> log_level" where
  "newLogger level =
     (if level = ''debug'' then LevelDebug else if level = ''warn'' then LevelWarn
      else if level = ''error'' then LevelError else LevelInfo)"

text \<open>A handler with a level writes the records of that level and above.\<close>

definition written :: "log_level \<Rightarrow> log_record list \<Rightarrow> log_record list" where
  "written lvl rs = filter (\<lambda>r. lvl \<le> log_Level r) rs"

section \<open>The verifier of a configuration\<close>

datatype build_error =
    ReadOIDCCACert string
  | NoOIDCCACerts string
  | NewVerifier new_error

definition issuer_options :: "'prg Config \<Rightarrow> IssuerOption list" where
  "issuer_options cfg =
     map (\<lambda>iss. \<lparr>URL = Issuer_URL iss, RequireClaims = Issuer_RequireClaims iss\<rparr>) (cfg_Issuers cfg)"

definition verifier_options :: "'prg Config \<Rightarrow> 'cas option \<Rightarrow> 'cas Options" where
  "verifier_options cfg cas =
     \<lparr>Issuers = issuer_options cfg, Audiences = cfg_Audiences cfg, SigningAlgs = cfg_SigningAlgs cfg,
      HTTPTimeout = cfg_HTTPTimeout cfg, RootCAs = cas\<rparr>"

definition buildVerifier ::
  "('cas, 'prov, 'idv) oidc_api \<Rightarrow> (string \<Rightarrow> string + string) \<Rightarrow> (string \<Rightarrow> 'cas option) \<Rightarrow> 'prg Config
   \<Rightarrow> build_error + 'idv Verifier" where
  "buildVerifier oidc read appendCerts cfg =
     (case (if cfg_OIDCCACert cfg \<noteq> []
            then (case read (cfg_OIDCCACert cfg) of
                    Inl e \<Rightarrow> Inl (ReadOIDCCACert e)
                  | Inr pem \<Rightarrow> (case appendCerts pem of
                                  None \<Rightarrow> Inl (NoOIDCCACerts (cfg_OIDCCACert cfg))
                                | Some cas \<Rightarrow> Inr (Some cas)))
            else Inr None) of
        Inl e \<Rightarrow> Inl e
      | Inr rootCAs \<Rightarrow>
          (case Verifier_New oidc (verifier_options cfg rootCAs) of
             Inl e \<Rightarrow> Inl (NewVerifier e)
           | Inr v \<Rightarrow> Inr v))"

section \<open>Reloads\<close>

definition warning :: "string \<Rightarrow> log_record" where
  "warning msg = \<lparr>log_Level = LevelWarn, log_Message = msg, log_Attrs = []\<rparr>"

definition warnUnreloadable :: "'prg Config \<Rightarrow> 'prg Config \<Rightarrow> log_record list" where
  "warnUnreloadable oldCfg newCfg =
     (if cfg_NATS oldCfg \<noteq> cfg_NATS newCfg
      then [warning ''nats connection settings changed; restart required to apply''] else [])
     @ (if cfg_IssuerAccountSeed oldCfg \<noteq> cfg_IssuerAccountSeed newCfg \<or> cfg_XKeySeed oldCfg \<noteq> cfg_XKeySeed newCfg
        then [warning ''signing/xkey seeds changed; restart required to apply''] else [])
     @ (if cfg_Metrics oldCfg \<noteq> cfg_Metrics newCfg
        then [warning ''metrics settings changed; restart required to apply''] else [])"

text \<open>What a reload finds: the files, the OIDC providers and the certificates at that moment.\<close>

record ('prg, 'cas, 'prov, 'idv) outside =
  out_io :: "'prg io"
  out_oidc :: "('cas, 'prov, 'idv) oidc_api"
  out_certs :: "string \<Rightarrow> 'cas option"

record ('idv, 'prg, 'key) service =
  svc_current :: "'prg Config"
  svc_auth :: "('idv, 'prg, 'key) Authorizer"

definition log_to :: "log_record list \<Rightarrow> ('idv, 'prg, 'key) service \<Rightarrow> ('idv, 'prg, 'key) service" where
  "log_to rs s = s\<lparr>svc_auth := (svc_auth s)\<lparr>logger := logger (svc_auth s) @ rs\<rparr>\<rparr>"

text \<open>
  One SIGHUP. The logger is the one the authorizer writes to; \<open>errText\<close> is the text of an error.
\<close>

definition on_hup ::
  "('env, 'ast, 'prg) cel_api \<Rightarrow> (string \<Rightarrow> regex option) \<Rightarrow> (config_error + build_error \<Rightarrow> string) \<Rightarrow> string \<Rightarrow> ('prg, 'cas, 'prov, 'idv) outside
   \<Rightarrow> ('idv, 'prg, 'key) service \<Rightarrow> ('idv, 'prg, 'key) service" where
  "on_hup cel ext errText configPath out s0 =
     (let s = log_to [\<lparr>log_Level = LevelInfo, log_Message = ''SIGHUP received; reloading config'',
                       log_Attrs = [(''path'', LogString configPath)]\<rparr>] s0;
          failed = (\<lambda>e. \<lparr>log_Level = LevelError, log_Message = ''config reload failed; keeping previous config'',
                         log_Attrs = [(''error'', LogError (errText e))]\<rparr>) in
      case Load cel ext (out_io out) configPath of
        Inl e \<Rightarrow> log_to [failed (Inl e)] s
      | Inr newCfg \<Rightarrow>
          (let s1 = log_to (warnUnreloadable (svc_current s) newCfg) s in
           case buildVerifier (out_oidc out) (readFile (out_io out)) (out_certs out) newCfg of
             Inl e \<Rightarrow> log_to [failed (Inr e)] s1
           | Inr v \<Rightarrow>
               log_to [\<lparr>log_Level = LevelInfo, log_Message = ''config reloaded'',
                        log_Attrs = [(''issuers'', LogNumber (length (cfg_Issuers newCfg))),
                                     (''policy_rules'', LogNumber (length (Rules (cfg_Policy newCfg))))]\<rparr>]
                 (s1\<lparr>svc_auth := Reload v (cfg_Policy newCfg) (svc_auth s1), svc_current := newCfg\<rparr>)))"

definition watchReloads ::
  "('env, 'ast, 'prg) cel_api \<Rightarrow> (string \<Rightarrow> regex option) \<Rightarrow> (config_error + build_error \<Rightarrow> string) \<Rightarrow> string \<Rightarrow> ('prg, 'cas, 'prov, 'idv) outside list
   \<Rightarrow> ('idv, 'prg, 'key) service \<Rightarrow> ('idv, 'prg, 'key) service" where
  "watchReloads cel ext errText configPath hups s = fold (on_hup cel ext errText configPath) hups s"

section \<open>The connection to NATS\<close>

datatype tls_error = BothRequired | LoadClientCert string | ReadCACert string | NoCACerts string

definition tlsConfig ::
  "('key, 'cert, 'cas) service_api \<Rightarrow> (string \<Rightarrow> string + string) \<Rightarrow> NATSConfig
   \<Rightarrow> tls_error + ('cert, 'cas) TLSConfig option" where
  "tlsConfig api read cfg =
     (if NATS_ClientCert cfg = [] \<and> NATS_ClientKey cfg = [] \<and> NATS_CACert cfg = [] then Inr None
      else
        case (if NATS_ClientCert cfg \<noteq> [] \<or> NATS_ClientKey cfg \<noteq> []
              then (if NATS_ClientCert cfg = [] \<or> NATS_ClientKey cfg = [] then Inl BothRequired
                    else (case LoadX509KeyPair api (NATS_ClientCert cfg) (NATS_ClientKey cfg) of
                            Inl e \<Rightarrow> Inl (LoadClientCert e)
                          | Inr cert \<Rightarrow> Inr [cert]))
              else Inr []) of
          Inl e \<Rightarrow> Inl e
        | Inr certs \<Rightarrow>
            let t = \<lparr>MinVersion = VersionTLS12, Certificates = certs, TLSRootCAs = None\<rparr> in
            if NATS_CACert cfg \<noteq> []
            then (case read (NATS_CACert cfg) of
                    Inl e \<Rightarrow> Inl (ReadCACert e)
                  | Inr pem \<Rightarrow> (case AppendCertsFromPEM api pem of
                                  None \<Rightarrow> Inl (NoCACerts (NATS_CACert cfg))
                                | Some pool \<Rightarrow> Inr (Some (t\<lparr>TLSRootCAs := Some pool\<rparr>))))
            else Inr (Some t))"

datatype connect_error = TLSError tls_error | ConnectError string

datatype ('key, 'cert, 'cas) action =
    Listen string
  | Connect string "('cert, 'cas) nats_option list"
  | CloseConn
  | StartService "'key service_option list"
  | StopService

text \<open>The attempt to connect, if it gets that far, and its outcome.\<close>

definition connectNATS ::
  "('key, 'cert, 'cas) service_api \<Rightarrow> (string \<Rightarrow> string + string) \<Rightarrow> NATSConfig
   \<Rightarrow> ('key, 'cert, 'cas) action list \<times> connect_error option" where
  "connectNATS api read cfg =
     (let opts0 = [Name ''nats-oidc-callout''];
          opts1 = (if NATS_Credentials cfg \<noteq> [] then opts0 @ [UserCredentials (NATS_Credentials cfg)]
                   else if NATS_Username cfg \<noteq> [] then opts0 @ [UserInfo (NATS_Username cfg) (NATS_Password cfg)]
                   else opts0) in
      case tlsConfig api read cfg of
        Inl e \<Rightarrow> ([], Some (TLSError e))
      | Inr tlsCfg \<Rightarrow>
          (let opts = (case tlsCfg of None \<Rightarrow> opts1 | Some t \<Rightarrow> opts1 @ [Secure t]) in
           ([Connect (NATS_URL cfg) opts], map_option ConnectError (nats_Connect api (NATS_URL cfg) opts))))"

section \<open>Start\<close>

datatype run_error =
    LoadConfig config_error
  | IssuerAccountSeed string
  | XKeySeed string
  | BuildVerifier build_error
  | MetricsListen string
  | ConnectToNATS connect_error
  | StartCallout string

definition run ::
  "('env, 'ast, 'prg) cel_api \<Rightarrow> (string \<Rightarrow> regex option) \<Rightarrow> ('key, 'cert, 'cas) service_api
   \<Rightarrow> ('prg, 'cas, 'prov, 'idv) outside \<Rightarrow> string
   \<Rightarrow> ('key, 'cert, 'cas) action list \<times> (run_error + ('idv, 'prg, 'key) service)" where
  "run cel ext api out configPath =
     (let read = readFile (out_io out) in
      case Load cel ext (out_io out) configPath of Inl e \<Rightarrow> ([], Inl (LoadConfig e)) | Inr cfg \<Rightarrow>
      (case FromSeed api (cfg_IssuerAccountSeed cfg) of Inl e \<Rightarrow> ([], Inl (IssuerAccountSeed e)) | Inr key \<Rightarrow>
      (case (if cfg_XKeySeed cfg \<noteq> [] then map_sum id Some (FromSeed api (cfg_XKeySeed cfg)) else Inr None) of
         Inl e \<Rightarrow> ([], Inl (XKeySeed e)) | Inr xkey \<Rightarrow>
      (case buildVerifier (out_oidc out) read (out_certs out) cfg of Inl e \<Rightarrow> ([], Inl (BuildVerifier e)) | Inr v \<Rightarrow>
      (let m = (if Metrics_Enabled (cfg_Metrics cfg) then Some Metrics_New else None);
           listens = (if Metrics_Enabled (cfg_Metrics cfg) then [Listen (Metrics_Address (cfg_Metrics cfg))] else []) in
       case (if Metrics_Enabled (cfg_Metrics cfg) then net_Listen api (Metrics_Address (cfg_Metrics cfg)) else None) of
         Some e \<Rightarrow> (listens, Inl (MetricsListen e)) | None \<Rightarrow>
      (case connectNATS api read (cfg_NATS cfg) of
         (acts, Some e) \<Rightarrow> (listens @ acts, Inl (ConnectToNATS e)) | (acts, None) \<Rightarrow>
      (let a = Authorizer_New v (cfg_Policy cfg) key m;
           opts = [AuthorizerOption, ResponseSignerKey key] @ (case xkey of None \<Rightarrow> [] | Some x \<Rightarrow> [EncryptionKey x]) in
       case NewAuthorizationService api opts of
         Some e \<Rightarrow> (listens @ acts @ [StartService opts, CloseConn], Inl (StartCallout e))
       | None \<Rightarrow> (listens @ acts @ [StartService opts], Inr \<lparr>svc_current = cfg, svc_auth = a\<rparr>))))))))"

definition main :: "bool \<Rightarrow> string \<Rightarrow> (string \<Rightarrow> 'e + 's) \<Rightarrow> int" where
  "main showVersion configPath start =
     (if showVersion then 0
      else if configPath = [] then 2
      else (case start configPath of Inl _ \<Rightarrow> 1 | Inr _ \<Rightarrow> 0))"

end
