(* ===== verification/ServiceProps.thy ===== *)
theory ServiceProps
  imports Service
begin

text \<open>
  What the command guarantees: the order of the start, the connection options, and that the
  running authorizer always has a validated policy and a verifier of a loaded configuration, under
  any sequence of reloads.
\<close>

lemma log_to_simps [simp]:
  "svc_current (log_to rs s) = svc_current s"
  "state (svc_auth (log_to rs s)) = state (svc_auth s)"
  "signKey (svc_auth (log_to rs s)) = signKey (svc_auth s)"
  "metrics (svc_auth (log_to rs s)) = metrics (svc_auth s)"
  "verifyTimeout (svc_auth (log_to rs s)) = verifyTimeout (svc_auth s)"
  by (simp_all add: log_to_def)

lemma Reload_simps [simp]:
  "state (Reload v p a) = \<lparr>rs_verifier = v, rs_policy = p\<rparr>"
  "signKey (Reload v p a) = signKey a" "metrics (Reload v p a) = metrics a"
  "verifyTimeout (Reload v p a) = verifyTimeout a"
  by (simp_all add: Reload_def)

section \<open>Reloads\<close>

text \<open>A reload either changes nothing of the ruleset or installs what it has loaded and built.\<close>

lemma on_hup_cases:
  obtains (kept) "svc_current (on_hup cel ext errText path out s) = svc_current s"
      "state (svc_auth (on_hup cel ext errText path out s)) = state (svc_auth s)"
      "(\<exists>e. Load cel ext (out_io out) path = Inl e) \<or>
       (\<exists>cfg e. Load cel ext (out_io out) path = Inr cfg
          \<and> buildVerifier (out_oidc out) (readFile (out_io out)) (out_certs out) cfg = Inl e)"
    | (installed) cfg v where "Load cel ext (out_io out) path = Inr cfg"
      "buildVerifier (out_oidc out) (readFile (out_io out)) (out_certs out) cfg = Inr v"
      "svc_current (on_hup cel ext errText path out s) = cfg"
      "state (svc_auth (on_hup cel ext errText path out s)) = \<lparr>rs_verifier = v, rs_policy = cfg_Policy cfg\<rparr>"
proof (cases "Load cel ext (out_io out) path")
  case (Inl e)
  then show thesis by (intro kept) (simp_all add: on_hup_def Let_def)
next
  case (Inr cfg)
  then show thesis
    by (cases "buildVerifier (out_oidc out) (readFile (out_io out)) (out_certs out) cfg")
      (auto intro: kept installed simp: on_hup_def Let_def)
qed

lemma on_hup_unreloadable [simp]:
  "signKey (svc_auth (on_hup cel ext errText path out s)) = signKey (svc_auth s)"
  "metrics (svc_auth (on_hup cel ext errText path out s)) = metrics (svc_auth s)"
  by (simp_all add: on_hup_def Let_def split: sum.split)

text \<open>The ruleset in force belongs to the configuration the service regards as current.\<close>

definition service_ok ::
  "('env, 'ast, 'prg) cel_api \<Rightarrow> (string \<Rightarrow> regex option) \<Rightarrow> ('idv, 'prg, 'key) service \<Rightarrow> bool" where
  "service_ok cel ext s \<longleftrightarrow>
     config_ok cel ext (svc_current s) \<and> rs_policy (state (svc_auth s)) = cfg_Policy (svc_current s)
     \<and> map fst (issuers (rs_verifier (state (svc_auth s)))) = map Issuer_URL (cfg_Issuers (svc_current s))
     \<and> audiences (rs_verifier (state (svc_auth s))) = set (cfg_Audiences (svc_current s))"

lemma buildVerifier_Inr:
  assumes "buildVerifier oidc read certs cfg = Inr v"
  shows "\<exists>cas. Verifier_New oidc (verifier_options cfg cas) = Inr v"
  using assms by (auto simp: buildVerifier_def split: sum.splits if_splits option.splits)

lemma add_issuers_Inl:
  "add_issuers oidc client algs is m = Inl x \<Longrightarrow>
     \<exists>u \<in> URL ` set is. x = DuplicateIssuer u \<or> (\<exists>y. x = Discovery u y)"
  by (induction oidc client algs "is" m rule: add_issuers.induct)
    (auto simp: Let_def split: if_splits sum.splits)

lemma buildVerifier_Inl:
  assumes "buildVerifier oidc read certs cfg = Inl e"
  shows "(cfg_OIDCCACert cfg \<noteq> [] \<and> (e = NoOIDCCACerts (cfg_OIDCCACert cfg) \<or> (\<exists>x. e = ReadOIDCCACert x)))
    \<or> (\<exists>cas x. e = NewVerifier x \<and> Verifier_New oidc (verifier_options cfg cas) = Inl x)"
  using assms by (auto simp: buildVerifier_def split: sum.splits if_splits option.splits)

lemma buildVerifier_of_config:
  assumes "buildVerifier oidc read certs cfg = Inr v"
  shows "map fst (issuers v) = map Issuer_URL (cfg_Issuers cfg) \<and> audiences v = set (cfg_Audiences cfg)"
proof -
  obtain cas where "Verifier_New oidc (verifier_options cfg cas) = Inr v"
    using buildVerifier_Inr [OF assms] by blast
  then have "v = \<lparr>issuers = map (entry_of oidc (http_client_of (verifier_options cfg cas)) (cfg_SigningAlgs cfg)) (issuer_options cfg),
             audiences = set (cfg_Audiences cfg)\<rparr>"
    by (simp add: Verifier_New_Inr verifier_options_def)
  then show ?thesis by (simp add: issuer_options_def comp_def)
qed

lemma service_ok_on_hup: "service_ok cel ext s \<Longrightarrow> service_ok cel ext (on_hup cel ext errText path out s)"
proof (cases rule: on_hup_cases [of cel ext errText path out s])
  case kept
  assume "service_ok cel ext s"
  with kept show ?thesis by (simp add: service_ok_def)
next
  case (installed cfg v)
  then show ?thesis
    using Load_config_ok [OF installed(1)] buildVerifier_of_config [OF installed(2)]
    by (simp add: service_ok_def)
qed

lemma service_ok_watchReloads:
  "service_ok cel ext s \<Longrightarrow> service_ok cel ext (watchReloads cel ext errText path hups s)"
  unfolding watchReloads_def by (induction hups arbitrary: s) (simp_all add: service_ok_on_hup)

section \<open>Start\<close>

lemma run_Inr:
  assumes "run cel ext api out path = (acts, Inr s)"
  obtains cfg key v xs where "Load cel ext (out_io out) path = Inr cfg"
    "FromSeed api (cfg_IssuerAccountSeed cfg) = Inr key"
    "buildVerifier (out_oidc out) (readFile (out_io out)) (out_certs out) cfg = Inr v"
    "svc_current s = cfg" "state (svc_auth s) = \<lparr>rs_verifier = v, rs_policy = cfg_Policy cfg\<rparr>"
    "signKey (svc_auth s) = key" "acts \<noteq> []" "last acts = StartService ([AuthorizerOption, ResponseSignerKey key] @ xs)"
  using assms
  by (auto simp: run_def Let_def Authorizer_New_def split: sum.splits option.splits prod.splits if_splits)

lemma service_ok_run: "run cel ext api out path = (acts, Inr s) \<Longrightarrow> service_ok cel ext s"
proof -
  assume r: "run cel ext api out path = (acts, Inr s)"
  show ?thesis
    by (rule run_Inr [OF r])
      (use Load_config_ok buildVerifier_of_config in \<open>fastforce simp: service_ok_def\<close>)
qed

section \<open>Connection options\<close>

lemma tlsConfig_Some:
  "tlsConfig api read cfg = Inr (Some t) \<Longrightarrow>
     MinVersion t = VersionTLS12
     \<and> (NATS_ClientCert cfg = [] \<longleftrightarrow> NATS_ClientKey cfg = [])
     \<and> (Certificates t = [] \<longleftrightarrow> NATS_ClientCert cfg = [])
     \<and> (TLSRootCAs t = None \<longleftrightarrow> NATS_CACert cfg = [])"
  by (auto simp: tlsConfig_def Let_def split: if_splits sum.splits option.splits)

lemma connectNATS_actions:
  "connectNATS api read cfg = (acts, e) \<Longrightarrow>
     acts = [] \<and> e \<noteq> None \<or> (\<exists>opts. acts = [Connect (NATS_URL cfg) opts])"
  by (auto simp: connectNATS_def Let_def split: sum.splits)

lemma map_sum_Inr_not_isl: "map_sum f g y = Inr z \<Longrightarrow> \<not> isl y"
  by (cases y) auto

section \<open>Libraries to evaluate\<close>

definition sample_service_api :: "(string, string, unit) service_api" where
  "sample_service_api =
     \<lparr>FromSeed = Inr, AppendCertsFromPEM = (\<lambda>_. Some ()), LoadX509KeyPair = (\<lambda>c k. Inr (c @ k)),
      net_Listen = (\<lambda>_. None), nats_Connect = (\<lambda>_ _. None), NewAuthorizationService = (\<lambda>_. None)\<rparr>"

definition sample_outside :: "(string, unit, string, string) outside" where
  "sample_outside = \<lparr>out_io = sample_io [github_rule] [], out_oidc = sample_oidc, out_certs = (\<lambda>_. Some ())\<rparr>"

text \<open>A moment at which the configuration file cannot be read.\<close>

definition broken_outside :: "(string, unit, string, string) outside" where
  "broken_outside = sample_outside\<lparr>out_io := (sample_io [github_rule] [])\<lparr>readFile := (\<lambda>_. Inl ''gone'')\<rparr>\<rparr>"

definition sample_service :: "(string, string, string) service" where
  "sample_service = projr (snd (run sample_cel (\<lambda>_. None) sample_service_api sample_outside ''config.yaml''))"

lemma sample_runs:
  "\<exists>acts. run sample_cel (\<lambda>_. None) sample_service_api sample_outside ''config.yaml'' = (acts, Inr sample_service)"
proof -
  have "\<not> isl (snd (run sample_cel (\<lambda>_. None) sample_service_api sample_outside ''config.yaml''))" by code_simp
  then show ?thesis unfolding sample_service_def
    by (cases "run sample_cel (\<lambda>_. None) sample_service_api sample_outside ''config.yaml''")
      (metis snd_conv sum.collapse(2))
qed

section \<open>Properties\<close>

text \<open>
  C21. The running service always enforces a validated policy of the configuration it regards as
  current. After a successful start and any sequence of SIGHUPs, whatever the files and the
  providers say at each of them, the policy of the authorizer is that of the current
  configuration, it is validated and all its rules meet the contract, and the verifier trusts
  exactly the issuers and audiences of that configuration.
\<close>

theorem service_policy_always_validated:
  assumes "run cel ext api out path = (acts, Inr s)"
  shows "let s' = watchReloads cel ext errText path hups s;
             rs = state (svc_auth s'); cfg = svc_current s' in
    rs_policy rs = cfg_Policy cfg \<and> validated (rs_policy rs)
    \<and> (\<forall>r \<in> set (Rules (rs_policy rs)). rule_valid cel ext r \<and> compiled cel ext r = r)
    \<and> map fst (issuers (rs_verifier rs)) = map Issuer_URL (cfg_Issuers cfg)
    \<and> audiences (rs_verifier rs) = set (cfg_Audiences cfg)"
  using service_ok_watchReloads [OF service_ok_run [OF assms], of errText path hups]
  by (simp add: Let_def service_ok_def config_ok_def)

theorem service_policy_always_validated_witness:
  "validated (rs_policy (state (svc_auth
     (watchReloads sample_cel (\<lambda>_. None) (\<lambda>_. []) ''config.yaml'' [broken_outside, sample_outside] sample_service))))"
proof -
  obtain acts where "run sample_cel (\<lambda>_. None) sample_service_api sample_outside ''config.yaml'' = (acts, Inr sample_service)"
    using sample_runs by blast
  from service_policy_always_validated [OF this] show ?thesis unfolding Let_def by blast
qed

text \<open>
  C30. A reload that fails changes nothing that is served. If the new configuration does not load, or
  its verifier cannot be built, the ruleset, the current configuration, the signing key and the
  metrics stay as they were, so that every request is answered as before; only the log grows.
\<close>

theorem failed_reload_keeps_serving:
  assumes "(\<exists>e. Load cel ext (out_io out) path = Inl e) \<or>
    (\<exists>cfg e. Load cel ext (out_io out) path = Inr cfg
       \<and> buildVerifier (out_oidc out) (readFile (out_io out)) (out_certs out) cfg = Inl e)"
  shows "let s' = on_hup cel ext errText path out s in
    svc_current s' = svc_current s \<and> state (svc_auth s') = state (svc_auth s)
    \<and> signKey (svc_auth s') = signKey (svc_auth s) \<and> metrics (svc_auth s') = metrics (svc_auth s)
    \<and> fst (Authorize oidc cel jwt env req (svc_auth s')) = fst (Authorize oidc cel jwt env req (svc_auth s))
    \<and> (\<exists>ls. logger (svc_auth s') = logger (svc_auth s) @ ls \<and> log_Level (last ls) = LevelError)"
proof -
  let ?s' = "on_hup cel ext errText path out s"
  have st: "svc_current ?s' = svc_current s \<and> state (svc_auth ?s') = state (svc_auth s)"
    using assms by (auto simp: on_hup_def Let_def)
  moreover have "fst (Authorize oidc cel jwt env req (svc_auth ?s')) = fst (Authorize oidc cel jwt env req (svc_auth s))"
    using st by (intro fst_Authorize_cong) simp_all
  moreover have "\<exists>ls. logger (svc_auth ?s') = logger (svc_auth s) @ ls \<and> log_Level (last ls) = LevelError"
    using assms by (auto simp: on_hup_def Let_def log_to_def)
  ultimately show ?thesis by (simp add: Let_def)
qed

theorem failed_reload_keeps_serving_witness:
  "state (svc_auth (on_hup sample_cel (\<lambda>_. None) (\<lambda>_. []) ''config.yaml'' broken_outside sample_service))
     = state (svc_auth sample_service)"
proof -
  have "Load sample_cel (\<lambda>_. None) (out_io broken_outside) ''config.yaml'' = Inl (ReadConfig ''gone'')"
    by (simp add: Load_def broken_outside_def)
  from failed_reload_keeps_serving [of sample_cel "\<lambda>_. None" broken_outside "''config.yaml''" "\<lambda>_. []" sample_service
      sample_oidc sample_jwt sample_env sample_request] this
  show ?thesis by (auto simp: Let_def)
qed

text \<open>
  C31. The service fails fast. It connects to NATS only after the configuration loaded, the seeds were
  accepted and the verifier was built with discovery, and only to the configured URL; if it exits
  with an error it has not left the callout service started on an open connection.
\<close>

theorem start_fails_fast:
  assumes "run cel ext api out path = (acts, r)"
  shows "(\<forall>url opts. Connect url opts \<in> set acts \<longrightarrow>
      (\<exists>cfg key v. Load cel ext (out_io out) path = Inr cfg \<and> FromSeed api (cfg_IssuerAccountSeed cfg) = Inr key
         \<and> (cfg_XKeySeed cfg \<noteq> [] \<longrightarrow> \<not> isl (FromSeed api (cfg_XKeySeed cfg)))
         \<and> buildVerifier (out_oidc out) (readFile (out_io out)) (out_certs out) cfg = Inr v
         \<and> url = NATS_URL (cfg_NATS cfg)))
    \<and> (\<forall>opts. isl r \<and> StartService opts \<in> set acts \<longrightarrow> last acts = CloseConn)"
  using assms
  by (auto simp: run_def Let_def split: sum.splits option.splits prod.splits if_splits
           dest!: connectNATS_actions map_sum_Inr_not_isl)

theorem start_fails_fast_witness:
  "\<exists>acts cfg. run sample_cel (\<lambda>_. None) sample_service_api sample_outside ''config.yaml'' = (acts, Inr sample_service)
     \<and> Connect ''nats://n'' [Name ''nats-oidc-callout''] \<in> set acts
     \<and> Load sample_cel (\<lambda>_. None) (out_io sample_outside) ''config.yaml'' = Inr cfg"
proof -
  obtain acts where r: "run sample_cel (\<lambda>_. None) sample_service_api sample_outside ''config.yaml'' = (acts, Inr sample_service)"
    using sample_runs by blast
  have "Connect ''nats://n'' [Name ''nats-oidc-callout'']
      \<in> set (fst (run sample_cel (\<lambda>_. None) sample_service_api sample_outside ''config.yaml''))" by code_simp
  then have "Connect ''nats://n'' [Name ''nats-oidc-callout''] \<in> set acts" using r by simp
  with start_fails_fast [OF r] r show ?thesis by blast
qed

text \<open>
  A loaded configuration can only fail to give a verifier for an outside reason. Given what
  validation established, \<open>buildVerifier\<close> never reports a missing issuer, audience or algorithm: it
  fails only over the CA file, over two entries with one URL, or over the discovery of an issuer.
\<close>

theorem loaded_config_build_errors:
  assumes "Load cel ext fs path = Inr cfg" and "buildVerifier oidc read certs cfg = Inl e"
  shows "(cfg_OIDCCACert cfg \<noteq> [] \<and> (e = NoOIDCCACerts (cfg_OIDCCACert cfg) \<or> (\<exists>x. e = ReadOIDCCACert x)))
    \<or> (\<exists>u. e = NewVerifier (DuplicateIssuer u) \<and> u \<in> Issuer_URL ` set (cfg_Issuers cfg))
    \<or> (\<exists>u x. e = NewVerifier (Discovery u x) \<and> u \<in> Issuer_URL ` set (cfg_Issuers cfg))"
proof -
  have c: "cfg_Issuers cfg \<noteq> []" "cfg_Audiences cfg \<noteq> []" "cfg_SigningAlgs cfg \<noteq> []"
    using Load_config_ok [OF assms(1)] by (simp_all add: config_ok_def)
  have v: "\<exists>u \<in> Issuer_URL ` set (cfg_Issuers cfg). x = DuplicateIssuer u \<or> (\<exists>y. x = Discovery u y)"
    if "Verifier_New oidc (verifier_options cfg cas) = Inl x" for cas x
  proof -
    have "add_issuers oidc (http_client_of (verifier_options cfg cas)) (cfg_SigningAlgs cfg) (issuer_options cfg) [] = Inl x"
      using that c by (auto simp: Verifier_New_def verifier_options_def issuer_options_def split: if_splits sum.splits)
    from add_issuers_Inl [OF this] show ?thesis by (simp add: issuer_options_def image_image)
  qed
  show ?thesis
    using buildVerifier_Inl [OF assms(2)]
  proof (elim disjE exE conjE)
    fix cas x
    assume e: "e = NewVerifier x" and "Verifier_New oidc (verifier_options cfg cas) = Inl x"
    from v [OF this(2)] obtain u where "u \<in> Issuer_URL ` set (cfg_Issuers cfg)"
      "x = DuplicateIssuer u \<or> (\<exists>y. x = Discovery u y)" by blast
    then show ?thesis unfolding e by blast
  qed simp_all
qed

end
