(* ===== verification/MetricsServer.thy ===== *)
theory MetricsServer
  imports Config StepSystems
begin

text \<open>
  \<open>internal/metrics/server.go\<close>: \<open>Serve\<close>, a goroutine that runs the HTTP server and a \<open>select\<close> over
  the end of the context and the channel the goroutine reports an error on.

  \<open>mux.Handle\<close> panics on a pattern that is not well formed: a pattern with no slash always, the
  other malformed ones are a parameter. The state has the goroutine, the channel, whose buffer
  holds one error, and the result of the \<open>select\<close> once it has returned. Timeouts and the requests
  themselves are not modelled.
\<close>

definition DefaultPath :: string where "DefaultPath = ''/metrics''"

datatype srv_phase = Accepting | Sending string | Stopped

record serve_state =
  serve_path :: string
  ctx_done :: bool
  srv :: srv_phase
  shut_down :: bool
  errCh :: "string list"
  serve_result :: "string option option"

text \<open>The start of \<open>Serve\<close>, or \<open>None\<close> for the panic of \<open>mux.Handle\<close>.\<close>

definition Serve :: "(string \<Rightarrow> bool) \<Rightarrow> string \<Rightarrow> serve_state option" where
  "Serve malformed path =
     (let p = (if path = [] then DefaultPath else path) in
      if CHR ''/'' \<notin> set p \<or> malformed p then None
      else Some \<lparr>serve_path = p, ctx_done = False, srv = Accepting, shut_down = False, errCh = [], serve_result = None\<rparr>)"

text \<open>
  The steps: the caller cancels the context; the server fails; it stops because it was shut down
  (\<open>ErrServerClosed\<close>, which is not sent); the goroutine sends the error, which needs room in the
  channel; and the two branches of the \<open>select\<close>.
\<close>

inductive serve_step :: "serve_state \<Rightarrow> serve_state \<Rightarrow> bool" where
  cancel: "serve_step s (s\<lparr>ctx_done := True\<rparr>)"
| accept_fails: "srv s = Accepting \<Longrightarrow> serve_step s (s\<lparr>srv := Sending e\<rparr>)"
| server_closed: "srv s = Accepting \<Longrightarrow> shut_down s \<Longrightarrow> serve_step s (s\<lparr>srv := Stopped\<rparr>)"
| send: "srv s = Sending e \<Longrightarrow> length (errCh s) < 1 \<Longrightarrow> serve_step s (s\<lparr>srv := Stopped, errCh := errCh s @ [e]\<rparr>)"
| select_done: "serve_result s = None \<Longrightarrow> ctx_done s \<Longrightarrow>
    serve_step s (s\<lparr>shut_down := True, serve_result := Some shutdown\<rparr>)"
| select_error: "serve_result s = None \<Longrightarrow> errCh s = e # es \<Longrightarrow>
    serve_step s (s\<lparr>errCh := es, serve_result := Some (Some e)\<rparr>)"

definition serve_inv :: "serve_state \<Rightarrow> bool" where
  "serve_inv s \<longleftrightarrow> length (errCh s) \<le> 1
     \<and> (errCh s \<noteq> [] \<longrightarrow> srv s = Stopped)
     \<and> (shut_down s \<longrightarrow> serve_result s \<noteq> None)
     \<and> (serve_result s = None \<longrightarrow> srv s = Stopped \<longrightarrow> errCh s \<noteq> [])
     \<and> (\<forall>r. serve_result s = Some r \<longrightarrow> ctx_done s \<or> srv s = Stopped \<and> r \<noteq> None)"

definition serve_initial :: "serve_state \<Rightarrow> bool" where
  "serve_initial s \<longleftrightarrow> (\<exists>malformed path. Serve malformed path = Some s)"

lemma serve_inv_step: "serve_step s s' \<Longrightarrow> serve_inv s \<Longrightarrow> serve_inv s'"
  by (induction rule: serve_step.induct) (auto simp: serve_inv_def)

interpretation server: invariant_system serve_initial serve_step serve_inv
proof unfold_locales
  show "serve_inv s" if "serve_initial s" for s
    using that by (auto simp: serve_initial_def Serve_def Let_def serve_inv_def split: if_splits)
qed (rule serve_inv_step)

text \<open>
  C35. \<open>Serve\<close> leaves no goroutine behind and misses no end. In every reachable state an error the
  goroutine wants to report can be sent, so that it never blocks; if the context has ended or the
  server has stopped, \<open>Serve\<close> can return; and it has returned only then, with an error if it was the
  server that stopped.
\<close>

theorem metrics_serve_ends:
  assumes "Serve malformed path = Some s0" and "serve_step\<^sup>*\<^sup>* s0 s"
  shows "(\<forall>e. srv s = Sending e \<longrightarrow> (\<exists>s'. serve_step s s' \<and> srv s' = Stopped))
    \<and> (ctx_done s \<or> srv s = Stopped \<longrightarrow> serve_result s = None \<longrightarrow> (\<exists>s'. serve_step s s' \<and> serve_result s' \<noteq> None))
    \<and> (\<forall>r. serve_result s = Some r \<longrightarrow> ctx_done s \<or> srv s = Stopped \<and> r \<noteq> None)"
proof (intro conjI allI impI)
  have i: "serve_inv s" using server.reachable_inv [OF _ assms(2)] assms(1) by (auto simp: serve_initial_def)
  show "\<exists>s'. serve_step s s' \<and> srv s' = Stopped" if e: "srv s = Sending e" for e
  proof -
    have "length (errCh s) < 1" using i e by (auto simp: serve_inv_def)
    from serve_step.send [OF e this] show ?thesis by force
  qed
  show "\<exists>s'. serve_step s s' \<and> serve_result s' \<noteq> None"
    if c: "ctx_done s \<or> srv s = Stopped" and n: "serve_result s = None"
  proof (cases "ctx_done s")
    case True
    from serve_step.select_done [OF n True] show ?thesis by force
  next
    case False
    then obtain e es where "errCh s = e # es" using c n i by (cases "errCh s") (auto simp: serve_inv_def)
    from serve_step.select_error [OF n this] show ?thesis by force
  qed
  show "ctx_done s \<or> srv s = Stopped \<and> r \<noteq> None" if "serve_result s = Some r" for r
    using i that by (simp add: serve_inv_def)
qed

theorem metrics_serve_ends_witness:
  "\<exists>s s'. Serve (\<lambda>_. False) [] = Some s \<and> serve_path s = ''/metrics'' \<and> serve_step (s\<lparr>ctx_done := True\<rparr>) s'
    \<and> serve_result s' \<noteq> None"
proof -
  obtain s where s: "Serve (\<lambda>_. False) [] = Some s" "serve_path s = ''/metrics''" "serve_result s = None"
    by (simp add: Serve_def DefaultPath_def)
  have "serve_step\<^sup>*\<^sup>* s (s\<lparr>ctx_done := True\<rparr>)" by (rule r_into_rtranclp) (rule serve_step.cancel)
  from metrics_serve_ends [OF s(1) this] show ?thesis using s by auto
qed

end
