(* ===== verification/Running.thy ===== *)
theory Running
  imports ServiceProps MetricsServer
begin

text \<open>
  The service while it runs, as one process: the main goroutine of \<open>run\<close>, the goroutine
  \<open>watchReloads\<close>, the goroutine of the metrics endpoint, and any number of calls of \<open>Authorize\<close>, with
  the signals the process receives.

  A step is one access to what the goroutines share: a load or a store of the ruleset, one line of
  the log, one counter, one signal channel; or one call of a library that may take long. What the
  code does not decide (which of the ready cases \<open>select\<close> takes, what the files and the providers
  say, how the clock runs) is in the choice of the step. A process whose main goroutine returns
  ends, and its other goroutines with it.
\<close>

section \<open>A call of \<open>Authorize\<close>, step by step\<close>

text \<open>What a record does to the metrics, one library call after the other; none on nil metrics.\<close>

datatype metric_op = IncRequests string | IncDenials string | Observe duration

definition metric_ops :: "event \<Rightarrow> metric_op list" where
  "metric_ops e =
     (case e of
        Allowed d \<Rightarrow> [IncRequests ''allowed'', Observe d]
      | Denied reason d \<Rightarrow> [IncRequests ''denied'', IncDenials reason, Observe d])"

definition apply_op :: "metric_op \<Rightarrow> Metrics \<Rightarrow> Metrics" where
  "apply_op o1 m =
     (case o1 of
        IncRequests l \<Rightarrow> m\<lparr>requests := Inc l (requests m)\<rparr>
      | IncDenials r \<Rightarrow> m\<lparr>denials := Inc r (denials m)\<rparr>
      | Observe d \<Rightarrow> m\<lparr>observed := observed m @ [d]\<rparr>)"

datatype ('idv, 'prg) request_pc =
    Q_load
  | Q_verify "('idv, 'prg) ruleset"
  | Q_evaluate "('idv, 'prg) ruleset" identity
  | Q_sign identity Decision
  | Q_log log_record "event option" answer
  | Q_record "metric_op list" answer
  | Q_done answer

definition rejected :: "log_level \<Rightarrow> string \<Rightarrow> (string \<times> log_value) list \<Rightarrow> event option \<Rightarrow> ('idv, 'prg) request_pc" where
  "rejected lvl msg attrs ev = Q_log \<lparr>log_Level = lvl, log_Message = msg, log_Attrs = attrs\<rparr> ev ErrDenied"

text \<open>The authorizer is shared; the rest of the state of a call is its own.\<close>

fun request_step ::
  "('cas, 'prov, 'idv) oidc_api \<Rightarrow> ('env, 'ast, 'prg) cel_api \<Rightarrow> ('rest, 'key) jwt_api \<Rightarrow> call_env \<Rightarrow> AuthorizationRequest
   \<Rightarrow> ('idv, 'prg) request_pc \<times> ('idv, 'prg, 'key) Authorizer \<Rightarrow> ('idv, 'prg) request_pc \<times> ('idv, 'prg, 'key) Authorizer" where
  "request_step oidc cel jwt env req (Q_load, a) = (Q_verify (state a), a)"
| "request_step oidc cel jwt env req (Q_verify st, a) =
     (if Token req = [] then
        rejected LevelWarn ''connection rejected: no token'' [(''user_nkey'', LogString (UserNkey req))]
          (Some (Denied ReasonNoToken (Sub (now_end env) (now_start env))))
      else (case Verify oidc (visit_order env) (rs_verifier st) (Token req) of
        Inl e \<Rightarrow>
          rejected LevelWarn ''connection rejected: token verification failed''
            [(''user_nkey'', LogString (UserNkey req)), (''error'', LogVerifyError e)]
            (Some (Denied ReasonVerificationFailed (Sub (now_end env) (now_start env))))
      | Inr d \<Rightarrow> Q_evaluate st d), a)"
| "request_step oidc cel jwt env req (Q_evaluate st d, a) =
     (case policy_Evaluate cel (now_rules env) (rs_policy st) d of
        Inl e \<Rightarrow>
          rejected LevelWarn ''connection rejected: no policy match''
            [(''user_nkey'', LogString (UserNkey req)), (''iss'', LogString (Issuer d)),
             (''sub'', LogString (Subject d)), (''error'', LogEvaluateError e)]
            (Some (Denied ReasonPolicyNoMatch (Sub (now_end env) (now_start env))))
      | Inr decision \<Rightarrow> Q_sign d decision, a)"
| "request_step oidc cel jwt env req (Q_sign d decision, a) =
     (case NewUserClaims jwt (UserNkey req) of
        None \<Rightarrow> Q_done Panicked
      | Some uc \<Rightarrow>
          (case Encode jwt (user_claims d decision (now_cap env) uc) (signKey a) of
             Inl e \<Rightarrow>
               rejected LevelError ''connection rejected: failed to sign user JWT''
                 [(''user_nkey'', LogString (UserNkey req)), (''error'', LogError e)] None
           | Inr userJWT \<Rightarrow>
               Q_log \<lparr>log_Level = LevelInfo, log_Message = ''connection authorized'',
                      log_Attrs = [(''user_nkey'', LogString (UserNkey req)), (''iss'', LogString (Issuer d)),
                                   (''sub'', LogString (Subject d)), (''account'', LogString (Account decision)),
                                   (''rule'', LogString (RuleName decision))]\<rparr>
                 (Some (Allowed (Sub (now_end env) (now_start env)))) (Issued userJWT)), a)"
| "request_step oidc cel jwt env req (Q_log r ev ans, a) =
     ((case ev of
         None \<Rightarrow> Q_done ans
       | Some e \<Rightarrow> if metrics a = None then Q_done ans else Q_record (metric_ops e) ans),
      write_log (log_Level r) (log_Message r) (log_Attrs r) a)"
| "request_step oidc cel jwt env req (Q_record [] ans, a) = (Q_done ans, a)"
| "request_step oidc cel jwt env req (Q_record (o1 # ops) ans, a) =
     (Q_record ops ans, a\<lparr>metrics := map_option (apply_op o1) (metrics a)\<rparr>)"
| "request_step oidc cel jwt env req (Q_done ans, a) = (Q_done ans, a)"

text \<open>A call is over when it has returned an answer or panicked.\<close>

fun call_over :: "('idv, 'prg) request_pc \<Rightarrow> bool" where
  "call_over (Q_done ans) = True"
| "call_over _ = False"

section \<open>The process\<close>

text \<open>\<open>N_start\<close> is before \<open>signal.Notify\<close>, \<open>N_returned\<close> after \<open>signal.Stop\<close>; \<open>N_log\<close> writes lines and goes on.\<close>

datatype ('idv, 'prg) watcher =
    N_start
  | N_select
  | N_log "log_record list" "('idv, 'prg) watcher"
  | N_load
  | N_build "'prg Config"
  | N_install "'prg Config" "'idv Verifier"
  | N_returned

text \<open>\<open>run\<close> after the start of \<open>watchReloads\<close>: the wait, then the line and the deferred calls.\<close>

datatype main_pc = M_started | M_wait | M_down | M_stop | M_close | M_cancel | M_return

text \<open>The goroutine around \<open>Serve\<close>: not there, before \<open>Serve\<close>, in it, and after it.\<close>

datatype exporter = E_off | E_start string | E_serving serve_state | E_ended serve_state

datatype exit = Exited int | Signalled | Crashed

text \<open>
  A call keeps, beside its point, what it was made with, and three numbers of rulesets that no code
  reads: how many there had been when it began, when it loaded, and when it answered. It also keeps
  which counters it has changed.
\<close>

record ('cas, 'prov, 'idv, 'prg) call =
  c_req :: AuthorizationRequest
  c_env :: call_env
  c_oidc :: "('cas, 'prov, 'idv) oidc_api"
  c_pc :: "('idv, 'prg) request_pc"
  c_began :: nat
  c_loaded :: nat
  c_answered :: nat
  c_ops :: "metric_op list"

text \<open>
  The process. \<open>p_hup\<close> is the number of signals in the channel \<open>hup\<close>. Two fields are read by no code:
  the configurations and rulesets in the order they were put in force, and whether a SIGHUP has come
  in since the configuration was last read. \<open>p_exit\<close> is set when the process has ended.
\<close>

record ('cas, 'prov, 'idv, 'prg, 'key, 'cert) process =
  p_auth :: "('idv, 'prg, 'key) Authorizer"
  p_current :: "'prg Config"
  p_calls :: "('cas, 'prov, 'idv, 'prg) call list"
  p_watch :: "('idv, 'prg) watcher"
  p_hup :: nat
  p_ctx :: bool
  p_main :: main_pc
  p_exporter :: exporter
  p_actions :: "('key, 'cert, 'cas) action list"
  p_exit :: "exit option"
  p_history :: "('prg Config \<times> ('idv, 'prg) ruleset) list"
  p_unread :: bool

text \<open>The process when \<open>run\<close> has started the callout service and the goroutines.\<close>

definition start_process ::
  "('key, 'cert, 'cas) action list \<Rightarrow> ('idv, 'prg, 'key) service \<Rightarrow> ('cas, 'prov, 'idv, 'prg, 'key, 'cert) process" where
  "start_process acts s =
     \<lparr>p_auth = svc_auth s, p_current = svc_current s, p_calls = [], p_watch = N_start, p_hup = 0, p_ctx = False,
      p_main = M_started, p_exporter = (if Metrics_Enabled (cfg_Metrics (svc_current s)) 
                    then E_start (Metrics_Path (cfg_Metrics (svc_current s))) else E_off),
      p_actions = acts, p_exit = None, p_history = [(svc_current s, state (svc_auth s))], p_unread = False\<rparr>"

definition log_line :: "log_record \<Rightarrow> ('idv, 'prg, 'key) Authorizer \<Rightarrow> ('idv, 'prg, 'key) Authorizer" where
  "log_line r a = a\<lparr>logger := logger a @ [r]\<rparr>"

definition info :: "string \<Rightarrow> (string \<times> log_value) list \<Rightarrow> log_record" where
  "info msg attrs = \<lparr>log_Level = LevelInfo, log_Message = msg, log_Attrs = attrs\<rparr>"

definition reload_failed :: "string \<Rightarrow> log_record" where
  "reload_failed err = \<lparr>log_Level = LevelError, log_Message = ''config reload failed; keeping previous config'',
     log_Attrs = [(''error'', LogError err)]\<rparr>"

section \<open>Steps\<close>

text \<open>
  A panic of \<open>Authorize\<close> that nothing recovers from ends the process. The sources do not recover from it;
  whether the callout library, which calls \<open>Authorize\<close>, does is the parameter \<open>recovers\<close>.
\<close>

fun panic_exit :: "bool \<Rightarrow> ('idv, 'prg) request_pc \<Rightarrow> exit option" where
  "panic_exit recovers (Q_done Panicked) = (if recovers then None else Some Crashed)"
| "panic_exit recovers _ = None"

definition new_call ::
  "AuthorizationRequest \<Rightarrow> call_env \<Rightarrow> ('cas, 'prov, 'idv) oidc_api \<Rightarrow> nat \<Rightarrow> ('cas, 'prov, 'idv, 'prg) call" where
  "new_call req env oidc n =
     \<lparr>c_req = req, c_env = env, c_oidc = oidc, c_pc = Q_load, c_began = n, c_loaded = 0, c_answered = 0, c_ops = []\<rparr>"

text \<open>A step of a call, with what it leaves in the fields no code reads; \<open>n\<close> rulesets have been in force.\<close>

definition call_step ::
  "('env, 'ast, 'prg) cel_api \<Rightarrow> ('rest, 'key) jwt_api \<Rightarrow> nat
   \<Rightarrow> ('cas, 'prov, 'idv, 'prg) call \<Rightarrow> ('idv, 'prg, 'key) Authorizer
   \<Rightarrow> ('cas, 'prov, 'idv, 'prg) call \<times> ('idv, 'prg, 'key) Authorizer" where
  "call_step cel jwt n c a =
     (case request_step (c_oidc c) cel jwt (c_env c) (c_req c) (c_pc c, a) of
        (pc', a') \<Rightarrow>
          (c\<lparr>c_pc := pc',
             c_loaded := (if c_pc c = Q_load then n else c_loaded c),
             c_answered := (if call_over pc' then n else c_answered c),
             c_ops := c_ops c @ (case c_pc c of Q_record (o1 # _) _ \<Rightarrow> [o1] | _ \<Rightarrow> [])\<rparr>, a'))"

text \<open>
  \<open>watchReloads\<close>. \<open>out\<close> is what a load or a build finds, \<open>pick_done\<close> the case that \<open>select\<close> takes; there is
  no step where the goroutine has to wait.
\<close>

definition watch_step ::
  "('env, 'ast, 'prg) cel_api \<Rightarrow> (string \<Rightarrow> regex option) \<Rightarrow> (config_error + build_error \<Rightarrow> string) \<Rightarrow> string
   \<Rightarrow> ('prg, 'cas, 'prov, 'idv) outside \<Rightarrow> bool
   \<Rightarrow> ('cas, 'prov, 'idv, 'prg, 'key, 'cert) process \<Rightarrow> ('cas, 'prov, 'idv, 'prg, 'key, 'cert) process option" where
  "watch_step cel ext errText configPath out pick_done p =
     (case p_watch p of
        N_start \<Rightarrow> Some (p\<lparr>p_watch := N_select\<rparr>)
      | N_select \<Rightarrow>
          if pick_done then (if p_ctx p then Some (p\<lparr>p_watch := N_returned\<rparr>) else None)
          else if p_hup p = 0 then None
          else Some (p\<lparr>p_hup := p_hup p - 1,
                       p_watch := N_log [info ''SIGHUP received; reloading config'' [(''path'', LogString configPath)]] N_load\<rparr>)
      | N_log [] next \<Rightarrow> Some (p\<lparr>p_watch := next\<rparr>)
      | N_log (r # rs) next \<Rightarrow> Some (p\<lparr>p_auth := log_line r (p_auth p), p_watch := N_log rs next\<rparr>)
      | N_load \<Rightarrow>
          Some (p\<lparr>p_unread := False,
                  p_watch := (case Load cel ext (out_io out) configPath of
                                Inl e \<Rightarrow> N_log [reload_failed (errText (Inl e))] N_select
                              | Inr newCfg \<Rightarrow> N_log (warnUnreloadable (p_current p) newCfg) (N_build newCfg))\<rparr>)
      | N_build newCfg \<Rightarrow>
          Some (p\<lparr>p_watch := (case buildVerifier (out_oidc out) (readFile (out_io out)) (out_certs out) newCfg of
                                Inl e \<Rightarrow> N_log [reload_failed (errText (Inr e))] N_select
                              | Inr v \<Rightarrow> N_install newCfg v)\<rparr>)
      | N_install newCfg v \<Rightarrow>
          Some (p\<lparr>p_auth := Reload v (cfg_Policy newCfg) (p_auth p), p_current := newCfg,
                  p_history := p_history p @ [(newCfg, \<lparr>rs_verifier = v, rs_policy = cfg_Policy newCfg\<rparr>)],
                  p_watch := N_log [info ''config reloaded''
                               [(''issuers'', LogNumber (length (cfg_Issuers newCfg))),
                                (''policy_rules'', LogNumber (length (Rules (cfg_Policy newCfg))))]] N_select\<rparr>)
      | N_returned \<Rightarrow> None)"

definition main_step ::
  "('cas, 'prov, 'idv, 'prg, 'key, 'cert) process \<Rightarrow> ('cas, 'prov, 'idv, 'prg, 'key, 'cert) process option" where
  "main_step p =
     (case p_main p of
        M_started \<Rightarrow> Some (p\<lparr>p_auth := log_line (info ''auth callout service started; waiting for requests'' []) (p_auth p),
                             p_main := M_wait\<rparr>)
      | M_wait \<Rightarrow> if p_ctx p then Some (p\<lparr>p_main := M_down\<rparr>) else None
      | M_down \<Rightarrow> Some (p\<lparr>p_auth := log_line (info ''shutting down'' []) (p_auth p), p_main := M_stop\<rparr>)
      | M_stop \<Rightarrow> Some (p\<lparr>p_actions := p_actions p @ [StopService], p_main := M_close\<rparr>)
      | M_close \<Rightarrow> Some (p\<lparr>p_actions := p_actions p @ [CloseConn], p_main := M_cancel\<rparr>)
      | M_cancel \<Rightarrow> Some (p\<lparr>p_ctx := True, p_main := M_return\<rparr>)
      | M_return \<Rightarrow> Some (p\<lparr>p_exit := Some (Exited 0)\<rparr>))"

text \<open>The start of \<open>Serve\<close>, whose panic ends the process, and its end.\<close>

definition serve_start ::
  "(string \<Rightarrow> bool) \<Rightarrow> string \<Rightarrow> ('cas, 'prov, 'idv, 'prg, 'key, 'cert) process
   \<Rightarrow> ('cas, 'prov, 'idv, 'prg, 'key, 'cert) process" where
  "serve_start malformed path p =
     (case Serve malformed path of
        None \<Rightarrow> p\<lparr>p_exit := Some Crashed\<rparr>
      | Some sv \<Rightarrow> p\<lparr>p_exporter := E_serving sv\<rparr>)"

definition serve_end ::
  "serve_state \<Rightarrow> string option \<Rightarrow> ('cas, 'prov, 'idv, 'prg, 'key, 'cert) process
   \<Rightarrow> ('cas, 'prov, 'idv, 'prg, 'key, 'cert) process" where
  "serve_end sv r p =
     p\<lparr>p_exporter := E_ended sv,
       p_auth := (case r of
          None \<Rightarrow> p_auth p
        | Some err \<Rightarrow> log_line \<lparr>log_Level = LevelError, log_Message = ''metrics server error'',
            log_Attrs = [(''error'', LogError err)]\<rparr> (p_auth p))\<rparr>"

text \<open>
  SIGHUP: where \<open>signal.Notify\<close> is in force it is put into the channel if there is room, and dropped
  otherwise; before and after, the signal has its default effect and ends the process.
\<close>

definition sighup ::
  "('cas, 'prov, 'idv, 'prg, 'key, 'cert) process \<Rightarrow> ('cas, 'prov, 'idv, 'prg, 'key, 'cert) process" where
  "sighup p =
     (if p_watch p = N_start \<or> p_watch p = N_returned then p\<lparr>p_exit := Some Signalled\<rparr>
      else p\<lparr>p_hup := (if p_hup p < 1 then Suc (p_hup p) else p_hup p), p_unread := True\<rparr>)"

text \<open>SIGINT and SIGTERM cancel the context until \<open>run\<close> has called \<open>cancel\<close>.\<close>

definition sigterm ::
  "('cas, 'prov, 'idv, 'prg, 'key, 'cert) process \<Rightarrow> ('cas, 'prov, 'idv, 'prg, 'key, 'cert) process" where
  "sigterm p = (if p_main p = M_return then p\<lparr>p_exit := Some Signalled\<rparr> else p\<lparr>p_ctx := True\<rparr>)"

text \<open>
  A live step is one of the process itself; \<open>apis\<close> are the states the OIDC library can be in. At any
  time requests and signals may come in.
\<close>

inductive live_step ::
  "('env, 'ast, 'prg) cel_api \<Rightarrow> (string \<Rightarrow> regex option) \<Rightarrow> ('rest, 'key) jwt_api \<Rightarrow> bool \<Rightarrow> (config_error + build_error \<Rightarrow> string)
   \<Rightarrow> (string \<Rightarrow> bool) \<Rightarrow> string \<Rightarrow> ('cas, 'prov, 'idv) oidc_api set
   \<Rightarrow> ('cas, 'prov, 'idv, 'prg, 'key, 'cert) process \<Rightarrow> ('cas, 'prov, 'idv, 'prg, 'key, 'cert) process \<Rightarrow> bool"
  for cel :: "('env, 'ast, 'prg) cel_api" and ext :: "string \<Rightarrow> regex option" and jwt :: "('rest, 'key) jwt_api"
    and recovers :: bool and errText :: "config_error + build_error \<Rightarrow> string" and malformed :: "string \<Rightarrow> bool" and configPath :: string
    and apis :: "('cas, 'prov, 'idv) oidc_api set" where
  calls: "p_exit p = None \<Longrightarrow> p_calls p = before @ c # after \<Longrightarrow> \<not> call_over (c_pc c) \<Longrightarrow>
    call_step cel jwt (length (p_history p)) c (p_auth p) = (c', a') \<Longrightarrow>
    live_step cel ext jwt recovers errText malformed configPath apis p
      (p\<lparr>p_auth := a', p_calls := before @ c' # after, p_exit := panic_exit recovers (c_pc c')\<rparr>)"
| watches: "p_exit p = None \<Longrightarrow> out_oidc out \<in> apis \<Longrightarrow>
    watch_step cel ext errText configPath out pick_done p = Some p' \<Longrightarrow>
    live_step cel ext jwt recovers errText malformed configPath apis p p'"
| mains: "p_exit p = None \<Longrightarrow> main_step p = Some p' \<Longrightarrow> live_step cel ext jwt recovers errText malformed configPath apis p p'"
| serve_starts: "p_exit p = None \<Longrightarrow> p_exporter p = E_start path \<Longrightarrow>
    live_step cel ext jwt recovers errText malformed configPath apis p (serve_start malformed path p)"
| serves: "p_exit p = None \<Longrightarrow> p_exporter p = E_serving sv \<Longrightarrow> serve_step sv sv' \<Longrightarrow> sv' \<noteq> sv \<Longrightarrow>
    ctx_done sv' \<longrightarrow> p_ctx p \<Longrightarrow>
    live_step cel ext jwt recovers errText malformed configPath apis p (p\<lparr>p_exporter := E_serving sv'\<rparr>)"
| serve_ends: "p_exit p = None \<Longrightarrow> p_exporter p = E_serving sv \<Longrightarrow> serve_result sv = Some r \<Longrightarrow>
    live_step cel ext jwt recovers errText malformed configPath apis p (serve_end sv r p)"

inductive process_step ::
  "('env, 'ast, 'prg) cel_api \<Rightarrow> (string \<Rightarrow> regex option) \<Rightarrow> ('rest, 'key) jwt_api \<Rightarrow> bool \<Rightarrow> (config_error + build_error \<Rightarrow> string)
   \<Rightarrow> (string \<Rightarrow> bool) \<Rightarrow> string \<Rightarrow> ('cas, 'prov, 'idv) oidc_api set
   \<Rightarrow> ('cas, 'prov, 'idv, 'prg, 'key, 'cert) process \<Rightarrow> ('cas, 'prov, 'idv, 'prg, 'key, 'cert) process \<Rightarrow> bool"
  for cel :: "('env, 'ast, 'prg) cel_api" and ext :: "string \<Rightarrow> regex option" and jwt :: "('rest, 'key) jwt_api"
    and recovers :: bool and errText :: "config_error + build_error \<Rightarrow> string" and malformed :: "string \<Rightarrow> bool" and configPath :: string
    and apis :: "('cas, 'prov, 'idv) oidc_api set" where
  lives: "live_step cel ext jwt recovers errText malformed configPath apis p p' \<Longrightarrow>
    process_step cel ext jwt recovers errText malformed configPath apis p p'"
| arrives: "p_exit p = None \<Longrightarrow> oidc \<in> apis \<Longrightarrow> process_step cel ext jwt recovers errText malformed configPath apis p
    (p\<lparr>p_calls := p_calls p @ [new_call req env oidc (length (p_history p))]\<rparr>)"
| hangs_up: "p_exit p = None \<Longrightarrow> process_step cel ext jwt recovers errText malformed configPath apis p (sighup p)"
| terminates: "p_exit p = None \<Longrightarrow> process_step cel ext jwt recovers errText malformed configPath apis p (sigterm p)"

end
