(* ===== verification/RunningProps.thy ===== *)
theory RunningProps
  imports Running
begin

text \<open>
  What the running service guarantees in every interleaving: a call of \<open>Authorize\<close> and a reload run
  alone are the functions \<open>Authorize\<close> and \<open>on_hup\<close>; every request is answered under a ruleset that was in
  force while it ran and belongs to a configuration that was loaded; the counters keep up with the
  answers; no SIGHUP is lost while the service watches; and the process comes to rest.
\<close>

section \<open>The effect of the steps\<close>

lemma log_line_simps [simp]:
  "state (log_line r a) = state a" "signKey (log_line r a) = signKey a" "metrics (log_line r a) = metrics a"
  "logger (log_line r a) = logger a @ [r]"
  by (simp_all add: log_line_def)

lemma panic_exit_None: "panic_exit recovers pc = None \<longleftrightarrow> (pc = Q_done Panicked \<longrightarrow> recovers)"
  by (cases "(recovers, pc)" rule: panic_exit.cases) auto

lemma panic_exit_Some: "panic_exit recovers pc = Some x \<longleftrightarrow> pc = Q_done Panicked \<and> \<not> recovers \<and> x = Crashed"
  by (cases "(recovers, pc)" rule: panic_exit.cases) auto

text \<open>The counter a step of a call changes.\<close>

fun next_ops :: "('idv, 'prg) request_pc \<Rightarrow> metric_op list" where
  "next_ops (Q_record (o1 # ops) ans) = [o1]"
| "next_ops _ = []"

fun next_lines :: "('idv, 'prg) request_pc \<Rightarrow> log_record list" where
  "next_lines (Q_log r ev ans) = [r]"
| "next_lines _ = []"

lemma next_ops_case: "(case pc of Q_record (o1 # ops) ans \<Rightarrow> [o1] | _ \<Rightarrow> []) = next_ops pc"
  by (cases pc rule: next_ops.cases) simp_all

lemma request_step_effect:
  "request_step oidc cel jwt env req (pc, a) = (pc', a') \<Longrightarrow>
     state a' = state a \<and> signKey a' = signKey a \<and> verifyTimeout a' = verifyTimeout a
     \<and> logger a' = logger a @ next_lines pc
     \<and> metrics a' = map_option (fold apply_op (next_ops pc)) (metrics a)"
  by (cases "(oidc, cel, jwt, env, req, pc, a)" rule: request_step.cases)
    (auto simp: write_log_def option.map_ident option.map_id0)

section \<open>A call alone\<close>

lemma fold_metric_ops: "map_option (fold apply_op (metric_ops e)) m = record_event e m"
  by (cases e; cases m) (simp_all add: metric_ops_def apply_op_def record_event_def RecordAllowed_def RecordDenied_def)

lemma record_steps:
  "(request_step oidc cel jwt env req ^^ Suc (length ops)) (Q_record ops ans, a)
     = (Q_done ans, a\<lparr>metrics := map_option (fold apply_op ops) (metrics a)\<rparr>)"
proof (induction ops arbitrary: a)
  case Nil
  then show ?case by (simp add: option.map_ident)
next
  case (Cons o1 ops)
  then show ?case by (simp add: option.map_comp comp_def funpow_Suc_right del: funpow.simps(2))
qed

lemma done_steps: "(request_step oidc cel jwt env req ^^ n) (Q_done ans, a) = (Q_done ans, a)"
  by (induction n) simp_all

lemma record_end:
  "length ops < n \<Longrightarrow> (request_step oidc cel jwt env req ^^ n) (Q_record ops ans, a)
     = (Q_done ans, a\<lparr>metrics := map_option (fold apply_op ops) (metrics a)\<rparr>)"
proof -
  assume "length ops < n"
  then have "n = (n - Suc (length ops)) + Suc (length ops)" by simp
  then obtain k where n: "n = k + Suc (length ops)" by blast
  show ?thesis unfolding n funpow_add by (simp only: comp_apply record_steps done_steps)
qed

lemma log_end:
  assumes "4 < n"
  shows "(request_step oidc cel jwt env req ^^ n) (Q_log r ev ans, a)
     = (Q_done ans, (write_log (log_Level r) (log_Message r) (log_Attrs r) a)
          \<lparr>metrics := (case ev of None \<Rightarrow> metrics a | Some e \<Rightarrow> record_event e (metrics a))\<rparr>)"
proof -
  obtain k where n: "n = Suc k" "3 < k" using assms by (cases n) auto
  have "length (metric_ops e) < k" for e using n(2) by (cases e) (simp_all add: metric_ops_def)
  moreover have "record_event e None = None" for e
    by (simp add: record_event_def RecordAllowed_def RecordDenied_def split: event.split)
  ultimately show ?thesis
    unfolding n(1)
    by (cases ev) (auto simp: funpow_Suc_right record_end done_steps write_log_def fold_metric_ops
        simp del: funpow.simps(2))
qed

lemma authorize_steps:
  assumes "8 < n"
  shows "(request_step oidc cel jwt env req ^^ n) (Q_load, a)
    = (Q_done (fst (Authorize oidc cel jwt env req a)), snd (Authorize oidc cel jwt env req a))"
proof -
  let ?f = "request_step oidc cel jwt env req"
  obtain n1 n2 n3 n4 where n: "n = Suc n1" "n1 = Suc n2" "n2 = Suc n3" "n3 = Suc n4"
    using assms by (intro that [of "n - 1" "n - 2" "n - 3" "n - 4"]) simp_all
  have step: "(?f ^^ Suc m) x = (?f ^^ m) (?f x)" for m x by (simp add: funpow_swap1)
  have "(?f ^^ n) (Q_load, x) = (?f ^^ n1) (?f (Q_load, x))" "(?f ^^ n1) (Q_verify st, x) = (?f ^^ n2) (?f (Q_verify st, x))"
    "(?f ^^ n2) (Q_evaluate st d, x) = (?f ^^ n3) (?f (Q_evaluate st d, x))"
    "(?f ^^ n3) (Q_sign d decision, x) = (?f ^^ n4) (?f (Q_sign d decision, x))" for st d decision x
    using step n by blast+
  note steps = this
  have "4 < n2" "4 < n3" "4 < n4" using n assms by simp_all
  then show ?thesis
    by (simp add: steps log_end done_steps rejected_def Authorize_def Let_def write_log_def
          record_denied_def record_allowed_def record_event_def split: sum.split option.split)
qed

text \<open>
  C20. A call of \<open>Authorize\<close> that runs alone is the function \<open>Authorize\<close>. Taken one access at a time, with
  every call of a counter on its own, it is done after at most nine steps, with the answer, the log
  and the metrics of the function.
\<close>

theorem request_steps_equiv:
  assumes "8 < n"
  shows "(request_step oidc cel jwt env req ^^ n) (Q_load, a)
    = (Q_done (fst (Authorize oidc cel jwt env req a)), snd (Authorize oidc cel jwt env req a))"
  using assms by (rule authorize_steps)

theorem request_steps_equiv_witness:
  "fst ((request_step sample_oidc sample_cel sample_jwt sample_env sample_request ^^ 9) (Q_load, sample_authorizer ''K''))
     = Q_done (Issued ''KsAPP'')"
  using request_steps_equiv [of 9 sample_oidc sample_cel sample_jwt sample_env sample_request "sample_authorizer ''K''"]
    sample_authorizes by simp

section \<open>The answer of a call\<close>

text \<open>The answer a call comes to from its point on, with the signing key \<open>key\<close>.\<close>

definition signed_answer ::
  "('rest, 'key) jwt_api \<Rightarrow> call_env \<Rightarrow> AuthorizationRequest \<Rightarrow> 'key \<Rightarrow> identity \<Rightarrow> Decision \<Rightarrow> answer" where
  "signed_answer jwt env req key d decision =
     (case NewUserClaims jwt (UserNkey req) of
        None \<Rightarrow> Panicked
      | Some uc \<Rightarrow> (case Encode jwt (user_claims d decision (now_cap env) uc) key of
                      Inl e \<Rightarrow> ErrDenied
                    | Inr userJWT \<Rightarrow> Issued userJWT))"

fun pc_answer ::
  "('cas, 'prov, 'idv) oidc_api \<Rightarrow> ('env, 'ast, 'prg) cel_api \<Rightarrow> ('rest, 'key) jwt_api \<Rightarrow> call_env \<Rightarrow> AuthorizationRequest
   \<Rightarrow> 'key \<Rightarrow> ('idv, 'prg) request_pc \<Rightarrow> answer option" where
  "pc_answer oidc cel jwt env req key Q_load = None"
| "pc_answer oidc cel jwt env req key (Q_verify st) = Some (answer_under oidc cel jwt env req key st)"
| "pc_answer oidc cel jwt env req key (Q_evaluate st d) =
     Some (case policy_Evaluate cel (now_rules env) (rs_policy st) d of
             Inl e \<Rightarrow> ErrDenied
           | Inr decision \<Rightarrow> signed_answer jwt env req key d decision)"
| "pc_answer oidc cel jwt env req key (Q_sign d decision) = Some (signed_answer jwt env req key d decision)"
| "pc_answer oidc cel jwt env req key (Q_log r ev ans) = Some ans"
| "pc_answer oidc cel jwt env req key (Q_record ops ans) = Some ans"
| "pc_answer oidc cel jwt env req key (Q_done ans) = Some ans"

lemma answer_under_cases:
  "answer_under oidc cel jwt env req key st =
     (if Token req = [] then ErrDenied
      else (case Verify oidc (visit_order env) (rs_verifier st) (Token req) of
              Inl e \<Rightarrow> ErrDenied
            | Inr d \<Rightarrow> (case policy_Evaluate cel (now_rules env) (rs_policy st) d of
                          Inl e \<Rightarrow> ErrDenied
                        | Inr decision \<Rightarrow> signed_answer jwt env req key d decision)))"
  by (simp add: answer_under_def Authorize_def Reload_def Authorizer_New_def Let_def signed_answer_def
      split: sum.split option.split)

lemma request_step_answer:
  assumes "request_step oidc cel jwt env req (pc, a) = (pc', a')" and "signKey a = key"
  shows "pc_answer oidc cel jwt env req key pc' =
     (if pc = Q_load then Some (answer_under oidc cel jwt env req key (state a)) else pc_answer oidc cel jwt env req key pc)"
proof (cases pc)
  case (Q_verify st)
  then show ?thesis
    using assms by (auto simp: answer_under_cases rejected_def split: sum.splits if_splits)
next
  case (Q_record ops ans)
  then show ?thesis using assms by (cases ops) auto
qed (use assms in \<open>auto simp: rejected_def signed_answer_def split: sum.splits option.splits if_splits\<close>)

lemma call_over_Some: "call_over pc \<Longrightarrow> \<exists>ans. pc = Q_done ans"
  by (cases pc) auto

section \<open>What is in force\<close>

definition loadable ::
  "('env, 'ast, 'prg) cel_api \<Rightarrow> (string \<Rightarrow> regex option) \<Rightarrow> string \<Rightarrow> 'prg Config \<Rightarrow> bool" where
  "loadable cel ext path cfg \<longleftrightarrow> (\<exists>fs. Load cel ext fs path = Inr cfg)"

text \<open>A configuration that was loaded, and the ruleset made of it.\<close>

definition installable ::
  "('env, 'ast, 'prg) cel_api \<Rightarrow> (string \<Rightarrow> regex option) \<Rightarrow> string \<Rightarrow> ('cas, 'prov, 'idv) oidc_api set
   \<Rightarrow> 'prg Config \<times> ('idv, 'prg) ruleset \<Rightarrow> bool" where
  "installable cel ext path apis = (\<lambda>(cfg, rs). loadable cel ext path cfg \<and> rs_policy rs = cfg_Policy cfg
     \<and> (\<exists>oidc \<in> apis. \<exists>cas. Verifier_New oidc (verifier_options cfg cas) = Inr (rs_verifier rs)))"

fun watcher_ok ::
  "('env, 'ast, 'prg) cel_api \<Rightarrow> (string \<Rightarrow> regex option) \<Rightarrow> string \<Rightarrow> ('cas, 'prov, 'idv) oidc_api set
   \<Rightarrow> ('idv, 'prg) watcher \<Rightarrow> bool" where
  "watcher_ok cel ext path apis (N_log rs next) = watcher_ok cel ext path apis next"
| "watcher_ok cel ext path apis (N_build cfg) = loadable cel ext path cfg"
| "watcher_ok cel ext path apis (N_install cfg v) =
     installable cel ext path apis (cfg, \<lparr>rs_verifier = v, rs_policy = cfg_Policy cfg\<rparr>)"
| "watcher_ok cel ext path apis _ = True"

text \<open>A call, when the rulesets \<open>rss\<close> have been in force so far.\<close>

definition call_ok ::
  "('env, 'ast, 'prg) cel_api \<Rightarrow> ('rest, 'key) jwt_api \<Rightarrow> 'key \<Rightarrow> ('cas, 'prov, 'idv) oidc_api set \<Rightarrow> ('idv, 'prg) ruleset list
   \<Rightarrow> ('cas, 'prov, 'idv, 'prg) call \<Rightarrow> bool" where
  "call_ok cel jwt key apis rss c \<longleftrightarrow>
     c_oidc c \<in> apis \<and> 0 < c_began c \<and> c_began c \<le> length rss
     \<and> (c_pc c \<noteq> Q_load \<longrightarrow> c_began c \<le> c_loaded c \<and> c_loaded c \<le> length rss
          \<and> pc_answer (c_oidc c) cel jwt (c_env c) (c_req c) key (c_pc c)
              = Some (answer_under (c_oidc c) cel jwt (c_env c) (c_req c) key (rss ! (c_loaded c - 1))))
     \<and> (call_over (c_pc c) \<longrightarrow> c_loaded c \<le> c_answered c \<and> c_answered c \<le> length rss)"

lemma call_ok_append: "call_ok cel jwt key apis rss c \<Longrightarrow> call_ok cel jwt key apis (rss @ [rs]) c"
  by (auto simp: call_ok_def nth_append)

lemma call_ok_step:
  assumes "call_ok cel jwt key apis rss c" and "call_step cel jwt (length rss) c a = (c', a')"
    and "signKey a = key" and "state a = last rss" and "\<not> call_over (c_pc c)"
  shows "call_ok cel jwt key apis rss c'"
proof -
  obtain pc' where s: "request_step (c_oidc c) cel jwt (c_env c) (c_req c) (c_pc c, a) = (pc', a')"
    and c': "c' = c\<lparr>c_pc := pc', c_loaded := (if c_pc c = Q_load then length rss else c_loaded c),
       c_answered := (if call_over pc' then length rss else c_answered c), c_ops := c_ops c @ next_ops (c_pc c)\<rparr>"
    using assms(2) by (auto simp: call_step_def next_ops_case split: prod.splits)
  have rss: "rss \<noteq> []" using assms(1) by (auto simp: call_ok_def)
  show ?thesis
    using assms(1,4) request_step_answer [OF s assms(3)] rss
    by (auto simp: call_ok_def c' last_conv_nth)
qed

section \<open>The invariant of the process\<close>

definition process_initial ::
  "('env, 'ast, 'prg) cel_api \<Rightarrow> (string \<Rightarrow> regex option) \<Rightarrow> string \<Rightarrow> ('cas, 'prov, 'idv) oidc_api set \<Rightarrow> 'key
   \<Rightarrow> ('cas, 'prov, 'idv, 'prg, 'key, 'cert) process \<Rightarrow> bool" where
  "process_initial cel ext path apis key p \<longleftrightarrow>
     (\<exists>api out acts s. run cel ext api out path = (acts, Inr s) \<and> out_oidc out \<in> apis
        \<and> signKey (svc_auth s) = key \<and> p = start_process acts s)"

definition process_ok ::
  "('env, 'ast, 'prg) cel_api \<Rightarrow> (string \<Rightarrow> regex option) \<Rightarrow> ('rest, 'key) jwt_api \<Rightarrow> string \<Rightarrow> ('cas, 'prov, 'idv) oidc_api set
   \<Rightarrow> 'key \<Rightarrow> ('cas, 'prov, 'idv, 'prg, 'key, 'cert) process \<Rightarrow> bool" where
  "process_ok cel ext jwt path apis key p \<longleftrightarrow>
     signKey (p_auth p) = key \<and> p_history p \<noteq> [] \<and> last (p_history p) = (p_current p, state (p_auth p))
     \<and> (\<forall>h \<in> set (p_history p). installable cel ext path apis h) \<and> watcher_ok cel ext path apis (p_watch p)
     \<and> (\<forall>c \<in> set (p_calls p). call_ok cel jwt key apis (map snd (p_history p)) c)"

text \<open>What the main goroutine, the metrics goroutine and the signals leave alone.\<close>

definition same_service ::
  "('cas, 'prov, 'idv, 'prg, 'key, 'cert) process \<Rightarrow> ('cas, 'prov, 'idv, 'prg, 'key, 'cert) process \<Rightarrow> bool" where
  "same_service p p' \<longleftrightarrow>
     p_current p' = p_current p \<and> p_calls p' = p_calls p \<and> p_watch p' = p_watch p \<and> p_history p' = p_history p
     \<and> state (p_auth p') = state (p_auth p) \<and> signKey (p_auth p') = signKey (p_auth p)
     \<and> metrics (p_auth p') = metrics (p_auth p)
     \<and> filter signing_failure (logger (p_auth p')) = filter signing_failure (logger (p_auth p))"

lemma main_step_same: "main_step p = Some p' \<Longrightarrow> same_service p p'"
  by (auto simp: main_step_def same_service_def info_def signing_failure_def split: main_pc.splits if_splits)

lemma serve_same: "same_service p (serve_start malformed path p)" "same_service p (serve_end sv r p)"
  "same_service p (p\<lparr>p_exporter := e\<rparr>)" "same_service p (sighup p)" "same_service p (sigterm p)"
  by (auto simp: serve_start_def serve_end_def sighup_def sigterm_def same_service_def signing_failure_def
      split: option.splits)

lemma process_ok_same: "same_service p p' \<Longrightarrow> process_ok cel ext jwt path apis key p \<Longrightarrow> process_ok cel ext jwt path apis key p'"
  by (auto simp: same_service_def process_ok_def)

lemma process_ok_watch:
  assumes "watch_step cel ext errText path out b p = Some p'" and "out_oidc out \<in> apis" and "process_ok cel ext jwt path apis key p"
  shows "process_ok cel ext jwt path apis key p'"
proof (cases "p_watch p")
  case (N_log rs rest)
  then show ?thesis using assms(1,3) by (cases rs) (auto simp: watch_step_def process_ok_def)
next
  case (N_build cfg)
  then show ?thesis
    using assms buildVerifier_Inr [of "out_oidc out" "readFile (out_io out)" "out_certs out" cfg]
    by (fastforce simp: watch_step_def process_ok_def installable_def split: sum.splits)
next
  case (N_install cfg v)
  then show ?thesis using assms(1,3)
    by (auto simp: watch_step_def process_ok_def call_ok_append)
qed (use assms in \<open>auto simp: watch_step_def process_ok_def loadable_def split: if_splits sum.splits\<close>)

lemma process_ok_call:
  assumes "p_calls p = before @ c # after" and "\<not> call_over (c_pc c)"
    and "call_step cel jwt (length (p_history p)) c (p_auth p) = (c', a')" and "process_ok cel ext jwt path apis key p"
  shows "process_ok cel ext jwt path apis key (p\<lparr>p_auth := a', p_calls := before @ c' # after, p_exit := x\<rparr>)"
proof -
  have a': "state a' = state (p_auth p)" "signKey a' = signKey (p_auth p)"
    using assms(3) request_step_effect by (fastforce simp: call_step_def split: prod.splits)+
  have "call_ok cel jwt key apis (map snd (p_history p)) c'"
    using assms by (intro call_ok_step [of _ _ _ _ _ c "p_auth p" c' a']) (auto simp: process_ok_def last_map)
  then show ?thesis using assms(1,4) a' by (auto simp: process_ok_def)
qed

lemma process_ok_live:
  assumes "live_step cel ext jwt recovers errText malformed path apis p p'" and "process_ok cel ext jwt path apis key p"
  shows "process_ok cel ext jwt path apis key p'"
  using assms(1)
proof cases
  case (calls before c after c' a')
  then show ?thesis using process_ok_call [OF calls(3-5) assms(2)] by simp
next
  case (watches out b)
  show ?thesis by (rule process_ok_watch [OF watches(3,2) assms(2)])
next
  case mains
  show ?thesis by (rule process_ok_same [OF main_step_same [OF mains(2)] assms(2)])
qed (use assms(2) in \<open>auto intro: process_ok_same serve_same\<close>)

lemma process_ok_step:
  assumes "process_step cel ext jwt recovers errText malformed path apis p p'" and "process_ok cel ext jwt path apis key p"
  shows "process_ok cel ext jwt path apis key p'"
  using assms(1)
proof cases
  case lives
  show ?thesis by (rule process_ok_live [OF lives assms(2)])
next
  case (arrives oidc req env)
  then show ?thesis using assms(2)
    by (auto simp: process_ok_def call_ok_def new_call_def Suc_le_eq)
qed (use assms(2) in \<open>auto intro: process_ok_same serve_same\<close>)

lemma process_ok_initial: "process_initial cel ext path apis key p \<Longrightarrow> process_ok cel ext jwt path apis key p"
proof -
  assume "process_initial cel ext path apis key p"
  then obtain api out acts s where r: "run cel ext api out path = (acts, Inr s)" and o: "out_oidc out \<in> apis"
    and k: "signKey (svc_auth s) = key" and p: "p = start_process acts s"
    by (auto simp: process_initial_def)
  show ?thesis
    by (rule run_Inr [OF r])
      (use o k buildVerifier_Inr in \<open>fastforce simp: p process_ok_def start_process_def installable_def loadable_def\<close>)
qed

interpretation process: invariant_system "process_initial cel ext path apis key"
  "process_step cel ext jwt recovers errText malformed path apis" "process_ok cel ext jwt path apis key"
  by unfold_locales (fact process_ok_initial process_ok_step)+

section \<open>Schedules\<close>

text \<open>Runs as a function of the moves that are made, to evaluate them. A move that is not possible has no run.\<close>

datatype ('prg, 'cas, 'prov, 'idv) move =
    Arrive AuthorizationRequest call_env "('cas, 'prov, 'idv) oidc_api"
  | Call nat
  | Watch "('prg, 'cas, 'prov, 'idv) outside" bool
  | Main
  | StartServe
  | Hangup
  | Terminate

definition call_at ::
  "('env, 'ast, 'prg) cel_api \<Rightarrow> ('rest, 'key) jwt_api \<Rightarrow> bool \<Rightarrow> nat
   \<Rightarrow> ('cas, 'prov, 'idv, 'prg, 'key, 'cert) process \<Rightarrow> ('cas, 'prov, 'idv, 'prg, 'key, 'cert) process" where
  "call_at cel jwt recovers i p =
     (case call_step cel jwt (length (p_history p)) (p_calls p ! i) (p_auth p) of
        (c', a') \<Rightarrow> p\<lparr>p_auth := a', p_calls := (p_calls p)[i := c'], p_exit := panic_exit recovers (c_pc c')\<rparr>)"

definition move_step ::
  "('env, 'ast, 'prg) cel_api \<Rightarrow> (string \<Rightarrow> regex option) \<Rightarrow> ('rest, 'key) jwt_api \<Rightarrow> bool \<Rightarrow> (config_error + build_error \<Rightarrow> string)
   \<Rightarrow> (string \<Rightarrow> bool) \<Rightarrow> string \<Rightarrow> ('prg, 'cas, 'prov, 'idv) move
   \<Rightarrow> ('cas, 'prov, 'idv, 'prg, 'key, 'cert) process \<Rightarrow> ('cas, 'prov, 'idv, 'prg, 'key, 'cert) process option" where
  "move_step cel ext jwt recovers errText malformed path m p =
     (if p_exit p \<noteq> None then None
      else (case m of
        Arrive req env oidc \<Rightarrow> Some (p\<lparr>p_calls := p_calls p @ [new_call req env oidc (length (p_history p))]\<rparr>)
      | Call i \<Rightarrow> if i < length (p_calls p) \<and> \<not> call_over (c_pc (p_calls p ! i)) then Some (call_at cel jwt recovers i p) else None
      | Watch out b \<Rightarrow> watch_step cel ext errText path out b p
      | Main \<Rightarrow> main_step p
      | StartServe \<Rightarrow> (case p_exporter p of E_start q \<Rightarrow> Some (serve_start malformed q p) | _ \<Rightarrow> None)
      | Hangup \<Rightarrow> Some (sighup p)
      | Terminate \<Rightarrow> Some (sigterm p)))"

fun moves ::
  "('env, 'ast, 'prg) cel_api \<Rightarrow> (string \<Rightarrow> regex option) \<Rightarrow> ('rest, 'key) jwt_api \<Rightarrow> bool \<Rightarrow> (config_error + build_error \<Rightarrow> string)
   \<Rightarrow> (string \<Rightarrow> bool) \<Rightarrow> string \<Rightarrow> ('prg, 'cas, 'prov, 'idv) move list
   \<Rightarrow> ('cas, 'prov, 'idv, 'prg, 'key, 'cert) process \<Rightarrow> ('cas, 'prov, 'idv, 'prg, 'key, 'cert) process option" where
  "moves cel ext jwt recovers errText malformed path [] p = Some p"
| "moves cel ext jwt recovers errText malformed path (m # ms) p =
     Option.bind (move_step cel ext jwt recovers errText malformed path m p) (moves cel ext jwt recovers errText malformed path ms)"

fun move_in :: "('cas, 'prov, 'idv) oidc_api set \<Rightarrow> ('prg, 'cas, 'prov, 'idv) move \<Rightarrow> bool" where
  "move_in apis (Arrive req env oidc) = (oidc \<in> apis)"
| "move_in apis (Watch out b) = (out_oidc out \<in> apis)"
| "move_in apis _ = True"

lemma move_step_process:
  assumes "move_step cel ext jwt recovers errText malformed path m p = Some p'" and "move_in apis m"
  shows "process_step cel ext jwt recovers errText malformed path apis p p'"
proof -
  have x: "p_exit p = None" using assms(1) by (auto simp: move_step_def split: if_splits)
  show ?thesis
  proof (cases m)
    case (Arrive req env oidc)
    then show ?thesis using assms x process_step.arrives [OF x] by (auto simp: move_step_def)
  next
    case (Call i)
    then have i: "i < length (p_calls p)" "\<not> call_over (c_pc (p_calls p ! i))" and p': "p' = call_at cel jwt recovers i p"
      using assms(1) x by (auto simp: move_step_def split: if_splits)
    obtain c' a' where s: "call_step cel jwt (length (p_history p)) (p_calls p ! i) (p_auth p) = (c', a')" by fastforce
    have "p_calls p = take i (p_calls p) @ p_calls p ! i # drop (Suc i) (p_calls p)" by (rule id_take_nth_drop [OF i(1)])
    from process_step.lives [OF live_step.calls [OF x this i(2) s]] show ?thesis
      using i(1) by (simp add: p' call_at_def s upd_conv_take_nth_drop)
  next
    case (Watch out b)
    then show ?thesis using assms x by (auto simp: move_step_def intro!: process_step.lives live_step.watches)
  next
    case Main
    then show ?thesis using assms x by (auto simp: move_step_def intro!: process_step.lives live_step.mains)
  next
    case StartServe
    then show ?thesis using assms x
      by (auto simp: move_step_def split: exporter.splits intro!: process_step.lives live_step.serve_starts)
  next
    case Hangup
    then show ?thesis using assms x by (auto simp: move_step_def intro!: process_step.hangs_up)
  next
    case Terminate
    then show ?thesis using assms x by (auto simp: move_step_def intro!: process_step.terminates)
  qed
qed

lemma moves_process:
  "moves cel ext jwt recovers errText malformed path ms p = Some p' \<Longrightarrow> list_all (move_in apis) ms \<Longrightarrow>
     (process_step cel ext jwt recovers errText malformed path apis)\<^sup>*\<^sup>* p p'"
proof (induction ms arbitrary: p)
  case (Cons m ms)
  then obtain q where q: "move_step cel ext jwt recovers errText malformed path m p = Some q"
    "moves cel ext jwt recovers errText malformed path ms q = Some p'" by (auto simp: bind_eq_Some_conv)
  then have "process_step cel ext jwt recovers errText malformed path apis p q" using Cons.prems(2) move_step_process by auto
  with Cons q(2) show ?case by (auto intro: converse_rtranclp_into_rtranclp)
qed simp

text \<open>A service that grants an AWS account, and a reload that takes the grant away, while a request runs.\<close>

definition aws_outside :: "(string, unit, string, string) outside" where
  "aws_outside = sample_outside\<lparr>out_io := sample_io [aws_rule] []\<rparr>"

definition aws_service :: "(string, string, string) service" where
  "aws_service = projr (snd (run sample_cel (\<lambda>_. None) sample_service_api aws_outside ''config.yaml''))"

definition aws_process :: "(unit, string, string, string, string, string) process" where
  "aws_process = start_process (fst (run sample_cel (\<lambda>_. None) sample_service_api aws_outside ''config.yaml'')) aws_service"

lemma aws_runs:
  "\<exists>acts. run sample_cel (\<lambda>_. None) sample_service_api aws_outside ''config.yaml'' = (acts, Inr aws_service)
     \<and> aws_process = start_process acts aws_service"
proof -
  have "\<not> isl (snd (run sample_cel (\<lambda>_. None) sample_service_api aws_outside ''config.yaml''))" by code_simp
  then show ?thesis unfolding aws_service_def aws_process_def
    by (cases "run sample_cel (\<lambda>_. None) sample_service_api aws_outside ''config.yaml''")
      (metis fst_conv snd_conv sum.collapse(2))
qed

abbreviation sample_moves ::
  "(string, unit, string, string) move list \<Rightarrow> (unit, string, string, string, string, string) process option" where
  "sample_moves ms \<equiv> moves sample_cel (\<lambda>_. None) sample_jwt False (\<lambda>_. []) (\<lambda>_. False) ''config.yaml'' ms aws_process"

definition reload_moves :: "(string, unit, string, string) move list" where
  "reload_moves = Watch sample_outside False # Arrive sample_request sample_env sample_oidc # Call 0 # Hangup
     # replicate 7 (Watch sample_outside False) @ replicate 7 (Call 0)"

lemma all_replicate: "P x \<Longrightarrow> list_all P (replicate n x)"
  by (induction n) simp_all

lemma reload_moves_in: "list_all (move_in {sample_oidc}) reload_moves"
  by (simp add: reload_moves_def sample_outside_def all_replicate)

lemma reload_run:
  "\<exists>p c. (process_step sample_cel (\<lambda>_. None) sample_jwt False (\<lambda>_. []) (\<lambda>_. False) ''config.yaml'' {sample_oidc})\<^sup>*\<^sup>* aws_process p
     \<and> p_calls p = [c] \<and> c_pc c = Q_done (Issued ''SAsAPP'') \<and> c_began c = 1 \<and> c_loaded c = 1 \<and> c_answered c = 2
     \<and> length (p_history p) = 2"
proof -
  have "map_option (\<lambda>p. (map (\<lambda>c. (c_pc c, c_began c, c_loaded c, c_answered c)) (p_calls p), length (p_history p)))
      (sample_moves reload_moves) = Some ([(Q_done (Issued ''SAsAPP''), 1, 1, 2)], 2)"
    by code_simp
  then obtain p where p: "sample_moves reload_moves = Some p" "length (p_history p) = 2"
    "map (\<lambda>c. (c_pc c, c_began c, c_loaded c, c_answered c)) (p_calls p) = [(Q_done (Issued ''SAsAPP''), 1, 1, 2)]"
    by auto
  then obtain c where "p_calls p = [c]" "c_pc c = Q_done (Issued ''SAsAPP'')" "c_began c = 1" "c_loaded c = 1" "c_answered c = 2"
    by auto
  with p(2) moves_process [OF p(1) reload_moves_in] show ?thesis by blast
qed

section \<open>Answers\<close>

text \<open>A grant of a policy whose rules are validated and compiled.\<close>

lemma compiled_grant:
  assumes "\<forall>r \<in> set (Rules p). rule_valid cel ext r \<and> compiled cel ext r = r"
    and "policy_Evaluate cel clock p d = Inr x"
  shows "\<exists>i < length (Rules p). \<exists>re. x = decision_of i (Rules p ! i)
    \<and> (let r = Rules p ! i; m = Rule_Match r in
         Match_Issuer m \<in> {[], Issuer d}
         \<and> compileSub ext (Match_Sub m) = Inr re \<and> subMatches re (Subject d)
         \<and> (\<forall>(k, want) \<in> set (Match_Claims m). Claim d k = Some want)
         \<and> (Match_Expr m \<noteq> [] \<longrightarrow>
              (\<exists>env prg. newCELEnv cel = Inr env \<and> compileCELProgram cel env (Match_Expr m) = Inr prg
                 \<and> prg_Eval cel prg (activation_of d (clock i)) = Inr (CelBool True)))
         \<and> (hasStrongPin r \<or> Match_AllowBroad m))"
proof -
  obtain i where i: "i < length (Rules p)" "x = decision_of i (Rules p ! i)"
    "rule_matches cel (clock i) (Rules p ! i) d"
    using assms(2) by (auto simp: policy_Evaluate_Inr)
  let ?r = "Rules p ! i" and ?m = "Rule_Match (Rules p ! i)"
  have v: "rule_valid cel ext ?r" "compiled cel ext ?r = ?r" using assms(1) i(1) by simp_all
  obtain re where re: "compileSub ext (Match_Sub ?m) = Inr re"
    using v(1) by (cases "compileSub ext (Match_Sub ?m)") (auto simp: rule_valid_def)
  have m: "matcher ?r = re" using arg_cong [OF v(2), of matcher] re by (simp add: compiled_def)
  have e: "\<exists>env prg. newCELEnv cel = Inr env \<and> compileCELProgram cel env (Match_Expr ?m) = Inr prg \<and> celProgram ?r = Some prg"
    if x: "Match_Expr ?m \<noteq> []"
  proof -
    obtain env where env: "newCELEnv cel = Inr env" using v(1) x by (cases "newCELEnv cel") (auto simp: rule_valid_def)
    obtain prg where "compileCELProgram cel env (Match_Expr ?m) = Inr prg"
      using v(1) x env by (cases "compileCELProgram cel env (Match_Expr ?m)") (auto simp: rule_valid_def)
    then show ?thesis using arg_cong [OF v(2), of celProgram] x env by (simp add: compiled_def)
  qed
  show ?thesis
    by (rule exI [of _ i], rule conjI [OF i(1)], rule exI [of _ re])
      (use i(2,3) v(1) re m e in \<open>auto simp: Let_def rule_matches_iff rule_valid_def\<close>)
qed

lemma reachable_ok:
  assumes "run cel ext api out path = (acts, Inr s)" and "out_oidc out \<in> apis"
    and "(process_step cel ext jwt recovers errText malformed path apis)\<^sup>*\<^sup>* (start_process acts s) p"
  shows "process_ok cel ext jwt path apis (signKey (svc_auth s)) p"
proof (rule process.reachable_inv [OF _ assms(3)])
  show "process_initial cel ext path apis (signKey (svc_auth s)) (start_process acts s)"
    unfolding process_initial_def using assms(1,2) by blast
qed

lemma answered_call:
  assumes "process_ok cel ext jwt path apis key p" and "c \<in> set (p_calls p)" and "c_pc c = Q_done ans"
  shows "0 < c_began c \<and> c_began c \<le> c_loaded c \<and> c_loaded c \<le> c_answered c \<and> c_answered c \<le> length (p_history p)
    \<and> c_oidc c \<in> apis
    \<and> ans = answer_under (c_oidc c) cel jwt (c_env c) (c_req c) key (snd (p_history p ! (c_loaded c - 1)))"
proof -
  have k: "call_ok cel jwt key apis (map snd (p_history p)) c" using assms(1,2) unfolding process_ok_def by blast
  then have "0 < c_loaded c" using assms(3) by (auto simp: call_ok_def)
  with k show ?thesis using assms(3) by (auto simp: call_ok_def)
qed

text \<open>
  C4. Every answer is that of a ruleset in force while the request ran. In every interleaving of requests,
  reloads, log lines, counters, the metrics endpoint and the shutdown, step by step: the answer to a
  request is the one a single ruleset gives on its own, and that ruleset was put in force neither after the answer
  nor replaced before the request began. So each call takes effect at one moment within its run.
\<close>

theorem answers_linearized:
  assumes "run cel ext api out path = (acts, Inr s)" and "out_oidc out \<in> apis"
    and "(process_step cel ext jwt recovers errText malformed path apis)\<^sup>*\<^sup>* (start_process acts s) p"
    and "c \<in> set (p_calls p)" and "c_pc c = Q_done ans"
  shows "\<exists>n. 0 < c_began c \<and> c_began c \<le> n \<and> n \<le> c_answered c \<and> c_answered c \<le> length (p_history p)
    \<and> ans = answer_under (c_oidc c) cel jwt (c_env c) (c_req c) (signKey (svc_auth s)) (snd (p_history p ! (n - 1)))"
  using answered_call [OF reachable_ok [OF assms(1-3)] assms(4,5)] by blast

theorem answers_linearized_witness:
  "\<exists>p n. (process_step sample_cel (\<lambda>_. None) sample_jwt False (\<lambda>_. []) (\<lambda>_. False) ''config.yaml'' {sample_oidc})\<^sup>*\<^sup>* aws_process p
     \<and> length (p_history p) = 2 \<and> n \<in> {1, 2}
     \<and> (\<exists>c \<in> set (p_calls p). answer_under (c_oidc c) sample_cel sample_jwt (c_env c) (c_req c) (signKey (svc_auth aws_service))
           (snd (p_history p ! (n - 1))) = Issued ''SAsAPP'')"
proof -
  obtain acts where r: "run sample_cel (\<lambda>_. None) sample_service_api aws_outside ''config.yaml'' = (acts, Inr aws_service)"
    "aws_process = start_process acts aws_service" using aws_runs by blast
  obtain p c where p: "(process_step sample_cel (\<lambda>_. None) sample_jwt False (\<lambda>_. []) (\<lambda>_. False) ''config.yaml'' {sample_oidc})\<^sup>*\<^sup>* aws_process p"
    "p_calls p = [c]" "c_pc c = Q_done (Issued ''SAsAPP'')" "c_began c = 1" "c_answered c = 2" "length (p_history p) = 2"
    using reload_run by blast
  have o: "out_oidc aws_outside \<in> {sample_oidc}" by (simp add: aws_outside_def sample_outside_def)
  have c: "c \<in> set (p_calls p)" using p(2) by simp
  from answers_linearized [OF r(1) o p(1) [unfolded r(2)] c p(3)] obtain n where n: "1 \<le> n" "n \<le> 2"
    "Issued ''SAsAPP'' = answer_under (c_oidc c) sample_cel sample_jwt (c_env c) (c_req c) (signKey (svc_auth aws_service))
        (snd (p_history p ! (n - 1)))"
    using p(4,5) by auto
  then have "n \<in> {1, 2}" by auto
  with n(3) p(1,6) c show ?thesis by metis
qed

text \<open>An answer with a JWT, back to the configuration and the ruleset it was given under.\<close>

lemma issued_call_grant:
  assumes "oidc_family apis issuer_of" and "process_ok cel ext jwt path apis key p"
    and "c \<in> set (p_calls p)" and "c_pc c = Q_done (Issued tok)"
  shows "\<exists>n cfg rs fs oidc cas d iss i re uc.
      0 < n \<and> c_began c \<le> n \<and> n \<le> c_answered c \<and> c_answered c \<le> length (p_history p)
    \<and> p_history p ! (n - 1) = (cfg, rs) \<and> rs_policy rs = cfg_Policy cfg \<and> Load cel ext fs path = Inr cfg
    \<and> oidc \<in> apis \<and> Verifier_New oidc (verifier_options cfg cas) = Inr (rs_verifier rs)
    \<and> Verify (c_oidc c) (visit_order (c_env c)) (rs_verifier rs) (Token (c_req c)) = Inr d
    \<and> iss \<in> set (cfg_Issuers cfg) \<and> Issuer_URL iss = Issuer d
    \<and> (\<forall>(k, want) \<in> set (Issuer_RequireClaims iss). Claim d k = Some want)
    \<and> (\<exists>aud \<in> set (Audience d). aud \<in> set (cfg_Audiences cfg))
    \<and> i < length (Rules (cfg_Policy cfg))
    \<and> (let r = Rules (cfg_Policy cfg) ! i; m = Rule_Match r in
         Match_Issuer m \<in> {[], Issuer d} \<and> compileSub ext (Match_Sub m) = Inr re \<and> subMatches re (Subject d)
         \<and> (\<forall>(k, want) \<in> set (Match_Claims m). Claim d k = Some want)
         \<and> (Match_Expr m \<noteq> [] \<longrightarrow>
              (\<exists>env prg. newCELEnv cel = Inr env \<and> compileCELProgram cel env (Match_Expr m) = Inr prg
                 \<and> prg_Eval cel prg (activation_of d (now_rules (c_env c) i)) = Inr (CelBool True)))
         \<and> (hasStrongPin r \<or> Match_AllowBroad m)
         \<and> NewUserClaims jwt (UserNkey (c_req c)) = Some uc
         \<and> Encode jwt (user_claims d (decision_of i r) (now_cap (c_env c)) uc) key = Inr tok)"
proof -
  note a = answered_call [OF assms(2-4)]
  obtain cfg rs where h: "p_history p ! (c_loaded c - 1) = (cfg, rs)" by fastforce
  have n: "0 < c_loaded c \<and> c_began c \<le> c_loaded c \<and> c_loaded c \<le> c_answered c \<and> c_answered c \<le> length (p_history p)"
    "c_loaded c - 1 < length (p_history p)" using a by linarith+
  have mem: "(cfg, rs) \<in> set (p_history p)" using nth_mem [OF n(2)] h by simp
  have "installable cel ext path apis (cfg, rs)" using assms(2) mem unfolding process_ok_def by blast
  then obtain fs oidc cas where l: "Load cel ext fs path = Inr cfg" and pol: "rs_policy rs = cfg_Policy cfg"
    and v: "oidc \<in> apis" "Verifier_New oidc (verifier_options cfg cas) = Inr (rs_verifier rs)"
    by (auto simp: installable_def loadable_def)
  have ans: "answer_under (c_oidc c) cel jwt (c_env c) (c_req c) key rs = Issued tok" using a h by simp
  obtain d decision uc where d: "Verify (c_oidc c) (visit_order (c_env c)) (rs_verifier rs) (Token (c_req c)) = Inr d"
    and e: "policy_Evaluate cel (now_rules (c_env c)) (cfg_Policy cfg) d = Inr decision"
    and u: "NewUserClaims jwt (UserNkey (c_req c)) = Some uc"
    and j: "Encode jwt (user_claims d decision (now_cap (c_env c)) uc) key = Inr tok"
    using ans by (auto simp: answer_under_cases signed_answer_def pol split: if_splits sum.splits option.splits)
  obtain opt where opt: "opt \<in> set (issuer_options cfg)" "URL opt = Issuer d"
    "\<forall>(k, want) \<in> set (RequireClaims opt). Claim d k = Some want"
    "\<exists>aud \<in> set (Audience d). aud \<in> set (cfg_Audiences cfg)"
    using verified_trusted_family [OF assms(1) v(1) _ v(2) d] a by (auto simp: verifier_options_def)
  then obtain iss where iss: "iss \<in> set (cfg_Issuers cfg)" "Issuer_URL iss = Issuer d" "RequireClaims opt = Issuer_RequireClaims iss"
    by (auto simp: issuer_options_def)
  have "\<forall>r \<in> set (Rules (cfg_Policy cfg)). rule_valid cel ext r \<and> compiled cel ext r = r"
    using Load_config_ok [OF l] by (simp add: config_ok_def)
  from compiled_grant [OF this e] obtain i re where i: "i < length (Rules (cfg_Policy cfg))"
    "decision = decision_of i (Rules (cfg_Policy cfg) ! i)"
    and m: "let r = Rules (cfg_Policy cfg) ! i; m = Rule_Match r in
         Match_Issuer m \<in> {[], Issuer d} \<and> compileSub ext (Match_Sub m) = Inr re \<and> subMatches re (Subject d)
         \<and> (\<forall>(k, want) \<in> set (Match_Claims m). Claim d k = Some want)
         \<and> (Match_Expr m \<noteq> [] \<longrightarrow>
              (\<exists>env prg. newCELEnv cel = Inr env \<and> compileCELProgram cel env (Match_Expr m) = Inr prg
                 \<and> prg_Eval cel prg (activation_of d (now_rules (c_env c) i)) = Inr (CelBool True)))
         \<and> (hasStrongPin r \<or> Match_AllowBroad m)"
    by blast
  show ?thesis
    by (rule exI [of _ "c_loaded c"], rule exI [of _ cfg], rule exI [of _ rs], rule exI [of _ fs], rule exI [of _ oidc],
        rule exI [of _ cas], rule exI [of _ d], rule exI [of _ iss], rule exI [of _ i], rule exI [of _ re], rule exI [of _ uc])
      (use n(1) h pol l v d iss opt(3,4) u j i m in \<open>simp add: Let_def\<close>)
qed

text \<open>
  C2. What the running service grants. Whatever is reloaded when, a JWT is issued only under a configuration that
  was loaded and validated and was in force at a moment of the request, with the verifier made of it: that
  verifier accepts the token of the request, and the identity it finds in the token comes from an issuer of the
  configuration, with the claims required of it and an audience of the configuration. A rule of the policy fits
  that identity, its expression included, and is marked broad or has a strong pin; the JWT carries the
  account and permissions of that rule.
\<close>

theorem running_service_grants:
  assumes "oidc_family apis issuer_of"
    and "run cel ext api out path = (acts, Inr s)" and "out_oidc out \<in> apis"
    and "(process_step cel ext jwt recovers errText malformed path apis)\<^sup>*\<^sup>* (start_process acts s) p"
    and "c \<in> set (p_calls p)" and "c_pc c = Q_done (Issued tok)"
  shows "\<exists>n cfg rs fs oidc cas d iss i re uc.
      0 < n \<and> c_began c \<le> n \<and> n \<le> c_answered c \<and> c_answered c \<le> length (p_history p)
    \<and> p_history p ! (n - 1) = (cfg, rs) \<and> rs_policy rs = cfg_Policy cfg \<and> Load cel ext fs path = Inr cfg
    \<and> oidc \<in> apis \<and> Verifier_New oidc (verifier_options cfg cas) = Inr (rs_verifier rs)
    \<and> Verify (c_oidc c) (visit_order (c_env c)) (rs_verifier rs) (Token (c_req c)) = Inr d
    \<and> iss \<in> set (cfg_Issuers cfg) \<and> Issuer_URL iss = Issuer d
    \<and> (\<forall>(k, want) \<in> set (Issuer_RequireClaims iss). Claim d k = Some want)
    \<and> (\<exists>aud \<in> set (Audience d). aud \<in> set (cfg_Audiences cfg))
    \<and> i < length (Rules (cfg_Policy cfg))
    \<and> (let r = Rules (cfg_Policy cfg) ! i; m = Rule_Match r in
         Match_Issuer m \<in> {[], Issuer d} \<and> compileSub ext (Match_Sub m) = Inr re \<and> subMatches re (Subject d)
         \<and> (\<forall>(k, want) \<in> set (Match_Claims m). Claim d k = Some want)
         \<and> (Match_Expr m \<noteq> [] \<longrightarrow>
              (\<exists>env prg. newCELEnv cel = Inr env \<and> compileCELProgram cel env (Match_Expr m) = Inr prg
                 \<and> prg_Eval cel prg (activation_of d (now_rules (c_env c) i)) = Inr (CelBool True)))
         \<and> (hasStrongPin r \<or> Match_AllowBroad m)
         \<and> NewUserClaims jwt (UserNkey (c_req c)) = Some uc
         \<and> Encode jwt (user_claims d (decision_of i r) (now_cap (c_env c)) uc) (signKey (svc_auth s)) = Inr tok)"
  by (rule issued_call_grant [OF assms(1) reachable_ok [OF assms(2-4)] assms(5,6)])

theorem running_service_grants_witness:
  "\<exists>p c cfg rs d. (process_step sample_cel (\<lambda>_. None) sample_jwt False (\<lambda>_. []) (\<lambda>_. False) ''config.yaml'' {sample_oidc})\<^sup>*\<^sup>* aws_process p
     \<and> p_calls p = [c] \<and> c_pc c = Q_done (Issued ''SAsAPP'') \<and> (cfg, rs) \<in> set (p_history p)
     \<and> Verify (c_oidc c) (visit_order (c_env c)) (rs_verifier rs) (Token (c_req c)) = Inr d
     \<and> Issuer d \<in> Issuer_URL ` set (cfg_Issuers cfg)"
proof -
  obtain acts where r: "run sample_cel (\<lambda>_. None) sample_service_api aws_outside ''config.yaml'' = (acts, Inr aws_service)"
    "aws_process = start_process acts aws_service" using aws_runs by blast
  obtain p c where p: "(process_step sample_cel (\<lambda>_. None) sample_jwt False (\<lambda>_. []) (\<lambda>_. False) ''config.yaml'' {sample_oidc})\<^sup>*\<^sup>* aws_process p"
    "p_calls p = [c]" "c_pc c = Q_done (Issued ''SAsAPP'')"
    using reload_run by blast
  have o: "out_oidc aws_outside \<in> {sample_oidc}" by (simp add: aws_outside_def sample_outside_def)
  have f: "oidc_family {sample_oidc} (\<lambda>prov. prov)" using sample_oidc_contract by (simp add: oidc_family_single)
  have c: "c \<in> set (p_calls p)" using p(2) by simp
  from running_service_grants [OF f r(1) o p(1) [unfolded r(2)] c p(3)] obtain n cfg rs d iss where
    g: "0 < n" "n \<le> c_answered c" "c_answered c \<le> length (p_history p)" "p_history p ! (n - 1) = (cfg, rs)"
    "Verify (c_oidc c) (visit_order (c_env c)) (rs_verifier rs) (Token (c_req c)) = Inr d"
    "iss \<in> set (cfg_Issuers cfg)" "Issuer_URL iss = Issuer d" by blast
  then have "(cfg, rs) \<in> set (p_history p)" using nth_mem [of "n - 1" "p_history p"] by simp
  with p g(5-7) show ?thesis by (metis image_eqI)
qed

end
