(* ===== verification/RunningSignals.thy ===== *)
theory RunningSignals
  imports RunningProps
begin

text \<open>
  The signals of the running service: the steps of \<open>watchReloads\<close> alone are the function of the model,
  no SIGHUP is lost while the service watches, the ways in which the process ends, and that without
  new requests and signals it comes to rest with nothing left undone.
\<close>

section \<open>The goroutine \<open>watchReloads\<close> alone\<close>

definition service_of :: "('cas, 'prov, 'idv, 'prg, 'key, 'cert) process \<Rightarrow> ('idv, 'prg, 'key) service" where
  "service_of p = \<lparr>svc_current = p_current p, svc_auth = p_auth p\<rparr>"

text \<open>At most \<open>n\<close> steps of the goroutine, which stops where it has to wait.\<close>

fun watch_run ::
  "('env, 'ast, 'prg) cel_api \<Rightarrow> (string \<Rightarrow> regex option) \<Rightarrow> (config_error + build_error \<Rightarrow> string) \<Rightarrow> string
   \<Rightarrow> ('prg, 'cas, 'prov, 'idv) outside \<Rightarrow> nat
   \<Rightarrow> ('cas, 'prov, 'idv, 'prg, 'key, 'cert) process \<Rightarrow> ('cas, 'prov, 'idv, 'prg, 'key, 'cert) process" where
  "watch_run cel ext errText path out 0 p = p"
| "watch_run cel ext errText path out (Suc n) p =
     (case watch_step cel ext errText path out False p of
        None \<Rightarrow> p
      | Some p' \<Rightarrow> watch_run cel ext errText path out n p')"

lemma watch_run_rest:
  "p_watch p = N_select \<Longrightarrow> p_hup p = 0 \<Longrightarrow> watch_run cel ext errText path out n p = p"
  by (cases n) (simp_all add: watch_step_def)

lemma watch_run_log:
  "p_watch p = N_log rs rest \<Longrightarrow> length rs < n \<Longrightarrow>
     watch_run cel ext errText path out n p
       = watch_run cel ext errText path out (n - Suc (length rs))
           (p\<lparr>p_auth := (p_auth p)\<lparr>logger := logger (p_auth p) @ rs\<rparr>, p_watch := rest\<rparr>)"
proof (induction rs arbitrary: n p)
  case Nil
  then show ?case by (cases n) (simp_all add: watch_step_def)
next
  case (Cons r rs)
  then obtain m where n: "n = Suc m" "length rs < m" by (cases n) auto
  let ?p = "p\<lparr>p_auth := log_line r (p_auth p), p_watch := N_log rs rest\<rparr>"
  have "watch_step cel ext errText path out False p = Some ?p" using Cons.prems(1) by (simp add: watch_step_def)
  then show ?case using Cons.IH [of ?p m] n by (simp add: log_line_def)
qed

lemma watch_run_line:
  "p_watch p = N_log [l] rest \<Longrightarrow> 1 < n \<Longrightarrow>
     watch_run cel ext errText path out n p
       = watch_run cel ext errText path out (n - 2)
           (p\<lparr>p_auth := (p_auth p)\<lparr>logger := logger (p_auth p) @ [l]\<rparr>, p_watch := rest\<rparr>)"
  by (subst watch_run_log [of p "[l]" rest]) (simp_all add: numeral_2_eq_2)

lemma watch_run_line_rest:
  "p_watch p = N_log [l] N_select \<Longrightarrow> 1 < n \<Longrightarrow> p_hup p = 0 \<Longrightarrow>
     watch_run cel ext errText path out n p
       = p\<lparr>p_auth := (p_auth p)\<lparr>logger := logger (p_auth p) @ [l]\<rparr>, p_watch := N_select\<rparr>"
  by (subst watch_run_line, assumption, assumption, rule watch_run_rest) simp_all

lemma watch_run_step:
  "watch_step cel ext errText path out False p = Some p' \<Longrightarrow> 0 < n \<Longrightarrow>
     watch_run cel ext errText path out n p = watch_run cel ext errText path out (n - 1) p'"
  by (cases n) simp_all

lemma warnings_length: "length (warnUnreloadable a b) \<le> 3"
  by (simp add: warnUnreloadable_def)

text \<open>A signal in the channel, handled to the end.\<close>

lemma watch_run_hup:
  assumes "p_watch p = N_select" and "p_hup p = 1" and "11 < n"
  shows "service_of (watch_run cel ext errText path out n p) = on_hup cel ext errText path out (service_of p)
    \<and> p_watch (watch_run cel ext errText path out n p) = N_select \<and> p_hup (watch_run cel ext errText path out n p) = 0
    \<and> \<not> p_unread (watch_run cel ext errText path out n p)"
proof -
  let ?run = "watch_run cel ext errText path out"
  let ?r = "info ''SIGHUP received; reloading config'' [(''path'', LogString path)]"
  let ?p1 = "p\<lparr>p_hup := 0, p_auth := (p_auth p)\<lparr>logger := logger (p_auth p) @ [?r]\<rparr>, p_watch := N_load\<rparr>"
  have 1: "?run n p = ?run (n - 3) ?p1"
  proof -
    let ?q = "p\<lparr>p_hup := 0, p_watch := N_log [?r] N_load\<rparr>"
    have "watch_step cel ext errText path out False p = Some ?q" using assms(1,2) by (simp add: watch_step_def)
    then have "?run n p = ?run (n - 1) ?q" using assms(3) by (simp add: watch_run_step)
    also have "\<dots> = ?run (n - 1 - 2) ?p1" using assms(3) by (subst watch_run_line [of _ ?r N_load]) simp_all
    also have "n - 1 - 2 = n - 3" by simp
    finally show ?thesis .
  qed
  show ?thesis
  proof (cases "Load cel ext (out_io out) path")
    case (Inl e)
    let ?q = "?p1\<lparr>p_unread := False, p_watch := N_log [reload_failed (errText (Inl e))] N_select\<rparr>"
    have "watch_step cel ext errText path out False ?p1 = Some ?q" using Inl by (simp add: watch_step_def)
    then have "?run (n - 3) ?p1 = ?run (n - 4) ?q" using assms(3) by (simp add: watch_run_step)
    also have "\<dots> = ?q\<lparr>p_auth := (p_auth ?q)\<lparr>logger := logger (p_auth ?q) @ [reload_failed (errText (Inl e))]\<rparr>, p_watch := N_select\<rparr>"
      using assms(3) by (intro watch_run_line_rest) simp_all
    finally show ?thesis using Inl
      by (simp add: 1 service_of_def on_hup_def log_to_def Let_def reload_failed_def info_def)
  next
    case (Inr cfg)
    let ?ws = "warnUnreloadable (p_current p) cfg"
    let ?q = "?p1\<lparr>p_unread := False, p_watch := N_log ?ws (N_build cfg)\<rparr>"
    let ?p2 = "?q\<lparr>p_auth := (p_auth ?q)\<lparr>logger := logger (p_auth ?q) @ ?ws\<rparr>, p_watch := N_build cfg\<rparr>"
    obtain m where m: "?run n p = ?run m ?p2" "3 < m"
    proof
      have "watch_step cel ext errText path out False ?p1 = Some ?q" using Inr by (simp add: watch_step_def)
      then have "?run (n - 3) ?p1 = ?run (n - 4) ?q" using assms(3) by (simp add: watch_run_step)
      also have "\<dots> = ?run (n - 4 - Suc (length ?ws)) ?p2"
        using assms(3) warnings_length [of "p_current p" cfg] by (subst watch_run_log) simp_all
      finally show "?run n p = ?run (n - 4 - Suc (length ?ws)) ?p2" using 1 by simp
      show "3 < n - 4 - Suc (length ?ws)"
        using assms(3) warnings_length [of "p_current p" cfg] by simp
    qed
    show ?thesis
    proof (cases "buildVerifier (out_oidc out) (readFile (out_io out)) (out_certs out) cfg")
      case (Inl e)
      let ?p3 = "?p2\<lparr>p_watch := N_log [reload_failed (errText (Inr e))] N_select\<rparr>"
      have "watch_step cel ext errText path out False ?p2 = Some ?p3" using Inl by (simp add: watch_step_def)
      then have "?run m ?p2 = ?run (m - 1) ?p3" using m(2) by (simp add: watch_run_step)
      also have "\<dots> = ?p3\<lparr>p_auth := (p_auth ?p3)\<lparr>logger := logger (p_auth ?p3) @ [reload_failed (errText (Inr e))]\<rparr>, p_watch := N_select\<rparr>"
        using m(2) by (intro watch_run_line_rest) simp_all
      finally show ?thesis using Inl Inr
        by (simp add: m(1) service_of_def on_hup_def log_to_def Let_def reload_failed_def info_def)
    next
      case (Inr v)
      let ?l = "info ''config reloaded'' [(''issuers'', LogNumber (length (cfg_Issuers cfg))),
                   (''policy_rules'', LogNumber (length (Rules (cfg_Policy cfg))))]"
      let ?p3 = "?p2\<lparr>p_watch := N_install cfg v\<rparr>"
      let ?p4 = "?p3\<lparr>p_auth := Reload v (cfg_Policy cfg) (p_auth ?p3), p_current := cfg,
                  p_history := p_history ?p3 @ [(cfg, \<lparr>rs_verifier = v, rs_policy = cfg_Policy cfg\<rparr>)],
                  p_watch := N_log [?l] N_select\<rparr>"
      have "watch_step cel ext errText path out False ?p2 = Some ?p3" using Inr by (simp add: watch_step_def)
      then have "?run m ?p2 = ?run (m - 1) ?p3" using m(2) by (simp add: watch_run_step)
      also have "\<dots> = ?run (m - 2) ?p4"
        using m(2) by (subst watch_run_step [of _ _ _ _ _ _ ?p4]) (simp_all add: watch_step_def numeral_2_eq_2)
      also have "\<dots> = ?p4\<lparr>p_auth := (p_auth ?p4)\<lparr>logger := logger (p_auth ?p4) @ [?l]\<rparr>, p_watch := N_select\<rparr>"
        using m(2) by (intro watch_run_line_rest) simp_all
      finally show ?thesis using Inr \<open>Load cel ext (out_io out) path = Inr cfg\<close>
        by (simp add: m(1) service_of_def on_hup_def log_to_def Let_def info_def Reload_def)
    qed
  qed
qed

lemma service_of_sighup: "service_of (sighup p) = service_of p"
  by (simp add: service_of_def sighup_def)

text \<open>
  C19. The goroutine that watches for SIGHUP is the function \<open>watchReloads\<close>. For any sequence of signals, each
  delivered where the goroutine waits: its steps, line by line of the log, bring the configuration, the ruleset,
  the log and the metrics to exactly what the function gives for the sequence, and the goroutine waits again,
  with the channel empty.
\<close>

theorem watch_steps_equiv:
  assumes "p_watch p = N_select" and "p_hup p = 0" and "11 < n"
  shows "let p' = fold (\<lambda>out q. watch_run cel ext errText path out n (sighup q)) outs p in
    service_of p' = watchReloads cel ext errText path outs (service_of p) \<and> p_watch p' = N_select \<and> p_hup p' = 0"
  using assms(1,2)
proof (induction outs arbitrary: p)
  case (Cons out outs)
  have "p_watch (sighup p) = N_select" "p_hup (sighup p) = 1" using Cons.prems by (simp_all add: sighup_def)
  from watch_run_hup [OF this assms(3), of cel ext errText path out]
    Cons.IH [of "watch_run cel ext errText path out n (sighup p)"] show ?case
    by (simp add: Let_def watchReloads_def service_of_sighup)
qed (simp add: watchReloads_def)

section \<open>Signals\<close>

text \<open>The goroutine has taken a signal and is about to read the configuration.\<close>

fun before_load :: "('idv, 'prg) watcher \<Rightarrow> bool" where
  "before_load N_load = True"
| "before_load (N_log rs next) = before_load next"
| "before_load _ = False"

text \<open>After its log lines the goroutine goes on, and does not return.\<close>

fun goes_on :: "('idv, 'prg) watcher \<Rightarrow> bool" where
  "goes_on (N_log rs next) = (next \<noteq> N_start \<and> next \<noteq> N_returned \<and> goes_on next)"
| "goes_on _ = True"

definition main_actions :: "main_pc \<Rightarrow> ('key, 'cert, 'cas) action list" where
  "main_actions m = (if m \<in> {M_started, M_wait, M_down, M_stop} then [] else if m = M_close then [StopService]
     else [StopService, CloseConn])"

text \<open>
  A call panics only where the JWT library has no claims for the user key; while the process runs, only if
  the panic is recovered from.
\<close>

fun panics_ok :: "('rest, 'key) jwt_api \<Rightarrow> string \<Rightarrow> ('idv, 'prg) request_pc \<Rightarrow> bool" where
  "panics_ok jwt nkey (Q_log r ev ans) = (ans \<noteq> Panicked)"
| "panics_ok jwt nkey (Q_record ops ans) = (ans \<noteq> Panicked)"
| "panics_ok jwt nkey (Q_done ans) = (ans = Panicked \<longrightarrow> NewUserClaims jwt nkey = None)"
| "panics_ok jwt nkey _ = True"

definition calls_ok :: "('rest, 'key) jwt_api \<Rightarrow> bool \<Rightarrow> ('cas, 'prov, 'idv, 'prg, 'key, 'cert) process \<Rightarrow> bool" where
  "calls_ok jwt recovers p \<longleftrightarrow>
     (\<forall>c \<in> set (p_calls p). panics_ok jwt (UserNkey (c_req c)) (c_pc c)
        \<and> (c_pc c = Q_done Panicked \<and> p_exit p = None \<longrightarrow> recovers))"

lemma panics_ok_step:
  assumes "request_step oidc cel jwt env req (pc, a) = (pc', a')" and "panics_ok jwt (UserNkey req) pc"
  shows "panics_ok jwt (UserNkey req) pc'"
proof (cases pc)
  case (Q_record ops ans)
  then show ?thesis using assms by (cases ops) auto
qed (use assms in \<open>auto simp: rejected_def split: sum.splits option.splits if_splits\<close>)

lemma panics_ok_call:
  assumes "call_step cel jwt n c a = (c', a')" and "panics_ok jwt (UserNkey (c_req c)) (c_pc c)"
  shows "panics_ok jwt (UserNkey (c_req c')) (c_pc c')"
proof -
  obtain pc' where "request_step (c_oidc c) cel jwt (c_env c) (c_req c) (c_pc c, a) = (pc', a')"
    "c_pc c' = pc'" "c_req c' = c_req c"
    using assms(1) by (auto simp: call_step_def split: prod.splits)
  then show ?thesis using panics_ok_step assms(2) by metis
qed

definition signals_ok :: "('cas, 'prov, 'idv, 'prg, 'key, 'cert) process \<Rightarrow> bool" where
  "signals_ok p \<longleftrightarrow>
     p_hup p \<le> 1 \<and> goes_on (p_watch p)
     \<and> (p_unread p \<longrightarrow> p_hup p = 1 \<or> before_load (p_watch p) \<or> p_watch p = N_returned)
     \<and> (p_watch p = N_start \<longrightarrow> p_hup p = 0 \<and> \<not> p_unread p)
     \<and> (p_watch p = N_returned \<longrightarrow> p_ctx p)"

text \<open>How far the shutdown is, and how the process has ended, if it has.\<close>

definition end_ok ::
  "bool \<Rightarrow> (string \<Rightarrow> bool) \<Rightarrow> ('key, 'cert, 'cas) action list \<Rightarrow> 'prg Config
   \<Rightarrow> ('cas, 'prov, 'idv, 'prg, 'key, 'cert) process \<Rightarrow> bool" where
  "end_ok recovers malformed acts cfg p \<longleftrightarrow>
     (p_main p \<notin> {M_started, M_wait} \<longrightarrow> p_ctx p)
     \<and> p_actions p = acts @ main_actions (p_main p)
     \<and> (\<forall>q. p_exporter p = E_start q \<longrightarrow> Metrics_Enabled (cfg_Metrics cfg) \<and> q = Metrics_Path (cfg_Metrics cfg))
     \<and> (case p_exit p of
          None \<Rightarrow> True
        | Some Crashed \<Rightarrow>
            Metrics_Enabled (cfg_Metrics cfg) \<and> Serve malformed (Metrics_Path (cfg_Metrics cfg)) = None
            \<or> \<not> recovers \<and> (\<exists>c \<in> set (p_calls p). c_pc c = Q_done Panicked)
        | Some Signalled \<Rightarrow> p_watch p = N_start \<or> p_ctx p
        | Some (Exited n) \<Rightarrow> n = 0 \<and> p_main p = M_return)"

lemma signals_ok_watch:
  assumes "watch_step cel ext errText path out b p = Some p'" and "signals_ok p"
  shows "signals_ok p'"
proof (cases "p_watch p")
  case (N_log rs rest)
  then show ?thesis using assms by (cases rs) (auto simp: watch_step_def signals_ok_def)
qed (use assms in \<open>auto simp: watch_step_def signals_ok_def split: if_splits sum.splits\<close>)

lemma end_ok_watch:
  assumes "watch_step cel ext errText path out b p = Some p'" and "p_exit p = None" and "end_ok recovers malformed acts cfg p"
  shows "end_ok recovers malformed acts cfg p' \<and> p_exit p' = None"
proof (cases "p_watch p")
  case (N_log rs rest)
  then show ?thesis using assms by (cases rs) (auto simp: watch_step_def end_ok_def)
qed (use assms in \<open>auto simp: watch_step_def end_ok_def split: if_splits sum.splits\<close>)

lemma main_step_signals:
  "main_step p = Some p' \<Longrightarrow> p_hup p' = p_hup p \<and> p_watch p' = p_watch p \<and> p_unread p' = p_unread p \<and> (p_ctx p \<longrightarrow> p_ctx p')"
  by (auto simp: main_step_def split: main_pc.splits if_splits)

lemma signals_ok_main: "main_step p = Some p' \<Longrightarrow> signals_ok p \<Longrightarrow> signals_ok p'"
  by (drule main_step_signals) (simp add: signals_ok_def)

lemma end_ok_main: "p_exit p = None \<Longrightarrow> end_ok recovers malformed acts cfg p \<Longrightarrow> pred_option (end_ok recovers malformed acts cfg) (main_step p)"
  by (cases "p_main p") (simp_all add: main_step_def end_ok_def main_actions_def)

lemma ends_call:
  assumes "p_exit p = None" and "signals_ok p" and "end_ok recovers malformed acts cfg p"
  shows "signals_ok (p\<lparr>p_auth := a', p_calls := before @ c' # after, p_exit := panic_exit recovers (c_pc c')\<rparr>)
    \<and> end_ok recovers malformed acts cfg (p\<lparr>p_auth := a', p_calls := before @ c' # after, p_exit := panic_exit recovers (c_pc c')\<rparr>)"
proof (cases "panic_exit recovers (c_pc c')")
  case (Some x)
  then have "c_pc c' = Q_done Panicked" "\<not> recovers" "x = Crashed" by (simp_all add: panic_exit_Some)
  then show ?thesis using assms by (simp add: signals_ok_def end_ok_def)
qed (use assms in \<open>simp add: signals_ok_def end_ok_def\<close>)

lemma ends_live:
  assumes "live_step cel ext jwt recovers errText malformed path apis p p'" and "signals_ok p" and "end_ok recovers malformed acts cfg p"
  shows "signals_ok p' \<and> end_ok recovers malformed acts cfg p'"
  using assms(1)
proof cases
  case calls
  show ?thesis unfolding calls(1) by (rule ends_call [OF calls(2) assms(2,3)])
next
  case (watches out b)
  show ?thesis using signals_ok_watch [OF watches(3) assms(2)] end_ok_watch [OF watches(3,1) assms(3)] by simp
next
  case mains
  show ?thesis using signals_ok_main [OF mains(2) assms(2)] end_ok_main [OF mains(1) assms(3)] mains(2) by simp
qed (use assms(2,3) in \<open>auto simp: signals_ok_def end_ok_def serve_start_def serve_end_def split: option.splits\<close>)

lemma ends_step:
  assumes "process_step cel ext jwt recovers errText malformed path apis p p'" and "signals_ok p" and "end_ok recovers malformed acts cfg p"
  shows "signals_ok p' \<and> end_ok recovers malformed acts cfg p'"
  using assms(1)
proof cases
  case lives
  show ?thesis by (rule ends_live [OF lives assms(2,3)])
qed (use assms(2,3) in \<open>auto simp: signals_ok_def end_ok_def sighup_def sigterm_def\<close>)

lemma ends_start: "signals_ok (start_process acts s) \<and> end_ok recovers malformed acts (svc_current s) (start_process acts s)"
  by (simp add: signals_ok_def end_ok_def start_process_def main_actions_def)

interpretation signals: invariant_system "\<lambda>p. \<exists>s. p = start_process acts s \<and> svc_current s = cfg"
  "process_step cel ext jwt recovers errText malformed path apis" "\<lambda>p. signals_ok p \<and> end_ok recovers malformed acts cfg p"
  by unfold_locales (use ends_start in blast, use ends_step in blast)

lemma watch_step_calls:
  "watch_step cel ext errText path out b p = Some p' \<Longrightarrow> p_calls p' = p_calls p \<and> p_exit p' = p_exit p"
  by (auto simp: watch_step_def split: watcher.splits list.splits sum.splits if_splits)

lemma main_step_calls: "main_step p = Some p' \<Longrightarrow> p_calls p' = p_calls p \<and> (p_exit p' = None \<longrightarrow> p_exit p = None)"
  by (auto simp: main_step_def split: main_pc.splits if_splits)

lemma calls_ok_same:
  "p_calls p' = p_calls p \<and> (p_exit p' = None \<longrightarrow> p_exit p = None) \<Longrightarrow> calls_ok jwt recovers p \<Longrightarrow> calls_ok jwt recovers p'"
  by (auto simp: calls_ok_def)

lemma calls_ok_live:
  assumes "live_step cel ext jwt recovers errText malformed path apis p p'" and "calls_ok jwt recovers p"
  shows "calls_ok jwt recovers p'"
  using assms(1)
proof cases
  case (calls before c after c' a')
  then show ?thesis using assms(2) panics_ok_call [OF calls(5)]
    by (auto simp: calls_ok_def panic_exit_None)
next
  case (watches out b)
  show ?thesis using watch_step_calls [OF watches(3)] assms(2) by (intro calls_ok_same [of p' p]) simp_all
next
  case mains
  show ?thesis by (rule calls_ok_same [OF main_step_calls [OF mains(2)] assms(2)])
qed (use assms(2) in \<open>auto simp: calls_ok_def serve_start_def serve_end_def split: option.splits\<close>)

lemma calls_ok_step:
  assumes "process_step cel ext jwt recovers errText malformed path apis p p'" and "calls_ok jwt recovers p"
  shows "calls_ok jwt recovers p'"
  using assms(1)
proof cases
  case lives
  show ?thesis by (rule calls_ok_live [OF lives assms(2)])
qed (use assms(2) in \<open>auto simp: calls_ok_def new_call_def sighup_def sigterm_def\<close>)

interpretation panics: invariant_system "\<lambda>p. p_calls p = []" "process_step cel ext jwt recovers errText malformed path apis"
  "calls_ok jwt recovers"
  by unfold_locales (simp add: calls_ok_def, fact calls_ok_step)

section \<open>The way to rest\<close>

fun request_rank :: "('idv, 'prg) request_pc \<Rightarrow> nat" where
  "request_rank Q_load = 9"
| "request_rank (Q_verify st) = 8"
| "request_rank (Q_evaluate st d) = 7"
| "request_rank (Q_sign d decision) = 6"
| "request_rank (Q_log r ev ans) = 5"
| "request_rank (Q_record ops ans) = Suc (length ops)"
| "request_rank (Q_done ans) = 0"

fun watch_rank :: "('idv, 'prg) watcher \<Rightarrow> nat" where
  "watch_rank N_start = 2"
| "watch_rank N_select = 1"
| "watch_rank (N_log rs next) = Suc (length rs) + watch_rank next"
| "watch_rank N_load = 10"
| "watch_rank (N_build cfg) = 5"
| "watch_rank (N_install cfg v) = 4"
| "watch_rank N_returned = 0"

fun main_rank :: "main_pc \<Rightarrow> nat" where
  "main_rank M_started = 6"
| "main_rank M_wait = 5"
| "main_rank M_down = 4"
| "main_rank M_stop = 3"
| "main_rank M_close = 2"
| "main_rank M_cancel = 1"
| "main_rank M_return = 0"

definition serve_rank :: "serve_state \<Rightarrow> nat" where
  "serve_rank sv = (case srv sv of Accepting \<Rightarrow> 2 | Sending e \<Rightarrow> 1 | Stopped \<Rightarrow> 0)
     + (if ctx_done sv then 0 else 1) + (if serve_result sv = None then 1 else 0)"

fun exporter_rank :: "exporter \<Rightarrow> nat" where
  "exporter_rank E_off = 0"
| "exporter_rank (E_start path) = 6"
| "exporter_rank (E_serving sv) = Suc (serve_rank sv)"
| "exporter_rank (E_ended sv) = 0"

definition process_rank :: "('cas, 'prov, 'idv, 'prg, 'key, 'cert) process \<Rightarrow> nat" where
  "process_rank p =
     sum_list (map (request_rank \<circ> c_pc) (p_calls p)) + (12 * p_hup p + watch_rank (p_watch p)) + main_rank (p_main p)
     + exporter_rank (p_exporter p) + (if p_exit p = None then 1 else 0)"

lemma request_step_rank:
  assumes "request_step oidc cel jwt env req (pc, a) = (pc', a')" and "\<not> call_over pc"
  shows "request_rank pc' < request_rank pc"
proof (cases pc)
  case (Q_record ops ans)
  then show ?thesis using assms by (cases ops) auto
next
  case (Q_log r ev ans)
  then show ?thesis using assms by (auto simp: metric_ops_def split: option.splits event.splits if_splits)
qed (use assms in \<open>auto simp: rejected_def split: sum.splits option.splits if_splits\<close>)

lemma watch_step_rank:
  assumes "watch_step cel ext errText path out b p = Some p'"
  shows "12 * p_hup p' + watch_rank (p_watch p') < 12 * p_hup p + watch_rank (p_watch p)
    \<and> p_calls p' = p_calls p \<and> p_main p' = p_main p \<and> p_exporter p' = p_exporter p \<and> p_exit p' = p_exit p"
proof (cases "p_watch p")
  case (N_log rs rest)
  then show ?thesis using assms by (cases rs) (auto simp: watch_step_def)
next
  case N_select
  then show ?thesis using assms by (cases "p_hup p") (auto simp: watch_step_def split: if_splits)
next
  case N_load
  have "length (warnUnreloadable (p_current p) cfg) < 4" for cfg
    using warnings_length [of "p_current p" cfg] by simp
  then show ?thesis using assms N_load by (auto simp: watch_step_def split: sum.splits)
qed (use assms in \<open>auto simp: watch_step_def split: sum.splits\<close>)

lemma main_step_rank:
  "main_step p = Some p' \<Longrightarrow> p_exit p = None \<Longrightarrow>
     main_rank (p_main p') + (if p_exit p' = None then 1 else 0) < main_rank (p_main p) + 1
     \<and> p_calls p' = p_calls p \<and> p_watch p' = p_watch p \<and> p_hup p' = p_hup p \<and> p_exporter p' = p_exporter p"
  by (cases "p_main p") (auto simp: main_step_def split: if_splits)

lemma serve_step_rank: "serve_step sv sv' \<Longrightarrow> sv' \<noteq> sv \<Longrightarrow> serve_rank sv' < serve_rank sv"
  by (induction rule: serve_step.induct) (auto simp: serve_rank_def split: srv_phase.split)

lemma Serve_rank: "Serve malformed path = Some sv \<Longrightarrow> serve_rank sv = 4"
  by (auto simp: Serve_def Let_def serve_rank_def split: if_splits)

lemma live_step_rank:
  assumes "live_step cel ext jwt recovers errText malformed path apis p p'"
  shows "process_rank p' < process_rank p"
  using assms
proof cases
  case (calls before c after c' a')
  obtain pc' where "request_step (c_oidc c) cel jwt (c_env c) (c_req c) (c_pc c, p_auth p) = (pc', a')" "c_pc c' = pc'"
    using calls(5) by (auto simp: call_step_def split: prod.splits)
  then have "request_rank (c_pc c') < request_rank (c_pc c)" using request_step_rank calls(4) by blast
  then show ?thesis by (simp add: process_rank_def calls(1,2,3))
next
  case (watches out b)
  from watch_step_rank [OF watches(3)] show ?thesis by (auto simp: process_rank_def)
next
  case mains
  from main_step_rank [OF mains(2,1)] show ?thesis using mains(1) by (auto simp: process_rank_def split: if_splits)
next
  case (serves sv sv')
  from serve_step_rank [OF serves(4,5)] show ?thesis by (simp add: process_rank_def serves(1,2,3))
qed (auto simp: process_rank_def serve_start_def serve_end_def Serve_rank split: option.split)

interpretation process_end: counted_system "live_step cel ext jwt recovers errText malformed path apis" process_rank
  by unfold_locales (rule live_step_rank)

text \<open>Where no step is possible.\<close>

lemma live_rest:
  fixes p :: "('cas, 'prov, 'idv, 'prg, 'key, 'cert) process" and out :: "('prg, 'cas, 'prov, 'idv) outside"
  assumes "\<nexists>p'. live_step cel ext jwt recovers errText malformed path apis p p'" and "p_exit p = None" and "out_oidc out \<in> apis"
    and "signals_ok p"
  shows "(\<forall>c \<in> set (p_calls p). call_over (c_pc c)) \<and> p_main p = M_wait \<and> \<not> p_ctx p \<and> p_watch p = N_select \<and> p_hup p = 0"
proof (intro conjI ballI)
  show "call_over (c_pc c)" if c: "c \<in> set (p_calls p)" for c
  proof (rule ccontr)
    assume n: "\<not> call_over (c_pc c)"
    obtain before after where "p_calls p = before @ c # after" using split_list [OF c] by blast
    moreover obtain c' a' where "call_step cel jwt (length (p_history p)) c (p_auth p) = (c', a')" by fastforce
    ultimately show False using assms(1) live_step.calls [OF assms(2) _ n] by blast
  qed
  have m: "main_step p = None" using assms(1,2) live_step.mains by (cases "main_step p") blast+
  then show main: "p_main p = M_wait" and ctx: "\<not> p_ctx p"
    by (auto simp: main_step_def split: main_pc.splits if_splits)
  have w: "watch_step cel ext errText path out False p = None"
    using assms(1) live_step.watches [OF assms(2,3)] by (cases "watch_step cel ext errText path out False p") blast+
  have "p_watch p \<noteq> N_returned" using assms(4) ctx by (auto simp: signals_ok_def)
  then show "p_watch p = N_select" and "p_hup p = 0"
    using w by (auto simp: watch_step_def split: watcher.splits list.splits if_splits)
qed

lemma live_step_requests: "live_step cel ext jwt recovers errText malformed path apis p p' \<Longrightarrow> map c_req (p_calls p') = map c_req (p_calls p)"
proof (induction rule: live_step.induct)
  case (watches p out b p')
  then show ?case using watch_step_rank by metis
next
  case (mains p p')
  then show ?case using main_step_rank by metis
qed (auto simp: call_step_def serve_start_def serve_end_def split: prod.splits option.splits)

lemma live_steps_requests:
  "(live_step cel ext jwt recovers errText malformed path apis)\<^sup>*\<^sup>* p p' \<Longrightarrow> map c_req (p_calls p') = map c_req (p_calls p)"
  by (induction rule: rtranclp_induct) (simp_all add: live_step_requests)

section \<open>Properties\<close>

lemma main_actions_take: "\<exists>k. main_actions m = take k [StopService, CloseConn] \<and> (0 < k \<longrightarrow> m \<notin> {M_started, M_wait})"
proof (cases m)
  case M_close
  then show ?thesis by (intro exI [of _ 1]) (simp add: main_actions_def)
next
  case M_cancel
  then show ?thesis by (intro exI [of _ 2]) (simp add: main_actions_def)
next
  case M_return
  then show ?thesis by (intro exI [of _ 2]) (simp add: main_actions_def)
qed (auto simp: main_actions_def intro: exI [of _ 0])

lemma reachable_ends:
  "(process_step cel ext jwt recovers errText malformed path apis)\<^sup>*\<^sup>* (start_process acts s) p \<Longrightarrow>
     signals_ok p \<and> end_ok recovers malformed acts (svc_current s) p"
  by (rule signals.reachable_inv) blast

lemma reachable_calls:
  assumes "(process_step cel ext jwt recovers errText malformed path apis)\<^sup>*\<^sup>* (start_process acts s) p"
  shows "calls_ok jwt recovers p"
  using panics.reachable_inv [OF _ assms] by (simp add: start_process_def)

lemma sample_moves_process:
  assumes "sample_moves ms = Some p" and "list_all (move_in {sample_oidc}) ms"
  shows "\<exists>acts. run sample_cel (\<lambda>_. None) sample_service_api aws_outside ''config.yaml'' = (acts, Inr aws_service)
    \<and> (process_step sample_cel (\<lambda>_. None) sample_jwt False (\<lambda>_. []) (\<lambda>_. False) ''config.yaml'' {sample_oidc})\<^sup>*\<^sup>*
         (start_process acts aws_service) p"
  using aws_runs moves_process [OF assms] by metis

lemma aws_process_start:
  "p_watch aws_process = N_start" "p_exit aws_process = None" "p_hup aws_process = 0" "p_ctx aws_process = False"
  "p_main aws_process = M_started" "p_unread aws_process = False" "p_calls aws_process = []"
  by (simp_all add: aws_process_def start_process_def)

text \<open>
  C16. No SIGHUP is lost. While the service watches, whenever a SIGHUP has come in since the configuration was
  last read, the channel still holds a signal or the goroutine has just taken one and has yet to read: so
  the configuration is read once more after the last signal, though the channel holds only one and drops the
  others. Only a shutdown ends this.
\<close>

theorem no_reload_lost:
  assumes "(process_step cel ext jwt recovers errText malformed path apis)\<^sup>*\<^sup>* (start_process acts s) p" and "p_unread p"
  shows "p_hup p \<le> 1 \<and> (p_hup p = 1 \<or> before_load (p_watch p) \<or> p_watch p = N_returned \<and> p_ctx p)"
proof -
  have "signals_ok p" using reachable_ends [OF assms(1)] by simp
  then show ?thesis using assms(2) by (auto simp: signals_ok_def)
qed

text \<open>Two signals, of which the channel keeps one.\<close>

theorem no_reload_lost_witness:
  "\<exists>p. sample_moves [Watch sample_outside False, Hangup, Hangup] = Some p \<and> p_unread p \<and> p_hup p = 1"
proof -
  let ?ms = "[Watch sample_outside False, Hangup, Hangup]"
  obtain p where p: "sample_moves ?ms = Some p" "p_unread p" "p_watch p = N_select"
    by (simp add: move_step_def watch_step_def sighup_def aws_process_start)
  have "list_all (move_in {sample_oidc}) ?ms" by (simp add: sample_outside_def)
  from sample_moves_process [OF p(1) this] obtain acts where
    "(process_step sample_cel (\<lambda>_. None) sample_jwt False (\<lambda>_. []) (\<lambda>_. False) ''config.yaml'' {sample_oidc})\<^sup>*\<^sup>*
         (start_process acts aws_service) p" by blast
  from no_reload_lost [OF this p(2)] show ?thesis using p by simp
qed

text \<open>
  C18. How the process ends. It exits, with code 0, only once its context has ended, and then the callout service
  was stopped before the connection was closed. Else it ends only by a signal, either before
  the goroutine watches for SIGHUP or in the shutdown, or by a panic: that of the metrics endpoint over its path, or
  that of a call of \<open>Authorize\<close> for whose user key the JWT library has no claims, where the callout library
  does not recover from it. While it runs, nothing is stopped or closed before the context has ended.
\<close>

theorem process_ends:
  assumes "(process_step cel ext jwt recovers errText malformed path apis)\<^sup>*\<^sup>* (start_process acts s) p"
  shows "(\<exists>k. p_actions p = acts @ take k [StopService, CloseConn] \<and> (0 < k \<longrightarrow> p_ctx p))
    \<and> (case p_exit p of
         None \<Rightarrow> True
       | Some (Exited n) \<Rightarrow> n = 0 \<and> p_ctx p \<and> p_actions p = acts @ [StopService, CloseConn]
       | Some Signalled \<Rightarrow> p_watch p = N_start \<or> p_ctx p
       | Some Crashed \<Rightarrow>
           Metrics_Enabled (cfg_Metrics (svc_current s)) \<and> Serve malformed (Metrics_Path (cfg_Metrics (svc_current s))) = None
           \<or> \<not> recovers \<and> (\<exists>c \<in> set (p_calls p). c_pc c = Q_done Panicked \<and> NewUserClaims jwt (UserNkey (c_req c)) = None))"
proof -
  have e: "end_ok recovers malformed acts (svc_current s) p"
    using reachable_ends [OF assms] by simp
  have q: "NewUserClaims jwt (UserNkey (c_req c)) = None" if "c \<in> set (p_calls p)" "c_pc c = Q_done Panicked" for c
    using reachable_calls [OF assms] that by (auto simp: calls_ok_def)
  obtain k where "acts @ main_actions (p_main p) = acts @ take k [StopService, CloseConn]" "0 < k \<longrightarrow> p_main p \<notin> {M_started, M_wait}"
    using main_actions_take by blast
  moreover have a: "p_actions p = acts @ main_actions (p_main p)" "p_main p \<notin> {M_started, M_wait} \<longrightarrow> p_ctx p"
    using e unfolding end_ok_def by blast+
  ultimately have "\<exists>k. p_actions p = acts @ take k [StopService, CloseConn] \<and> (0 < k \<longrightarrow> p_ctx p)"
    by (intro exI [of _ k]) simp
  moreover have "case p_exit p of
         None \<Rightarrow> True
       | Some (Exited n) \<Rightarrow> n = 0 \<and> p_ctx p \<and> p_actions p = acts @ [StopService, CloseConn]
       | Some Signalled \<Rightarrow> p_watch p = N_start \<or> p_ctx p
       | Some Crashed \<Rightarrow>
           Metrics_Enabled (cfg_Metrics (svc_current s)) \<and> Serve malformed (Metrics_Path (cfg_Metrics (svc_current s))) = None
           \<or> \<not> recovers \<and> (\<exists>c \<in> set (p_calls p). c_pc c = Q_done Panicked \<and> NewUserClaims jwt (UserNkey (c_req c)) = None)"
  proof (cases "p_exit p")
    case (Some x)
    have "case Some x of None \<Rightarrow> True
           | Some Crashed \<Rightarrow> Metrics_Enabled (cfg_Metrics (svc_current s)) \<and> Serve malformed (Metrics_Path (cfg_Metrics (svc_current s))) = None
               \<or> \<not> recovers \<and> (\<exists>c \<in> set (p_calls p). c_pc c = Q_done Panicked)
           | Some Signalled \<Rightarrow> p_watch p = N_start \<or> p_ctx p | Some (Exited n) \<Rightarrow> n = 0 \<and> p_main p = M_return"
      using e Some unfolding end_ok_def by simp
    then show ?thesis using Some a q by (cases x) (auto simp: main_actions_def)
  qed simp
  ultimately show ?thesis ..
qed

definition shutdown_moves :: "('prg, 'cas, 'prov, 'idv) move list" where
  "shutdown_moves = Main # Terminate # replicate 6 Main"

theorem process_ends_witness:
  "\<exists>p. sample_moves shutdown_moves = Some p \<and> p_exit p = Some (Exited 0) \<and> p_ctx p
     \<and> p_actions p \<noteq> [] \<and> last (p_actions p) = CloseConn"
proof -
  obtain p where p: "sample_moves shutdown_moves = Some p" "p_exit p = Some (Exited 0)"
    by (simp add: shutdown_moves_def numeral_eq_Suc move_step_def main_step_def sigterm_def aws_process_start)
  have "list_all (move_in {sample_oidc}) shutdown_moves" by (simp add: shutdown_moves_def all_replicate)
  from sample_moves_process [OF p(1) this] obtain acts where
    "(process_step sample_cel (\<lambda>_. None) sample_jwt False (\<lambda>_. []) (\<lambda>_. False) ''config.yaml'' {sample_oidc})\<^sup>*\<^sup>*
         (start_process acts aws_service) p" by blast
  from process_ends [OF this] show ?thesis using p by simp
qed

text \<open>
  C15. The service comes to rest with nothing left undone. From every reachable state, once no requests and signals
  come in: it cannot run for ever, in whatever order its goroutines take their steps and whatever the
  files and the providers say; and where it stops, the process has ended, or every request that had come
  in has its answer, no signal is left, the configuration was read after the last of them, and both goroutines
  wait. If the context has ended, the process has ended too. A request stays without an answer, in a process that
  goes on, only where the JWT library has no claims for its user key and the callout library recovers from the panic.
\<close>

theorem service_comes_to_rest:
  fixes p :: "('cas, 'prov, 'idv, 'prg, 'key, 'cert) process" and out :: "('prg, 'cas, 'prov, 'idv) outside"
  assumes "out_oidc out \<in> apis"
    and "(process_step cel ext jwt recovers errText malformed path apis)\<^sup>*\<^sup>* (start_process acts s) p"
  shows "(\<nexists>f. f 0 = p \<and> (\<forall>n. live_step cel ext jwt recovers errText malformed path apis (f n) (f (Suc n))))
    \<and> (\<forall>p' n. (live_step cel ext jwt recovers errText malformed path apis ^^ n) p p' \<longrightarrow> n \<le> process_rank p)
    \<and> (\<forall>p'. (live_step cel ext jwt recovers errText malformed path apis)\<^sup>*\<^sup>* p p'
           \<and> (\<nexists>p''. live_step cel ext jwt recovers errText malformed path apis p' p'') \<longrightarrow>
         p_exit p' \<noteq> None \<or>
         (\<forall>c \<in> set (p_calls p'). \<exists>ans. c_pc c = Q_done ans
            \<and> (ans = Panicked \<longrightarrow> recovers \<and> NewUserClaims jwt (UserNkey (c_req c)) = None))
         \<and> map c_req (p_calls p') = map c_req (p_calls p)
         \<and> p_watch p' = N_select \<and> p_hup p' = 0 \<and> \<not> p_unread p' \<and> p_main p' = M_wait \<and> \<not> p_ctx p')"
proof (intro conjI allI impI)
  show "\<nexists>f. f 0 = p \<and> (\<forall>n. live_step cel ext jwt recovers errText malformed path apis (f n) (f (Suc n)))"
    using process_end.no_infinite_run by blast
  show "n \<le> process_rank p" if "(live_step cel ext jwt recovers errText malformed path apis ^^ n) p p'" for p' n
    using process_end.steps_bounded [OF that] by simp
  fix p' assume r: "(live_step cel ext jwt recovers errText malformed path apis)\<^sup>*\<^sup>* p p'
           \<and> (\<nexists>p''. live_step cel ext jwt recovers errText malformed path apis p' p'')"
  have "(process_step cel ext jwt recovers errText malformed path apis)\<^sup>*\<^sup>* p p'"
    using r by (auto intro: rtranclp_mono [THEN predicate2D] process_step.lives)
  with assms(2) have reach: "(process_step cel ext jwt recovers errText malformed path apis)\<^sup>*\<^sup>* (start_process acts s) p'" by simp
  then have ok: "signals_ok p'" using reachable_ends by blast
  show "p_exit p' \<noteq> None \<or>
         (\<forall>c \<in> set (p_calls p'). \<exists>ans. c_pc c = Q_done ans
            \<and> (ans = Panicked \<longrightarrow> recovers \<and> NewUserClaims jwt (UserNkey (c_req c)) = None))
         \<and> map c_req (p_calls p') = map c_req (p_calls p)
         \<and> p_watch p' = N_select \<and> p_hup p' = 0 \<and> \<not> p_unread p' \<and> p_main p' = M_wait \<and> \<not> p_ctx p'"
  proof (cases "p_exit p' = None")
    case True
    note rest = live_rest [OF conjunct2 [OF r] True assms(1) ok]
    have "\<exists>ans. c_pc c = Q_done ans \<and> (ans = Panicked \<longrightarrow> recovers \<and> NewUserClaims jwt (UserNkey (c_req c)) = None)"
      if c: "c \<in> set (p_calls p')" for c
    proof -
      obtain ans where "c_pc c = Q_done ans" using rest c call_over_Some by blast
      then show ?thesis using reachable_calls [OF reach] c True by (auto simp: calls_ok_def)
    qed
    with rest live_steps_requests [OF conjunct1 [OF r]] ok show ?thesis
      by (simp add: signals_ok_def)
  qed simp
qed

theorem service_comes_to_rest_witness:
  "\<exists>p. sample_moves [Watch sample_outside False, Hangup] = Some p \<and> process_rank p = 26
     \<and> (\<forall>p' n. (live_step sample_cel (\<lambda>_. None) sample_jwt False (\<lambda>_. []) (\<lambda>_. False) ''config.yaml'' {sample_oidc} ^^ n) p p' \<longrightarrow> n \<le> 26)"
proof -
  let ?ms = "[Watch sample_outside False, Hangup]"
  have "map_option process_rank (sample_moves ?ms) = Some 26" by code_simp
  then obtain p where p: "sample_moves ?ms = Some p" "process_rank p = 26" by auto
  have "list_all (move_in {sample_oidc}) ?ms" by (simp add: sample_outside_def)
  from sample_moves_process [OF p(1) this] obtain acts where
    "(process_step sample_cel (\<lambda>_. None) sample_jwt False (\<lambda>_. []) (\<lambda>_. False) ''config.yaml'' {sample_oidc})\<^sup>*\<^sup>*
         (start_process acts aws_service) p" by blast
  moreover have "out_oidc aws_outside \<in> {sample_oidc}" by (simp add: aws_outside_def sample_outside_def)
  ultimately show ?thesis using service_comes_to_rest [of aws_outside "{sample_oidc}"] p by metis
qed

text \<open>
  A SIGHUP that comes too early ends the service. When \<open>run\<close> has started everything, but its goroutine has not
  yet reached \<open>signal.Notify\<close>, a SIGHUP is not a request to reload: it ends the process.
\<close>

theorem early_sighup_ends_service:
  "process_step cel ext jwt recovers errText malformed path apis (start_process acts s) (sighup (start_process acts s))
   \<and> p_exit (sighup (start_process acts s)) = Some Signalled"
  by (intro conjI process_step.hangs_up) (simp_all add: start_process_def sighup_def)

text \<open>
  C40. The shutdown of the metrics endpoint is not awaited. With metrics enabled, a SIGTERM can end the service, in
  order and with code 0, while \<open>Serve\<close> has not yet begun to shut its server down: the graceful shutdown,
  which lets requests in progress finish, is skipped.
\<close>

theorem metrics_shutdown_not_awaited:
  fixes s :: "('idv, 'prg, 'key) service" and acts :: "('key, 'cert, 'cas) action list" and apis :: "('cas, 'prov, 'idv) oidc_api set"
  assumes "Metrics_Enabled (cfg_Metrics (svc_current s))"
    and "Serve malformed (Metrics_Path (cfg_Metrics (svc_current s))) = Some sv"
  shows "\<exists>p. (process_step cel ext jwt recovers errText malformed path apis)\<^sup>*\<^sup>* (start_process acts s) p
    \<and> p_exit p = Some (Exited 0) \<and> p_exporter p = E_serving sv \<and> srv sv = Accepting \<and> \<not> shut_down sv"
proof -
  have sv: "srv sv = Accepting" "\<not> shut_down sv" using assms(2) by (auto simp: Serve_def Let_def split: if_splits)
  obtain p :: "('cas, 'prov, 'idv, 'prg, 'key, 'cert) process" where
    p: "moves cel ext jwt recovers errText malformed path (StartServe # shutdown_moves) (start_process acts s) = Some p"
    "p_exit p = Some (Exited 0)" "p_exporter p = E_serving sv"
    using assms by (simp add: shutdown_moves_def numeral_eq_Suc move_step_def main_step_def sigterm_def start_process_def serve_start_def)
  have "(process_step cel ext jwt recovers errText malformed path apis)\<^sup>*\<^sup>* (start_process acts s) p"
    by (rule moves_process [OF p(1)]) (simp add: shutdown_moves_def all_replicate)
  with p(2,3) sv show ?thesis by blast
qed

theorem metrics_shutdown_not_awaited_witness:
  "\<exists>p. (process_step sample_cel (\<lambda>_. None) sample_jwt False (\<lambda>_. []) (\<lambda>_. False) ''config.yaml'' {sample_oidc})\<^sup>*\<^sup>*
      (start_process [] (aws_service\<lparr>svc_current := (svc_current aws_service)
         \<lparr>cfg_Metrics := \<lparr>Metrics_Enabled = True, Metrics_Address = ''a'', Metrics_Path = ''/m''\<rparr>\<rparr>\<rparr>)) p
    \<and> p_exit p = Some (Exited 0)"
proof -
  let ?s = "aws_service\<lparr>svc_current := (svc_current aws_service)
         \<lparr>cfg_Metrics := \<lparr>Metrics_Enabled = True, Metrics_Address = ''a'', Metrics_Path = ''/m''\<rparr>\<rparr>\<rparr>"
  have m: "Metrics_Enabled (cfg_Metrics (svc_current ?s))" by simp
  obtain sv where "Serve (\<lambda>_. False) (Metrics_Path (cfg_Metrics (svc_current ?s))) = Some sv"
    by (simp add: Serve_def Let_def)
  from metrics_shutdown_not_awaited [OF m this] show ?thesis by blast
qed

theorem watch_steps_equiv_witness:
  "let p = aws_process\<lparr>p_watch := N_select\<rparr>;
       p' = fold (\<lambda>out q. watch_run sample_cel (\<lambda>_. None) (\<lambda>_. []) ''config.yaml'' out 12 (sighup q)) [broken_outside, sample_outside] p in
   service_of p' = watchReloads sample_cel (\<lambda>_. None) (\<lambda>_. []) ''config.yaml'' [broken_outside, sample_outside] (service_of p)
   \<and> p_watch p' = N_select"
  using watch_steps_equiv [of "aws_process\<lparr>p_watch := N_select\<rparr>" 12 sample_cel "\<lambda>_. None" "\<lambda>_. []" "''config.yaml''"
      "[broken_outside, sample_outside]"]
  by (simp add: aws_process_start Let_def)

end
