(* ===== verification/MetricsPath.thy ===== *)
theory MetricsPath
  imports RunningSignals
begin

text \<open>
  What a start does with the metrics section of the configuration: nothing in \<open>Load\<close> and \<open>run\<close> looks at the
  path, so that every service that starts also starts with a path the metrics endpoint panics on, and then ends.
\<close>

section \<open>A configuration with another metrics section\<close>

definition set_metrics :: "MetricsConfig \<Rightarrow> 'prg Config \<Rightarrow> 'prg Config" where
  "set_metrics m c = c\<lparr>cfg_Metrics := m\<rparr>"

text \<open>The same files and providers, with \<open>m\<close> as the metrics section of the configuration file.\<close>

definition with_metrics :: "MetricsConfig \<Rightarrow> ('prg, 'cas, 'prov, 'idv) outside \<Rightarrow> ('prg, 'cas, 'prov, 'idv) outside" where
  "with_metrics m out =
     out\<lparr>out_io := (out_io out)\<lparr>yamlConfig := (\<lambda>data. map_sum id (set_metrics m) (yamlConfig (out_io out) data))\<rparr>\<rparr>"

lemma with_metrics_simps [simp]:
  "readFile (out_io (with_metrics m out)) = readFile (out_io out)" "out_oidc (with_metrics m out) = out_oidc out"
  "yamlPolicy (out_io (with_metrics m out)) = yamlPolicy (out_io out)" "out_certs (with_metrics m out) = out_certs out"
  "yamlConfig (out_io (with_metrics m out)) data = map_sum id (set_metrics m) (yamlConfig (out_io out) data)"
  by (simp_all add: with_metrics_def)

lemma set_metrics_simps [simp]:
  "cfg_NATS (set_metrics m c) = cfg_NATS c" "cfg_IssuerAccountSeed (set_metrics m c) = cfg_IssuerAccountSeed c"
  "cfg_XKeySeed (set_metrics m c) = cfg_XKeySeed c" "cfg_Audiences (set_metrics m c) = cfg_Audiences c"
  "cfg_SigningAlgs (set_metrics m c) = cfg_SigningAlgs c" "cfg_Issuers (set_metrics m c) = cfg_Issuers c"
  "cfg_HTTPTimeout (set_metrics m c) = cfg_HTTPTimeout c" "cfg_OIDCCACert (set_metrics m c) = cfg_OIDCCACert c"
  "cfg_Metrics (set_metrics m c) = m" "cfg_Policy (set_metrics m c) = cfg_Policy c"
  "cfg_PolicyFile (set_metrics m c) = cfg_PolicyFile c"
  by (simp_all add: set_metrics_def)

text \<open>The validation of a configuration has nothing to say of its metrics section.\<close>

lemma Config_Validate_metrics:
  "Config_Validate cel ext (set_metrics m c) = map_prod (set_metrics m) id (Config_Validate cel ext c)"
  by (simp add: Config_Validate_def set_metrics_def split: option.split prod.split)

lemma defaults_metrics:
  assumes "Metrics_Address m \<noteq> []" and "Metrics_Path m \<noteq> []"
  shows "set_metrics_defaults (set_http_timeout (set_metrics m c)) = set_metrics m (set_metrics_defaults (set_http_timeout c))"
  using assms by (simp add: set_metrics_defaults_def set_http_timeout_def set_metrics_def Let_def)

lemma Load_with_metrics:
  assumes "Load cel ext (out_io out) path = Inr cfg" and "Metrics_Address m \<noteq> []" and "Metrics_Path m \<noteq> []"
  shows "Load cel ext (out_io (with_metrics m out)) path = Inr (set_metrics m cfg)"
proof (rule Load_Inr [OF assms(1)])
  fix data cfg0 pol
  assume d: "readFile (out_io out) path = Inr data" "yamlConfig (out_io out) data = Inr cfg0"
    and f: "if cfg_PolicyFile cfg0 \<noteq> []
     then LoadPolicy cel ext (readFile (out_io out)) (yamlPolicy (out_io out)) (cfg_PolicyFile cfg0) = Inr pol
     else pol = cfg_Policy cfg0"
    and v: "Config_Validate cel ext (set_metrics_defaults (set_http_timeout (cfg0\<lparr>cfg_Policy := pol\<rparr>))) = (cfg, None)"
  let ?c = "set_metrics_defaults (set_http_timeout (cfg0\<lparr>cfg_Policy := pol\<rparr>))"
  have w: "Config_Validate cel ext (set_metrics_defaults (set_http_timeout (set_metrics m (cfg0\<lparr>cfg_Policy := pol\<rparr>))))
      = (set_metrics m cfg, None)"
    using v by (simp only: defaults_metrics [OF assms(2,3)] Config_Validate_metrics map_prod_simp id_apply)
  have c: "(set_metrics m cfg0)\<lparr>cfg_Policy := pol\<rparr> = set_metrics m (cfg0\<lparr>cfg_Policy := pol\<rparr>)"
    by (simp add: set_metrics_def)
  show ?thesis
  proof (cases "cfg_PolicyFile cfg0 = []")
    case True
    then have "set_metrics m (cfg0\<lparr>cfg_Policy := pol\<rparr>) = set_metrics m cfg0" using f by (simp add: set_metrics_def)
    then show ?thesis using d w True by (simp add: Load_def)
  next
    case False
    then show ?thesis using d f w by (simp add: Load_def c)
  qed
qed

lemma verifier_options_metrics: "verifier_options (set_metrics m cfg) cas = verifier_options cfg cas"
  by (simp add: verifier_options_def issuer_options_def)

lemma buildVerifier_metrics: "buildVerifier oidc read certs (set_metrics m cfg) = buildVerifier oidc read certs cfg"
  by (simp add: buildVerifier_def verifier_options_metrics cong: sum.case_cong option.case_cong if_cong)

lemma run_with_metrics:
  assumes "run cel ext api out path = (acts, Inr s)"
    and "Metrics_Address m \<noteq> []" and "Metrics_Path m \<noteq> []" and "net_Listen api (Metrics_Address m) = None"
  shows "\<exists>acts' s'. run cel ext api (with_metrics m out) path = (acts', Inr s')
    \<and> svc_current s' = set_metrics m (svc_current s) \<and> state (svc_auth s') = state (svc_auth s)"
proof -
  obtain cfg where l: "Load cel ext (out_io out) path = Inr cfg"
    using assms(1) by (auto simp: run_def Let_def split: sum.splits)
  show ?thesis
    using assms(1,4) l Load_with_metrics [OF l assms(2,3)]
    by (auto simp: run_def Let_def buildVerifier_metrics Authorizer_New_def
          split: sum.splits option.splits prod.splits if_splits)
qed

section \<open>The crash\<close>

text \<open>
  C39. The path of the metrics is not checked. Take any service that starts, and write a metrics section into its
  configuration file that enables the metrics, at any address it can listen on, with any path that has no slash.
  Then the service starts as before, with that path and the same verifier and policy; and the goroutine of
  the metrics can take the process down at once, by the panic of \<open>mux.Handle\<close>.
\<close>

theorem unchecked_metrics_path_panics:
  fixes s :: "('idv, 'prg, 'key) service" and acts :: "('key, 'cert, 'cas) action list"
    and apis :: "('cas, 'prov, 'idv) oidc_api set" and out :: "('prg, 'cas, 'prov, 'idv) outside"
  assumes "run cel ext api out path = (acts, Inr s)"
    and "addr \<noteq> []" and "net_Listen api addr = None" and "q \<noteq> []" and "CHR ''/'' \<notin> set q"
  shows "\<exists>acts' s' p.
      run cel ext api (with_metrics \<lparr>Metrics_Enabled = True, Metrics_Address = addr, Metrics_Path = q\<rparr> out) path = (acts', Inr s')
    \<and> Metrics_Path (cfg_Metrics (svc_current s')) = q \<and> state (svc_auth s') = state (svc_auth s)
    \<and> (process_step cel ext jwt recovers errText malformed path apis)\<^sup>*\<^sup>* (start_process acts' s') p \<and> p_exit p = Some Crashed"
proof -
  let ?m = "\<lparr>Metrics_Enabled = True, Metrics_Address = addr, Metrics_Path = q\<rparr>"
  obtain acts' :: "('key, 'cert, 'cas) action list" and s' :: "('idv, 'prg, 'key) service" where
    r: "run cel ext api (with_metrics ?m out) path = (acts', Inr s')"
    "svc_current s' = set_metrics ?m (svc_current s)" "state (svc_auth s') = state (svc_auth s)"
    using run_with_metrics [OF assms(1), of ?m] assms(2-4) by auto
  let ?p = "start_process acts' s' :: ('cas, 'prov, 'idv, 'prg, 'key, 'cert) process"
  have m: "cfg_Metrics (svc_current s') = ?m" by (simp add: r(2))
  have "Serve malformed q = None" using assms(4,5) by (simp add: Serve_def Let_def)
  then have x: "p_exit (serve_start malformed q ?p) = Some Crashed" by (simp add: serve_start_def)
  have "p_exit ?p = None" "p_exporter ?p = E_start q" by (simp_all add: start_process_def m)
  from process_step.lives [OF live_step.serve_starts [OF this]]
  have "process_step cel ext jwt recovers errText malformed path apis ?p (serve_start malformed q ?p)" .
  with r m x show ?thesis by (metis MetricsConfig.select_convs(3) r_into_rtranclp)
qed

theorem unchecked_metrics_path_panics_witness:
  "\<exists>acts s p. run sample_cel (\<lambda>_. None) sample_service_api
        (with_metrics \<lparr>Metrics_Enabled = True, Metrics_Address = '':9090'', Metrics_Path = ''metrics''\<rparr> aws_outside) ''config.yaml''
      = (acts, Inr s)
    \<and> (process_step sample_cel (\<lambda>_. None) sample_jwt False (\<lambda>_. []) (\<lambda>_. False) ''config.yaml'' {sample_oidc})\<^sup>*\<^sup>* (start_process acts s) p
    \<and> p_exit p = Some Crashed"
proof -
  obtain acts where r: "run sample_cel (\<lambda>_. None) sample_service_api aws_outside ''config.yaml'' = (acts, Inr aws_service)"
    using aws_runs by blast
  have a: "'':9090'' \<noteq> ([] :: string)" "net_Listen sample_service_api '':9090'' = None" "''metrics'' \<noteq> ([] :: string)"
    "CHR ''/'' \<notin> set ''metrics''"
    by code_simp+
  from unchecked_metrics_path_panics [OF r a] show ?thesis by blast
qed

end
