(* ===== verification/RunningMetrics.thy ===== *)
theory RunningMetrics
  imports RunningProps
begin

text \<open>
  The counters of the running service. Each is changed by a call of its own, so that one who reads the
  metrics may see a request half recorded; the theory bounds how far the counters can be from the
  answers, and from each other, by the number of requests in progress and the refusals over a failure to sign.
\<close>

section \<open>What the calls have recorded\<close>

definition recorded :: "(metric_op \<Rightarrow> bool) \<Rightarrow> ('cas, 'prov, 'idv, 'prg) call \<Rightarrow> nat" where
  "recorded P c = length (filter P (c_ops c))"

definition sum_over :: "('c \<Rightarrow> nat) \<Rightarrow> 'c list \<Rightarrow> nat" where
  "sum_over f cs = sum_list (map f cs)"

lemma sum_over_simps [simp]: "sum_over f [] = 0" "sum_over f (c # cs) = f c + sum_over f cs" "sum_over f (cs @ ds) = sum_over f cs + sum_over f ds"
  by (simp_all add: sum_over_def)

lemma sum_over_mono: "(\<And>c. c \<in> set cs \<Longrightarrow> f c \<le> g c) \<Longrightarrow> sum_over f cs \<le> sum_over g cs"
  by (induction cs) (force intro: add_mono)+

lemma sum_over_add: "sum_over (\<lambda>c. f c + g c) cs = sum_over f cs + sum_over g cs"
  by (induction cs) simp_all

lemma length_filter_sum: "length (filter P cs) = sum_over (\<lambda>c. of_bool (P c)) cs"
  by (induction cs) simp_all

fun is_observe :: "metric_op \<Rightarrow> bool" where
  "is_observe (Observe d) = True"
| "is_observe _ = False"

lemma apply_ops:
  "series (requests (fold apply_op ops m)) l = series (requests m) l + length (filter ((=) (IncRequests l)) ops)"
  "series (denials (fold apply_op ops m)) l = series (denials m) l + length (filter ((=) (IncDenials l)) ops)"
  "length (observed (fold apply_op ops m)) = length (observed m) + length (filter is_observe ops)"
  by (induction ops arbitrary: m) (auto simp: apply_op_def label_series.read_bump split: metric_op.splits)

section \<open>The invariant of the counters\<close>

definition denial_reasons :: "string list" where
  "denial_reasons = [ReasonNoToken, ReasonVerificationFailed, ReasonPolicyNoMatch]"

definition agrees :: "answer \<Rightarrow> event \<Rightarrow> bool" where
  "agrees ans e = (case e of Allowed d \<Rightarrow> issued ans | Denied r d \<Rightarrow> ans = ErrDenied \<and> r \<in> set denial_reasons)"

definition ops_ok :: "('cas, 'prov, 'idv, 'prg) call \<Rightarrow> bool" where
  "ops_ok c \<longleftrightarrow>
     (case c_pc c of
        Q_log r ev ans \<Rightarrow> c_ops c = [] \<and>
          (case ev of None \<Rightarrow> ans = ErrDenied \<and> signing_failure r | Some e \<Rightarrow> agrees ans e \<and> \<not> signing_failure r)
      | Q_record ops ans \<Rightarrow> \<exists>e. metric_ops e = c_ops c @ ops \<and> agrees ans e
      | Q_done ans \<Rightarrow> (\<exists>e. metric_ops e = c_ops c \<and> agrees ans e) \<or> c_ops c = [] \<and> \<not> issued ans
      | _ \<Rightarrow> c_ops c = [])"

definition unsigned_call :: "('cas, 'prov, 'idv, 'prg) call \<Rightarrow> bool" where
  "unsigned_call c \<longleftrightarrow> c_pc c = Q_done ErrDenied \<and> c_ops c = []"

fun quiet :: "('idv, 'prg) watcher \<Rightarrow> bool" where
  "quiet (N_log rs next) = (filter signing_failure rs = [] \<and> quiet next)"
| "quiet _ = True"

definition counters_ok :: "('cas, 'prov, 'idv, 'prg) call list \<Rightarrow> ('idv, 'prg, 'key) Authorizer \<Rightarrow> bool" where
  "counters_ok cs a \<longleftrightarrow>
     (\<exists>m. metrics a = Some m
        \<and> (\<forall>l. series (requests m) l = sum_over (recorded ((=) (IncRequests l))) cs)
        \<and> (\<forall>r. series (denials m) r = sum_over (recorded ((=) (IncDenials r))) cs)
        \<and> length (observed m) = sum_over (recorded is_observe) cs)
     \<and> length (filter signing_failure (logger a)) = sum_over (\<lambda>c. of_bool (unsigned_call c)) cs
     \<and> (\<forall>c \<in> set cs. ops_ok c)"

definition metrics_ok :: "('cas, 'prov, 'idv, 'prg, 'key, 'cert) process \<Rightarrow> bool" where
  "metrics_ok p \<longleftrightarrow> counters_ok (p_calls p) (p_auth p) \<and> quiet (p_watch p)"

lemma metric_ops_nonempty: "metric_ops e \<noteq> []"
  by (cases e) (simp_all add: metric_ops_def)

text \<open>The line of a call says that signing failed only where nothing is recorded.\<close>

lemma request_step_ops_ok:
  assumes "call_step cel jwt n c a = (c', a')" and "ops_ok c" and "metrics a \<noteq> None" and "\<not> call_over (c_pc c)"
  shows "ops_ok c' \<and> c_ops c' = c_ops c @ next_ops (c_pc c)
    \<and> of_bool (unsigned_call c') = of_bool (unsigned_call c) + length (filter signing_failure (next_lines (c_pc c)))"
proof -
  have c': "c_pc c' = fst (request_step (c_oidc c) cel jwt (c_env c) (c_req c) (c_pc c, a))"
    "c_ops c' = c_ops c @ next_ops (c_pc c)"
    using assms(1) by (auto simp: call_step_def next_ops_case split: prod.splits)
  show ?thesis
  proof (cases "c_pc c")
    case (Q_record ops ans)
    then show ?thesis using c' assms(2) metric_ops_nonempty by (cases ops) (auto simp: ops_ok_def unsigned_call_def)
  next
    case (Q_log r ev ans)
    then show ?thesis using c' assms(2,3) by (cases ev) (auto simp: ops_ok_def unsigned_call_def issued_def)
  next
    case (Q_done ans)
    then show ?thesis using assms(4) by simp
  qed (use c' assms(2) in \<open>auto simp: ops_ok_def unsigned_call_def rejected_def agrees_def issued_def signing_failure_def
         denial_reasons_def split: sum.splits option.splits if_splits\<close>)
qed

lemma counters_ok_call:
  assumes "call_step cel jwt n c a = (c', a')" and "counters_ok (before @ c # after) a" and "\<not> call_over (c_pc c)"
  shows "counters_ok (before @ c' # after) a'"
proof -
  obtain m where m: "metrics a = Some m" using assms(2) by (auto simp: counters_ok_def)
  have e: "metrics a' = Some (fold apply_op (next_ops (c_pc c)) m)" "logger a' = logger a @ next_lines (c_pc c)"
    using assms(1) m request_step_effect by (fastforce simp: call_step_def split: prod.splits)+
  have o: "ops_ok c" using assms(2) by (simp add: counters_ok_def)
  note r = request_step_ops_ok [OF assms(1) o _ assms(3)]
  have "of_bool (unsigned_call c') = of_bool (unsigned_call c) + length (filter signing_failure (next_lines (c_pc c)))"
    "c_ops c' = c_ops c @ next_ops (c_pc c)" "ops_ok c'" using r m by simp_all
  then show ?thesis
    using assms(2) m by (simp add: counters_ok_def e recorded_def apply_ops)
qed

lemma counters_ok_same:
  "same_service p p' \<Longrightarrow> metrics_ok p \<Longrightarrow> metrics_ok p'"
  by (simp add: same_service_def metrics_ok_def counters_ok_def)

lemma counters_ok_log:
  "filter signing_failure rs = [] \<Longrightarrow> counters_ok cs (a\<lparr>logger := logger a @ rs\<rparr>) = counters_ok cs a"
  by (simp add: counters_ok_def)

lemma counters_ok_Reload: "counters_ok cs (Reload v p a) = counters_ok cs a"
  by (simp add: counters_ok_def Reload_def)

lemma quiet_lines:
  "filter signing_failure (warnUnreloadable a b) = []" "\<not> signing_failure (reload_failed e)"
  "\<not> signing_failure (info ''SIGHUP received; reloading config'' attrs)" "\<not> signing_failure (info ''config reloaded'' attrs)"
  by (simp_all add: warnUnreloadable_def warning_def signing_failure_def reload_failed_def info_def)

lemma metrics_ok_watch:
  assumes "watch_step cel ext errText path out b p = Some p'" and "metrics_ok p"
  shows "metrics_ok p'"
proof (cases "p_watch p")
  case (N_log rs rest)
  then show ?thesis using assms
    by (cases rs) (auto simp: watch_step_def metrics_ok_def log_line_def counters_ok_log split: if_splits)
qed (use assms in \<open>auto simp: watch_step_def metrics_ok_def counters_ok_Reload quiet_lines split: if_splits sum.splits\<close>)

lemma metrics_ok_step:
  assumes "process_step cel ext jwt recovers errText malformed path apis p p'" and "metrics_ok p"
  shows "metrics_ok p'"
  using assms(1)
proof cases
  case lives
  then show ?thesis
  proof cases
    case (calls before c after c' a')
    then show ?thesis using counters_ok_call [OF calls(5) _ calls(4)] assms(2) by (simp add: metrics_ok_def)
  next
    case (watches out b)
    show ?thesis by (rule metrics_ok_watch [OF watches(3) assms(2)])
  next
    case mains
    show ?thesis by (rule counters_ok_same [OF main_step_same [OF mains(2)] assms(2)])
  qed (use assms(2) in \<open>auto intro: counters_ok_same serve_same\<close>)
next
  case (arrives oidc req env)
  then show ?thesis using assms(2)
    by (simp add: metrics_ok_def counters_ok_def new_call_def recorded_def ops_ok_def unsigned_call_def)
qed (use assms(2) in \<open>auto intro: counters_ok_same serve_same\<close>)

definition fresh_start :: "('cas, 'prov, 'idv, 'prg, 'key, 'cert) process \<Rightarrow> bool" where
  "fresh_start p \<longleftrightarrow> (\<exists>acts s. p = start_process acts s \<and> metrics (svc_auth s) = Some Metrics_New \<and> logger (svc_auth s) = [])"

lemma metrics_ok_start: "fresh_start p \<Longrightarrow> metrics_ok p"
  by (auto simp: fresh_start_def metrics_ok_def counters_ok_def start_process_def Metrics_New_def series_initial)

interpretation counting: invariant_system fresh_start "process_step cel ext jwt recovers errText malformed path apis" metrics_ok
  by unfold_locales (fact metrics_ok_start metrics_ok_step)+

lemma run_fresh:
  assumes "run cel ext api out path = (acts, Inr s)" and "Metrics_Enabled (cfg_Metrics (svc_current s))"
  shows "fresh_start (start_process acts s)"
proof -
  have "metrics (svc_auth s) = Some Metrics_New \<and> logger (svc_auth s) = []"
    using assms
    by (auto simp: run_def Let_def Authorizer_New_def split: sum.splits option.splits prod.splits if_splits)
  then show ?thesis unfolding fresh_start_def by blast
qed

section \<open>How far the counters are from the answers\<close>

abbreviation "allowed_by \<equiv> recorded ((=) (IncRequests ''allowed''))"
abbreviation "denied_by \<equiv> recorded ((=) (IncRequests ''denied''))"

definition reasons_by :: "('cas, 'prov, 'idv, 'prg) call \<Rightarrow> nat" where
  "reasons_by c = (\<Sum>r \<leftarrow> denial_reasons. recorded ((=) (IncDenials r)) c)"

definition issued_call :: "('cas, 'prov, 'idv, 'prg) call \<Rightarrow> bool" where
  "issued_call c \<longleftrightarrow> (case c_pc c of Q_done ans \<Rightarrow> issued ans | _ \<Rightarrow> False)"

definition refused_call :: "('cas, 'prov, 'idv, 'prg) call \<Rightarrow> bool" where
  "refused_call c \<longleftrightarrow> c_pc c = Q_done ErrDenied"

definition busy_call :: "('cas, 'prov, 'idv, 'prg) call \<Rightarrow> bool" where
  "busy_call c \<longleftrightarrow> \<not> call_over (c_pc c)"

lemma call_bounds:
  assumes "ops_ok c"
  shows "of_bool (issued_call c) \<le> allowed_by c \<and> allowed_by c \<le> of_bool (issued_call c) + of_bool (busy_call c)
    \<and> of_bool (refused_call c) \<le> denied_by c + of_bool (unsigned_call c)
    \<and> denied_by c + of_bool (unsigned_call c) \<le> of_bool (refused_call c) + of_bool (busy_call c)
    \<and> reasons_by c \<le> denied_by c \<and> denied_by c \<le> reasons_by c + of_bool (busy_call c)
    \<and> recorded is_observe c \<le> allowed_by c + denied_by c
    \<and> allowed_by c + denied_by c \<le> recorded is_observe c + of_bool (busy_call c)"
proof -
  have ne: "ReasonNoToken \<noteq> ReasonVerificationFailed" "ReasonNoToken \<noteq> ReasonPolicyNoMatch" "ReasonVerificationFailed \<noteq> ReasonPolicyNoMatch"
    by (simp_all add: ReasonNoToken_def ReasonVerificationFailed_def ReasonPolicyNoMatch_def)
  note defs = recorded_def reasons_by_def issued_call_def refused_call_def busy_call_def unsigned_call_def denial_reasons_def
  show ?thesis
  proof (cases "c_pc c")
    case (Q_record ops ans)
    then obtain e where e: "metric_ops e = c_ops c @ ops" "agrees ans e" using assms by (auto simp: ops_ok_def)
    show ?thesis
    proof (cases e)
      case (Allowed d)
      then have "c_ops c = [] \<or> c_ops c = [IncRequests ''allowed''] \<or> c_ops c = [IncRequests ''allowed'', Observe d]"
        using e(1) by (cases "c_ops c"; cases "tl (c_ops c)"; cases "tl (tl (c_ops c))") (auto simp: metric_ops_def)
      then show ?thesis using Q_record by (auto simp: defs)
    next
      case (Denied r d)
      then have r: "r \<in> set denial_reasons" using e(2) by (simp add: agrees_def)
      have "c_ops c = [] \<or> c_ops c = [IncRequests ''denied''] \<or> c_ops c = [IncRequests ''denied'', IncDenials r]
          \<or> c_ops c = [IncRequests ''denied'', IncDenials r, Observe d]"
        using e(1) Denied
        by (cases "c_ops c"; cases "tl (c_ops c)"; cases "tl (tl (c_ops c))"; cases "tl (tl (tl (c_ops c)))") (auto simp: metric_ops_def)
      then show ?thesis using Q_record r ne by (auto simp: defs)
    qed
  next
    case (Q_done ans)
    show ?thesis
    proof (cases "c_ops c = []")
      case True
      then show ?thesis using Q_done assms by (cases ans) (auto simp: defs ops_ok_def metric_ops_nonempty issued_def)
    next
      case False
      then obtain e where e: "metric_ops e = c_ops c" "agrees ans e" using Q_done assms by (auto simp: ops_ok_def)
      show ?thesis
      proof (cases e)
        case (Allowed d)
        then have "c_ops c = [IncRequests ''allowed'', Observe d]" using e(1) by (simp add: metric_ops_def)
        then show ?thesis using Q_done e(2) Allowed by (auto simp: defs agrees_def issued_def)
      next
        case (Denied r d)
        then have "c_ops c = [IncRequests ''denied'', IncDenials r, Observe d]" using e(1) by (simp add: metric_ops_def)
        then show ?thesis using Q_done e(2) Denied ne by (auto simp: defs agrees_def issued_def)
      qed
    qed
  qed (use assms in \<open>auto simp: defs ops_ok_def\<close>)
qed

lemma reasons_total: "sum_over reasons_by cs = (\<Sum>r \<leftarrow> denial_reasons. sum_over (recorded ((=) (IncDenials r))) cs)"
  by (induction cs) (simp_all add: reasons_by_def denial_reasons_def)

section \<open>Properties\<close>

text \<open>
  C17. How far the counters are from the answers. At every moment of the running service with metrics, as a scrape may
  see it: the allowed counter is between the JWTs issued and those plus the requests in progress. The denied
  counter falls short of the refusals by the refusals over a JWT that could not be signed, which are never counted, and
  of which the log has one line each; but for those it is between the refusals and the refusals plus the requests in
  progress. The denials of all reasons, and the observations of the histogram, fall short of their
  counters by at most the requests in progress. So when no request is in progress, the counters are the
  answers less those failures to sign.
\<close>

theorem counters_keep_up:
  assumes "run cel ext api out path = (acts, Inr s)" and "Metrics_Enabled (cfg_Metrics (svc_current s))"
    and "(process_step cel ext jwt recovers errText malformed path apis)\<^sup>*\<^sup>* (start_process acts s) p"
  shows "\<exists>m. metrics (p_auth p) = Some m
    \<and> (let busy = length (filter busy_call (p_calls p));
           issues = length (filter issued_call (p_calls p));
           refusals = length (filter refused_call (p_calls p));
           unsigned = length (filter signing_failure (logger (p_auth p)));
           allowed = series (requests m) ''allowed''; denied = series (requests m) ''denied'';
           reasons = (\<Sum>r \<leftarrow> denial_reasons. series (denials m) r) in
       issues \<le> allowed \<and> allowed \<le> issues + busy
       \<and> refusals \<le> denied + unsigned \<and> denied + unsigned \<le> refusals + busy
       \<and> reasons \<le> denied \<and> denied \<le> reasons + busy
       \<and> length (observed m) \<le> allowed + denied \<and> allowed + denied \<le> length (observed m) + busy)"
proof -
  let ?cs = "p_calls p"
  have "metrics_ok p" using counting.reachable_inv [OF run_fresh [OF assms(1,2)] assms(3)] .
  then obtain m where m: "metrics (p_auth p) = Some m"
    "series (requests m) ''allowed'' = sum_over (recorded ((=) (IncRequests ''allowed''))) ?cs"
    "series (requests m) ''denied'' = sum_over (recorded ((=) (IncRequests ''denied''))) ?cs"
    "\<And>r. series (denials m) r = sum_over (recorded ((=) (IncDenials r))) ?cs"
    "length (observed m) = sum_over (recorded is_observe) ?cs"
    "length (filter signing_failure (logger (p_auth p))) = sum_over (\<lambda>c. of_bool (unsigned_call c)) ?cs"
    and ok: "\<forall>c \<in> set ?cs. ops_ok c"
    by (auto simp: metrics_ok_def counters_ok_def)
  have b: "sum_over f ?cs \<le> sum_over g ?cs" if "\<And>c. ops_ok c \<Longrightarrow> f c \<le> g c" for f g
    using that ok by (intro sum_over_mono) blast
  have "sum_over (\<lambda>c. of_bool (issued_call c)) ?cs \<le> sum_over allowed_by ?cs"
    "sum_over allowed_by ?cs \<le> sum_over (\<lambda>c. of_bool (issued_call c) + of_bool (busy_call c)) ?cs"
    "sum_over (\<lambda>c. of_bool (refused_call c)) ?cs \<le> sum_over (\<lambda>c. denied_by c + of_bool (unsigned_call c)) ?cs"
    "sum_over (\<lambda>c. denied_by c + of_bool (unsigned_call c)) ?cs \<le> sum_over (\<lambda>c. of_bool (refused_call c) + of_bool (busy_call c)) ?cs"
    "sum_over reasons_by ?cs \<le> sum_over denied_by ?cs"
    "sum_over denied_by ?cs \<le> sum_over (\<lambda>c. reasons_by c + of_bool (busy_call c)) ?cs"
    "sum_over (recorded is_observe) ?cs \<le> sum_over (\<lambda>c. allowed_by c + denied_by c) ?cs"
    "sum_over (\<lambda>c. allowed_by c + denied_by c) ?cs \<le> sum_over (\<lambda>c. recorded is_observe c + of_bool (busy_call c)) ?cs"
    by (rule b, use call_bounds in blast)+
  then show ?thesis
    by (intro exI [of _ m]) (simp add: m Let_def length_filter_sum [of _ "p_calls p"] sum_over_add reasons_total)
qed

theorem counters_keep_up_witness:
  "\<exists>p m. sample_moves (Arrive sample_request sample_env sample_oidc # replicate 8 (Call 0)) = Some p
     \<and> metrics (p_auth p) = Some m \<and> series (requests m) ''allowed'' = 1 \<and> length (observed m) = 1"
proof -
  let ?ms = "Arrive sample_request sample_env sample_oidc # replicate 8 (Call 0)"
  have "map_option (\<lambda>p. map c_pc (p_calls p)) (sample_moves ?ms) = Some [Q_done (Issued ''SAsAPP'')]" by code_simp
  then obtain p c where p: "sample_moves ?ms = Some p" "p_calls p = [c]" "c_pc c = Q_done (Issued ''SAsAPP'')" by auto
  have i: "list_all (move_in {sample_oidc}) ?ms" by (simp add: all_replicate)
  obtain acts where r: "run sample_cel (\<lambda>_. None) sample_service_api aws_outside ''config.yaml'' = (acts, Inr aws_service)"
    and s: "aws_process = start_process acts aws_service" using aws_runs by blast
  have m: "Metrics_Enabled (cfg_Metrics (svc_current aws_service))" by code_simp
  from counters_keep_up [OF r m moves_process [OF p(1) i, unfolded s]] show ?thesis
    using p by (auto simp: Let_def issued_call_def busy_call_def refused_call_def issued_def)
qed

end
