(* ===== verification/JsonPrint.thy ===== *)
theory JsonPrint
  imports Json GoTime "HOL-Library.Char_ord" "HOL-Library.List_Lexorder"
begin

text \<open>
  \<open>json.Marshal\<close>, the encoder of \<open>encoding/json\<close>, and its round trip with the parser.

  A value is given as its syntax tree. Strings are escaped as the library does for HTML: the
  control characters, the quote, the backslash, the angle brackets, the ampersand, the two line
  separators, and U+FFFD in place of a byte that is not UTF-8. Objects are printed in the order
  of their members; the callers sort them, as the library sorts the keys of a map.
\<close>

section \<open>Strings\<close>

definition hex_lower :: "nat \<Rightarrow> char" where
  "hex_lower n = char_of (if n < 10 then 48 + n else 87 + n)"

definition escape_ascii :: "nat \<Rightarrow> string" where
  "escape_ascii b =
     (if b = 34 \<or> b = 92 then [CHR 0x5C, char_of b]
      else if b = 8 then [CHR 0x5C, CHR ''b''] else if b = 12 then [CHR 0x5C, CHR ''f''] else if b = 10 then [CHR 0x5C, CHR ''n'']
      else if b = 13 then [CHR 0x5C, CHR ''r''] else if b = 9 then [CHR 0x5C, CHR ''t'']
      else if b < 32 \<or> b = 60 \<or> b = 62 \<or> b = 38
      then CHR 0x5C # ''u00'' @ [hex_lower (b div 16), hex_lower (b mod 16)]
      else [char_of b])"

definition escape_rune :: "nat \<times> nat \<Rightarrow> string" where
  "escape_rune = (\<lambda>(r, w).
     if r < 128 then escape_ascii r
     else if r = RuneError \<and> w = 1 then CHR 0x5C # ''ufffd''
     else if r = 8232 \<or> r = 8233 then CHR 0x5C # ''u202'' @ [hex_lower (r mod 16)]
     else EncodeRune r)"

definition quote :: "string \<Rightarrow> string" where
  "quote s = CHR 0x22 # concat (map escape_rune (decode s)) @ [CHR 0x22]"

section \<open>Values\<close>

fun marshal :: "json \<Rightarrow> string"
  and marshal_elems :: "json list \<Rightarrow> string"
  and marshal_members :: "(string \<times> json) list \<Rightarrow> string" where
  "marshal JNull = ''null''"
| "marshal (JBool b) = (if b then ''true'' else ''false'')"
| "marshal (JNum n) = n"
| "marshal (JStr s) = quote s"
| "marshal (JArr vs) = (if vs = [] then ''[]'' else CHR ''['' # marshal_elems vs)"
| "marshal (JObj ms) = (if ms = [] then ''{}'' else CHR ''{'' # marshal_members ms)"
| "marshal_elems [] = '']''"
| "marshal_elems (v # vs) = marshal v @ (if vs = [] then '']'' else CHR '','' # marshal_elems vs)"
| "marshal_members [] = ''}''"
| "marshal_members ((k, v) # ms) =
     quote k @ CHR '':'' # marshal v @ (if ms = [] then ''}'' else CHR '','' # marshal_members ms)"

text \<open>The nesting of a value, and the values that are printed without loss.\<close>

fun nesting :: "json \<Rightarrow> nat" where
  "nesting (JArr vs) = Suc (Max (insert 0 (set (map nesting vs))))"
| "nesting (JObj ms) = Suc (Max (insert 0 (set (map (nesting \<circ> snd) ms))))"
| "nesting v = 0"

fun printable :: "json \<Rightarrow> bool" where
  "printable (JNum n) \<longleftrightarrow> scan_number n = Some (n, [])"
| "printable (JStr s) \<longleftrightarrow> valid_utf8 s"
| "printable (JArr vs) \<longleftrightarrow> list_all printable vs"
| "printable (JObj ms) \<longleftrightarrow> list_all (\<lambda>(k, v). valid_utf8 k \<and> printable v) ms"
| "printable v \<longleftrightarrow> True"

section \<open>Scanning an escaped string\<close>

lemma byte_consts: "byte (CHR 0x5C) = 92" "byte (CHR 0x22) = 34"
  by (simp_all add: byte_def)

lemma hex_lower_digit: "n < 16 \<Longrightarrow> hex_digit (hex_lower n) = Some n"
  by (auto simp: hex_digit_def hex_lower_def byte_def Let_def)

lemma scan_u:
  assumes "hex4 (a # b # c # d # t) = Some (r, t)" and "r < 55296 \<or> 57344 \<le> r"
  shows "scan_string (CHR 0x5C # CHR ''u'' # a # b # c # d # t) = map_option (apfst ((@) (EncodeRune r))) (scan_string t)"
proof -
  have "surrogate r t = (r, t)" using assms(2) by (auto simp: surrogate_def)
  then show ?thesis using assms(1) by (simp add: byte_def)
qed

lemma scan_plain:
  assumes "byte c \<noteq> 34" and "byte c \<noteq> 92" and "32 \<le> byte c" and "DecodeRune (c # cs @ t) = (r, Suc (length cs))"
  shows "scan_string (c # cs @ t) = map_option (apfst ((@) (EncodeRune r))) (scan_string t)"
  using assms by simp

lemma hex4_low: "n < 256 \<Longrightarrow> hex4 (CHR ''0'' # CHR ''0'' # hex_lower (n div 16) # hex_lower (n mod 16) # t) = Some (n, t)"
proof -
  assume "n < 256"
  then have "hex_digit (hex_lower (n div 16)) = Some (n div 16)" "hex_digit (hex_lower (n mod 16)) = Some (n mod 16)"
    by (simp_all add: hex_lower_digit)
  moreover have "hex_digit CHR ''0'' = Some 0" by (simp add: hex_digit_def byte_def)
  ultimately show ?thesis by (simp add: hex4_def)
qed

lemma hex4_ffff: "hex4 (CHR ''f'' # CHR ''f'' # CHR ''f'' # CHR ''d'' # t) = Some (RuneError, t)"
  by (simp add: hex4_def hex_digit_def byte_def)

lemma hex4_separators:
  "r = 8232 \<or> r = 8233 \<Longrightarrow> hex4 (CHR ''2'' # CHR ''0'' # CHR ''2'' # hex_lower (r mod 16) # t) = Some (r, t)"
  by (auto simp: hex4_def hex_digit_def hex_lower_def byte_def)

lemma scan_escape_ascii:
  assumes "n < 128"
  shows "scan_string (escape_ascii n @ t) = map_option (apfst ((@) (EncodeRune n))) (scan_string t)"
proof -
  have e: "EncodeRune n = [char_of n]" using assms by (simp add: EncodeRune_def)
  have bn: "byte (char_of n) = n" using assms by (simp add: byte_def)
  have f: "apfst ((#) x) = apfst ((@) [x])" for x :: char by (simp add: fun_eq_iff apfst_def)
  consider (self) "n = 34 \<or> n = 92" | (short) "n \<in> {8, 9, 10, 12, 13}"
    | (hex) "n \<notin> {8, 9, 10, 12, 13, 34, 92}" "n < 32 \<or> n = 60 \<or> n = 62 \<or> n = 38"
    | (plain) "n \<notin> {34, 92, 60, 62, 38}" "32 \<le> n" by fastforce
  then show ?thesis
  proof cases
    case self
    then have "simple_escape (char_of n) = Some (char_of n)" using bn by (auto simp: simple_escape_def)
    with self show ?thesis using bn by (auto simp: escape_ascii_def e byte_consts f)
  next
    case short
    then show ?thesis by (auto simp: escape_ascii_def e byte_consts simple_escape_def byte_def f)
  next
    case hex
    then have x: "escape_ascii n = CHR 0x5C # CHR ''u'' # CHR ''0'' # CHR ''0'' # hex_lower (n div 16) # [hex_lower (n mod 16)]"
      by (auto simp: escape_ascii_def)
    have "hex4 (CHR ''0'' # CHR ''0'' # hex_lower (n div 16) # hex_lower (n mod 16) # t) = Some (n, t)"
      using assms by (intro hex4_low) simp
    from scan_u [OF this] show ?thesis using assms by (simp add: x)
  next
    case plain
    then have x: "escape_ascii n = [char_of n]" by (auto simp: escape_ascii_def)
    have "DecodeRune (char_of n # [] @ t) = (n, Suc (length []))" using assms bn by (simp add: DecodeRune_def)
    from scan_plain [OF _ _ _ this] show ?thesis using plain bn by (simp add: x)
  qed
qed

lemma scan_escape_rune:
  assumes "s \<noteq> []"
  shows "scan_string (escape_rune (DecodeRune s) @ t)
    = map_option (apfst ((@) (EncodeRune (fst (DecodeRune s))))) (scan_string t)"
proof -
  obtain r w where rw: "DecodeRune s = (r, w)" by (cases "DecodeRune s")
  consider (ascii) "r < 128" | (bad) "r = RuneError" "w = 1" | (sep) "r = 8232 \<or> r = 8233"
    | (raw) "\<not> r < 128" "\<not> (r = RuneError \<and> w = 1)" "r \<noteq> 8232" "r \<noteq> 8233" by blast
  then show ?thesis
  proof cases
    case ascii
    then show ?thesis using scan_escape_ascii [of r t] by (simp add: rw escape_rune_def)
  next
    case bad
    then show ?thesis using scan_u [OF hex4_ffff] by (simp add: rw escape_rune_def)
  next
    case sep
    then have "escape_rune (DecodeRune s) = CHR 0x5C # CHR ''u'' # CHR ''2'' # CHR ''0'' # CHR ''2'' # [hex_lower (r mod 16)]"
      by (auto simp: rw escape_rune_def)
    moreover have "r < 55296" using sep by auto
    ultimately show ?thesis using scan_u [OF hex4_separators [OF sep]] by (simp add: rw del: scan_string.simps)
  next
    case raw
    then have n: "DecodeRune s \<noteq> (RuneError, 1)" by (simp add: rw)
    obtain c cs where s: "s = c # cs" using assms by (cases s) auto
    have w: "1 \<le> w" "w \<le> length s" using DecodeRune_width [OF assms] rw by simp_all
    have hi: "128 \<le> byte c" using DecodeRune_ascii_iff [OF assms] raw(1) rw by (simp add: s)
    have tk: "take w s = c # take (w - 1) cs" using w(1) by (cases w) (simp_all add: s)
    have "escape_rune (DecodeRune s) = take w s"
      using raw EncodeRune_DecodeRune [OF assms n] by (auto simp: rw escape_rune_def)
    moreover have "DecodeRune (c # take (w - 1) cs @ t) = (r, Suc (length (take (w - 1) cs)))"
      using DecodeRune_take [OF assms n, of t] w by (simp add: rw tk) (simp add: s)
    ultimately show ?thesis using scan_plain [of c "take (w - 1) cs" t r] hi by (simp add: tk rw)
  qed
qed

lemma scan_escaped:
  "scan_string (concat (map escape_rune (decode s)) @ CHR 0x22 # k) = Some (concat (map EncodeRune (runes s)), k)"
proof (induction s rule: decode_induct)
  case Nil
  then show ?case by (simp add: byte_consts)
next
  case (step s)
  then show ?case
    by (simp add: decode_nonempty [OF step(1)] runes_def scan_escape_rune del: scan_string.simps)
qed

lemma quote_Cons: "quote s @ k = CHR 0x22 # concat (map escape_rune (decode s)) @ CHR 0x22 # k"
  by (simp add: quote_def)

lemma scan_quoted: "valid_utf8 s \<Longrightarrow> scan_string (tl (quote s @ k)) = Some (s, k)"
  by (simp add: quote_Cons scan_escaped encode_runes del: scan_string.simps)

section \<open>Scanning a number followed by something else\<close>

definition stops_number :: "string \<Rightarrow> bool" where
  "stops_number k \<longleftrightarrow> (case k of [] \<Rightarrow> True | c # _ \<Rightarrow> \<not> digit c \<and> byte c \<noteq> 46 \<and> byte c \<noteq> 69 \<and> byte c \<noteq> 101)"

lemma stops_number_simps [simp]: "stops_number []" "stops_number (CHR '','' # k)" "stops_number (CHR '']'' # k)" "stops_number (CHR ''}'' # k)"
  "stops_number (CHR 0x0A # k)"
  by (simp_all add: stops_number_def digit_def byte_def)

lemma takeWhile_ends: "stops_number k \<Longrightarrow> takeWhile digit k = [] \<and> dropWhile digit k = k"
  by (cases k) (simp_all add: stops_number_def)

lemma scan_digits_append:
  assumes "scan_digits s = Some (t, r)" and "stops_number k"
  shows "scan_digits (s @ k) = Some (t, r @ k)"
proof (cases "\<forall>c \<in> set s. digit c")
  case True
  then have tw: "takeWhile digit s = s" "dropWhile digit s = []" by (simp_all add: takeWhile_eq_all_conv)
  then have "s \<noteq> []" "t = s" "r = []" using assms(1) by (simp_all add: scan_digits_def tw split: if_splits)
  with True show ?thesis
    using takeWhile_ends [OF assms(2)] by (simp add: scan_digits_def takeWhile_append dropWhile_append tw)
next
  case False
  then obtain c where "c \<in> set s" "\<not> digit c" by blast
  with assms(1) show ?thesis by (auto simp: scan_digits_def split: if_splits)
qed

lemma scan_int_append: "scan_int s = Some (t, r) \<Longrightarrow> stops_number k \<Longrightarrow> scan_int (s @ k) = Some (t, r @ k)"
  using scan_digits_append [of s t r k] by (cases s) (auto simp: scan_int_def split: if_splits)

lemma scan_frac_append: "scan_frac s = Some (t, r) \<Longrightarrow> stops_number k \<Longrightarrow> scan_frac (s @ k) = Some (t, r @ k)"
  by (cases s; cases k) (auto simp: scan_frac_def stops_number_def split: if_splits dest: scan_digits_append [where k = k])

lemma scan_exp_append: "scan_exp s = Some (t, r) \<Longrightarrow> stops_number k \<Longrightarrow> scan_exp (s @ k) = Some (t, r @ k)"
proof (cases s)
  case Nil
  then show "scan_exp s = Some (t, r) \<Longrightarrow> stops_number k \<Longrightarrow> ?thesis"
    by (cases k) (auto simp: scan_exp_def stops_number_def)
next
  case (Cons c cs)
  assume "scan_exp s = Some (t, r)" "stops_number k"
  then show ?thesis
    by (auto simp: Cons scan_exp_def split: list.splits if_splits dest: scan_digits_append [where k = k])
qed

lemma scan_number_append:
  assumes "scan_number s = Some (t, r)" and "stops_number k"
  shows "scan_number (s @ k) = Some (t, r @ k)"
proof -
  define sign where "sign s = (case s of c # _ \<Rightarrow> if byte c = 45 then [c] else [] | [] \<Rightarrow> [])" for s
  have def: "scan_number u = Option.bind (scan_int (drop (length (sign u)) u)) (\<lambda>(i, s1).
      Option.bind (scan_frac s1) (\<lambda>(f, s2).
      Option.bind (scan_exp s2) (\<lambda>(e, s3). Some (sign u @ i @ f @ e, s3))))" for u
    unfolding scan_number_def sign_def Let_def ..
  obtain i s1 f s2 e where
    1: "scan_int (drop (length (sign s)) s) = Some (i, s1)" "scan_frac s1 = Some (f, s2)"
       "scan_exp s2 = Some (e, r)" "t = sign s @ i @ f @ e"
    using assms(1) unfolding def by (auto simp: Option.bind_eq_Some_conv)
  then obtain c cs where s: "s = c # cs" by (cases s) (auto simp: scan_int_def)
  then have "sign (s @ k) = sign s" "length (sign s) \<le> length s" by (simp_all add: sign_def)
  then show ?thesis
    using scan_int_append [OF 1(1) assms(2)] scan_frac_append [OF 1(2) assms(2)] scan_exp_append [OF 1(3) assms(2)]
    by (simp add: def 1(4))
qed

lemma number_hd: "scan_number n = Some (n, []) \<Longrightarrow> \<exists>c cs. n = c # cs \<and> (byte c = 45 \<or> digit c)"
proof -
  assume a: "scan_number n = Some (n, [])"
  then obtain c cs where n: "n = c # cs" using scan_number_eq by (cases n) blast+
  have "byte c = 45 \<or> digit c" if "scan_int (c # cs) = Some p" for p
    using that by (auto simp: scan_int_def scan_digits_def digit_def split: if_splits)
  then show ?thesis using a by (auto simp: n scan_number_def Let_def Option.bind_eq_Some_conv split: if_splits)
qed

section \<open>The round trip\<close>

lemma marshal_hd:
  assumes "printable v"
  shows "\<exists>c cs. marshal v = c # cs \<and> \<not> json_space c \<and> byte c \<noteq> 93"
proof (cases v)
  case (JNum n)
  then show ?thesis using number_hd [of n] assms by (auto simp: json_space_def digit_def)
qed (auto simp: json_space_def byte_def quote_def)

lemma skip_ws_marshal: "printable v \<Longrightarrow> skip_ws (marshal v @ k) = marshal v @ k"
  using marshal_hd [of v] by (auto simp: skip_ws_def)

lemma literal_append: "literal w v (w @ k) = Some (v, k)"
  by (simp add: literal_def)

lemma nesting_elem: "v \<in> set vs \<Longrightarrow> nesting v < nesting (JArr vs)"
  by (simp add: less_Suc_eq_le)

lemma nesting_member: "(k, v) \<in> set ms \<Longrightarrow> nesting v < nesting (JObj ms)"
  by (simp add: less_Suc_eq_le) (rule Max_ge; force)

lemma quote_bytes: "marshal (JStr s) @ k = CHR 0x22 # tl (quote s @ k)"
  by (simp add: quote_def)

lemma punctuation: "byte CHR ''['' = 91" "byte CHR '']'' = 93" "byte CHR ''{'' = 123" "byte CHR ''}'' = 125"
  "byte CHR '','' = 44" "byte CHR '':'' = 58" "byte CHR ''n'' = 110" "byte CHR ''t'' = 116" "byte CHR ''f'' = 102"
  by (simp_all add: byte_def)

lemma skip_punct [simp]: "skip_ws (CHR ''['' # k) = CHR ''['' # k" "skip_ws (CHR '']'' # k) = CHR '']'' # k"
  "skip_ws (CHR ''{'' # k) = CHR ''{'' # k" "skip_ws (CHR ''}'' # k) = CHR ''}'' # k"
  "skip_ws (CHR '','' # k) = CHR '','' # k" "skip_ws (CHR '':'' # k) = CHR '':'' # k"
  "skip_ws (CHR 0x22 # k) = CHR 0x22 # k"
  by (simp_all add: skip_ws_def json_space_def byte_def)

text \<open>The scalars.\<close>

lemma jvalue_scalar:
  assumes "printable v" and "stops_number k" and "\<And>vs. v \<noteq> JArr vs" and "\<And>ms. v \<noteq> JObj ms"
  shows "jvalue (Suc n) d (marshal v @ k) = Some (v, k)"
proof (cases v)
  case JNull
  then show ?thesis
    using skip_ws_marshal [of v k] assms(1) literal_append [of "''null''" JNull k] by (simp add: punctuation digit_def)
next
  case (JBool b)
  then show ?thesis
    using skip_ws_marshal [of v k] assms(1) literal_append [of "''true''" "JBool True" k]
      literal_append [of "''false''" "JBool False" k] by (simp add: punctuation digit_def)
next
  case (JNum x)
  then have "scan_number x = Some (x, [])" using assms(1) by simp
  from number_hd [OF this] obtain c cs where x: "x = c # cs" "byte c = 45 \<or> digit c" by blast
  have n: "scan_number (x @ k) = Some (x, k)" using scan_number_append [of x x "[]" k] assms(1,2) JNum by simp
  have b: "byte c \<noteq> 34" "byte c \<noteq> 91" "byte c \<noteq> 123" using x(2) by (auto simp: digit_def)
  have "skip_ws (x @ k) = c # cs @ k" using skip_ws_marshal [of v k] assms(1) by (simp add: JNum x(1))
  then show ?thesis using n x b by (simp add: JNum)
next
  case (JStr s)
  have "skip_ws (CHR 0x22 # tl (quote s @ k)) = CHR 0x22 # tl (quote s @ k)" by simp
  then show ?thesis
    using scan_quoted [of s k] assms(1) by (simp only: JStr quote_bytes jvalue.simps list.case byte_consts printable.simps) simp
qed (use assms in auto)

lemma jvalue_scalar_fuel:
  "0 < n \<Longrightarrow> printable v \<Longrightarrow> stops_number k \<Longrightarrow> (\<And>vs. v \<noteq> JArr vs) \<Longrightarrow> (\<And>ms. v \<noteq> JObj ms)
    \<Longrightarrow> jvalue n d (marshal v @ k) = Some (v, k)"
  using jvalue_scalar [of v k "n - 1" d] by simp

lemma marshal_parse:
  "printable v \<Longrightarrow> stops_number k \<Longrightarrow> d + int (nesting v) \<le> 10000 \<Longrightarrow> 2 * length (marshal v @ k) < n \<Longrightarrow>
     jvalue n d (marshal v @ k) = Some (v, k)"
  "vs \<noteq> [] \<Longrightarrow> list_all printable vs \<Longrightarrow> (\<And>v. v \<in> set vs \<Longrightarrow> d + int (nesting v) \<le> 10000) \<Longrightarrow>
     2 * length (marshal_elems vs @ k) + 1 < n \<Longrightarrow> jelems n d (marshal_elems vs @ k) = Some (vs, k)"
  "ms \<noteq> [] \<Longrightarrow> list_all (\<lambda>(k, v). valid_utf8 k \<and> printable v) ms \<Longrightarrow>
     (\<And>q v. (q, v) \<in> set ms \<Longrightarrow> d + int (nesting v) \<le> 10000) \<Longrightarrow>
     2 * length (marshal_members ms @ k) + 1 < n \<Longrightarrow> jmembers n d (marshal_members ms @ k) = Some (ms, k)"
proof (induction v and vs and ms arbitrary: n d k and n d k and n d k
       rule: marshal_marshal_elems_marshal_members.induct)
  case 1
  then show ?case by (intro jvalue_scalar_fuel) simp_all
next
  case (2 b)
  then show ?case by (intro jvalue_scalar_fuel) simp_all
next
  case (3 x)
  then show ?case by (intro jvalue_scalar_fuel) simp_all
next
  case (4 x)
  then show ?case by (intro jvalue_scalar_fuel) simp_all
next
  case (5 vs)
  obtain m where m: "n = Suc m" using 5(5) by (cases n) auto
  show ?case
  proof (cases "vs = []")
    case True
    then show ?thesis using 5(4) by (simp add: m punctuation)
  next
    case False
    then obtain v vs' where vs: "vs = v # vs'" by (cases vs) auto
    obtain c cs where c: "marshal v = c # cs" "\<not> json_space c" "byte c \<noteq> 93"
      using marshal_hd [of v] 5(2) by (auto simp: vs)
    have d: "d < 10000" using 5(4) by simp
    have "jelems m (d + 1) (marshal_elems vs @ k) = Some (vs, k)"
      using 5(2,4,5) nesting_elem [of _ vs] by (intro 5(1)) (fastforce simp: m False)+
    moreover have "\<exists>rest. skip_ws (marshal_elems vs @ k) = c # rest" using c by (simp add: vs skip_ws_def)
    ultimately show ?thesis using c(3) d by (auto simp: m False punctuation)
  qed
next
  case (6 ms)
  obtain m where m: "n = Suc m" using 6(5) by (cases n) auto
  show ?case
  proof (cases "ms = []")
    case True
    then show ?thesis using 6(4) by (simp add: m punctuation)
  next
    case False
    then obtain q v ms' where ms: "ms = (q, v) # ms'" by (cases ms) auto
    have d: "d < 10000" using 6(4) by simp
    have "jmembers m (d + 1) (marshal_members ms @ k) = Some (ms, k)"
      using 6(2,4,5) nesting_member [of _ _ ms] by (intro 6(1)) (fastforce simp: m False)+
    moreover have "\<exists>rest. skip_ws (marshal_members ms @ k) = CHR 0x22 # rest" by (simp add: ms quote_def)
    ultimately show ?thesis using d by (auto simp: m False punctuation byte_consts)
  qed
next
  case (8 v vs)
  obtain m where m: "n = Suc m" using 8(6) by (cases n) auto
  show ?case
  proof (cases "vs = []")
    case True
    have "jvalue m d (marshal v @ CHR '']'' # k) = Some (v, CHR '']'' # k)"
      using 8(4,5,6) by (intro 8(1)) (auto simp: m True)
    then show ?thesis by (simp add: m True punctuation)
  next
    case False
    have "jvalue m d (marshal v @ CHR '','' # marshal_elems vs @ k) = Some (v, CHR '','' # marshal_elems vs @ k)"
      using 8(4,5,6) by (intro 8(1)) (auto simp: m False)
    moreover have "jelems m d (marshal_elems vs @ k) = Some (vs, k)"
      using 8(4,5,6) by (intro 8(2)) (auto simp: m False)
    ultimately show ?thesis by (simp add: m False punctuation)
  qed
next
  case (10 q v ms)
  obtain m where m: "n = Suc m" using 10(6) by (cases n) auto
  define rest where "rest = (if ms = [] then CHR ''}'' # k else CHR '','' # marshal_members ms @ k)"
  have s: "marshal_members ((q, v) # ms) @ k = quote q @ CHR '':'' # marshal v @ rest"
    by (simp add: rest_def)
  have q: "quote q @ t = CHR 0x22 # tl (quote q @ t)" for t by (simp add: quote_def)
  have sc: "scan_string (tl (quote q @ CHR '':'' # marshal v @ rest)) = Some (q, CHR '':'' # marshal v @ rest)"
    using 10(4) by (simp add: scan_quoted)
  have v: "jvalue m d (marshal v @ rest) = Some (v, rest)"
    using 10(4,5,6) by (intro 10(1)) (auto simp: m rest_def)
  have r: "jmembers m d (marshal_members ms @ k) = Some (ms, k)" if "ms \<noteq> []"
    using 10(4,5,6) that by (intro 10(2)) (auto simp: m)
  have "skip_ws (quote q @ t) = CHR 0x22 # tl (quote q @ t)" for t by (subst q) simp
  then show ?case unfolding s m using sc v r by (simp add: punctuation byte_consts rest_def)
qed simp_all

lemma Decode_marshal:
  "printable v \<Longrightarrow> stops_number k \<Longrightarrow> nesting v \<le> 10000 \<Longrightarrow> Decode (marshal v @ k) = Some (v, k)"
  unfolding Decode_def by (rule marshal_parse(1)) simp_all

section \<open>Maps\<close>

text \<open>\<open>Marshal\<close> of a value whose objects are Go maps: at every level the keys are sorted by their bytes.\<close>

fun sort_maps :: "json \<Rightarrow> json" where
  "sort_maps (JArr vs) = JArr (map sort_maps vs)"
| "sort_maps (JObj ms) = JObj (sort_key fst (map (\<lambda>(k, v). (k, sort_maps v)) ms))"
| "sort_maps v = v"

definition Marshal :: "json \<Rightarrow> string" where
  "Marshal v = marshal (sort_maps v)"

lemma printable_sort_maps: "printable v \<Longrightarrow> printable (sort_maps v)"
proof (induction v rule: sort_maps.induct)
  case (2 ms)
  then show ?case by (fastforce simp: list_all_iff)
qed (auto simp: list_all_iff)

lemma nesting_sort_maps: "nesting (sort_maps v) = nesting v"
proof (induction v rule: sort_maps.induct)
  case (1 vs)
  then have "map (nesting \<circ> sort_maps) vs = map nesting vs" by simp
  then show ?case by (simp add: image_comp [symmetric])
next
  case (2 ms)
  have "(\<lambda>x. nesting (snd (case x of (k, v) \<Rightarrow> (k, sort_maps v)))) ` set ms = (\<lambda>x. nesting (snd x)) ` set ms"
    by (rule image_cong) (use 2 in \<open>auto\<close>)
  then show ?case by (simp add: image_image)
qed simp_all

lemma marshal_members_end: "ms \<noteq> [] \<Longrightarrow> \<exists>l. marshal_members ms = l @ ''}''"
proof (induction ms)
  case (Cons m ms)
  obtain k v where m: "m = (k, v)" by fastforce
  show ?case
  proof (cases "ms = []")
    case False
    then obtain l where "marshal_members ms = l @ ''}''" using Cons.IH by blast
    then have "marshal_members (m # ms) = (quote k @ CHR '':'' # marshal v @ CHR '','' # l) @ ''}''"
      using False by (simp add: m)
    then show ?thesis by blast
  qed (simp add: m)
qed simp

lemma Unmarshal_Marshal:
  assumes "printable v" and "nesting v \<le> 10000"
  shows "Unmarshal (Marshal v) = Some (sort_maps v)" "Decode (Marshal v) = Some (sort_maps v, [])"
proof -
  show "Decode (Marshal v) = Some (sort_maps v, [])"
    using Decode_marshal [OF printable_sort_maps [OF assms(1)], of "[]"] assms(2)
    by (simp add: Marshal_def nesting_sort_maps)
  then show "Unmarshal (Marshal v) = Some (sort_maps v)" by (simp add: Unmarshal_def skip_ws_def)
qed

section \<open>Integers\<close>

text \<open>The decimal form of an \<open>int64\<close>, which is a number of JSON.\<close>

definition FormatInt :: "64 word \<Rightarrow> string" where
  "FormatInt n = (if sint n < 0 then CHR ''-'' # decimal (nat (- sint n)) else decimal (nat (sint n)))"

lemma decimal_digits: "list_all digit (decimal n)"
proof (induction n rule: decimal.induct)
  case (1 n)
  have "digit (char_of (48 + m))" if "m < 10" for m :: nat
    using that by (simp add: digit_def byte_def take_bit_nat_eq_self)
  then show ?case using 1 by (subst decimal.simps) (auto simp del: of_char_of)
qed

lemma decimal_hd: "\<exists>c cs. decimal n = c # cs \<and> (0 < n \<longrightarrow> byte c \<noteq> 48) \<and> (n = 0 \<longrightarrow> cs = [])"
proof (induction n rule: decimal.induct)
  case (1 n)
  show ?case
  proof (cases "n < 10")
    case True
    then show ?thesis by (subst decimal.simps) (auto simp: byte_def)
  next
    case False
    then show ?thesis using 1 by (subst decimal.simps) auto
  qed
qed

lemma scan_decimal: "scan_int (decimal n) = Some (decimal n, [])"
proof -
  obtain c cs where d: "decimal n = c # cs" "0 < n \<longrightarrow> byte c \<noteq> 48" "n = 0 \<longrightarrow> cs = []"
    using decimal_hd [of n] by (elim exE conjE) blast
  have "takeWhile digit (decimal n) = decimal n" "dropWhile digit (decimal n) = []"
    using decimal_digits [of n] by (simp_all add: list_all_iff takeWhile_eq_all_conv)
  then show ?thesis using d by (auto simp: scan_int_def scan_digits_def)
qed

lemma scan_FormatInt: "scan_number (FormatInt n) = Some (FormatInt n, [])"
proof -
  have "byte c \<noteq> 45" if "decimal m = c # cs" for m c cs
    using decimal_digits [of m] that by (auto simp: digit_def)
  moreover obtain c cs where "decimal (nat (sint n)) = c # cs" using decimal_hd [of "nat (sint n)"] by blast
  moreover have "scan_frac [] = Some ([], [])" "scan_exp [] = Some ([], [])" by (simp_all add: scan_frac_def scan_exp_def)
  ultimately show ?thesis
    using scan_decimal [of "nat (sint n)"] scan_decimal [of "nat (- sint n)"]
    by (auto simp: scan_number_def FormatInt_def byte_def)
qed

end
