(* ===== verification/Mockoidc.thy ===== *)
theory Mockoidc
  imports JsonPrint Identity Base64
begin

text \<open>
  \<open>internal/mockoidc/mockoidc.go\<close>: the OIDC provider of the tests, which keeps RSA keys, mints
  tokens and serves the discovery document and the key set.

  The state is the URL of the HTTP server and the keys; the mutex makes every method one step. RSA
  and SHA-256 are parameters. A \<open>t.Fatalf\<close>, which ends the test, is an error of the operation, and
  so is the panic of an index into no keys.
\<close>

section \<open>The state\<close>

record 'priv key =
  kid :: string
  priv :: 'priv

record 'priv Server =
  httpSrv_URL :: string
  keys :: "'priv key list"

datatype mock_error =
    GenerateRSAKey string
  | NoKeyWithKid string
  | SignToken string
  | IndexOutOfRange

definition addKeyLocked :: "string + 'priv \<Rightarrow> string \<Rightarrow> 'priv Server \<Rightarrow> mock_error + 'priv Server" where
  "addKeyLocked generated k s =
     (case generated of
        Inl e \<Rightarrow> Inl (GenerateRSAKey e)
      | Inr p \<Rightarrow> Inr (s\<lparr>keys := keys s @ [\<lparr>kid = k, priv = p\<rparr>]\<rparr>))"

definition Mock_New :: "string + 'priv \<Rightarrow> string \<Rightarrow> mock_error + 'priv Server" where
  "Mock_New generated url =
     (case addKeyLocked generated ''key-1'' \<lparr>httpSrv_URL = [], keys = []\<rparr> of
        Inl e \<Rightarrow> Inl e
      | Inr s \<Rightarrow> Inr (s\<lparr>httpSrv_URL := url\<rparr>))"

definition Mock_Issuer :: "'priv Server \<Rightarrow> string" where
  "Mock_Issuer s = httpSrv_URL s"

definition AddKey :: "string + 'priv \<Rightarrow> string \<Rightarrow> 'priv Server \<Rightarrow> mock_error + string \<times> 'priv Server" where
  "AddKey generated k s =
     (case addKeyLocked generated k s of Inl e \<Rightarrow> Inl e | Inr s' \<Rightarrow> Inr (k, s'))"

text \<open>The loop over the keys: the first index with the key identifier.\<close>

fun key_index :: "string \<Rightarrow> 'priv key list \<Rightarrow> nat option" where
  "key_index k [] = None"
| "key_index k (x # xs) = (if kid x = k then Some 0 else map_option Suc (key_index k xs))"

definition SetDefaultKey :: "string \<Rightarrow> 'priv Server \<Rightarrow> 'priv Server" where
  "SetDefaultKey k s =
     (case key_index k (keys s) of
        None \<Rightarrow> s
      | Some i \<Rightarrow> s\<lparr>keys := (keys s)[0 := keys s ! i, i := keys s ! 0]\<rparr>)"

definition findKey :: "string \<Rightarrow> 'priv Server \<Rightarrow> mock_error + 'priv key" where
  "findKey k s = (case find (\<lambda>x. kid x = k) (keys s) of None \<Rightarrow> Inl (NoKeyWithKid k) | Some x \<Rightarrow> Inr x)"

section \<open>Minting\<close>

text \<open>A nil slice of audiences is \<open>None\<close>; the values of the extra claims are given as JSON.\<close>

record TokenOptions =
  opt_Subject :: string
  opt_Audience :: "string list option"
  opt_AWSAccount :: string
  opt_OrgID :: string
  opt_PrincipalTags :: "string gomap"
  opt_IssuedAt :: time
  opt_NotBefore :: time
  opt_Expiry :: time
  opt_ExtraClaims :: "json gomap"
  opt_IssuerOverride :: string
  opt_KidOverride :: string
  opt_SignWithKid :: string

definition IsZero :: "time \<Rightarrow> bool" where
  "IsZero t \<longleftrightarrow> t = 0"

text \<open>\<open>UnixNano\<close>, which wraps for times outside of about 1678 to 2262.\<close>

definition UnixNano :: "time \<Rightarrow> 64 word" where
  "UnixNano t = word_of_int (t - 62135596800 * 1000000000)"

definition strconvI :: "64 word \<Rightarrow> string" where
  "strconvI n = FormatInt n"

definition json_strings :: "string list option \<Rightarrow> json" where
  "json_strings a = (case a of None \<Rightarrow> JNull | Some ss \<Rightarrow> JArr (map JStr ss))"

definition namespace_claims :: "TokenOptions \<Rightarrow> json gomap" where
  "namespace_claims opts =
     (let ns0 = (if opt_AWSAccount opts \<noteq> [] then [(''aws_account'', JStr (opt_AWSAccount opts))] else []);
          ns1 = (if opt_OrgID opts \<noteq> [] then AList.update ''org_id'' (JStr (opt_OrgID opts)) ns0 else ns0) in
      if opt_PrincipalTags opts \<noteq> []
      then AList.update ''principal_tags'' (JObj (map (\<lambda>(k, v). (k, JStr v)) (opt_PrincipalTags opts))) ns1
      else ns1)"

definition minted_expiry :: "time \<Rightarrow> TokenOptions \<Rightarrow> time" where
  "minted_expiry now opts = (if IsZero (opt_Expiry opts) then Add now (5 * Minute) else opt_Expiry opts)"

definition minted_issued_at :: "time \<Rightarrow> TokenOptions \<Rightarrow> time" where
  "minted_issued_at now opts = (if IsZero (opt_IssuedAt opts) then now else opt_IssuedAt opts)"

definition minted_issuer :: "'priv Server \<Rightarrow> TokenOptions \<Rightarrow> string" where
  "minted_issuer s opts = (if opt_IssuerOverride opts \<noteq> [] then opt_IssuerOverride opts else httpSrv_URL s)"

definition mint_claims :: "time \<Rightarrow> 'priv Server \<Rightarrow> TokenOptions \<Rightarrow> json gomap" where
  "mint_claims now s opts =
     (let iat = minted_issued_at now opts;
          c0 = fold store_member (opt_ExtraClaims opts) [];
          c1 = fold store_member
                 [(''iss'', JStr (minted_issuer s opts)),
                  (''sub'', JStr (opt_Subject opts)),
                  (''aud'', json_strings (opt_Audience opts)),
                  (''iat'', JNum (FormatInt (Unix iat))),
                  (''exp'', JNum (FormatInt (Unix (minted_expiry now opts)))),
                  (''jti'', JStr (opt_Subject opts @ ''-'' @ strconvI (UnixNano iat)))] c0;
          c2 = (if \<not> IsZero (opt_NotBefore opts)
                then AList.update ''nbf'' (JNum (FormatInt (Unix (opt_NotBefore opts)))) c1 else c1);
          ns = namespace_claims opts in
      if ns \<noteq> [] then AList.update Namespace (JObj ns) c2 else c2)"

definition encodeSegment :: "json \<Rightarrow> string" where
  "encodeSegment v = RawURL_EncodeToString (Marshal v)"

definition Mint ::
  "(string \<Rightarrow> string) \<Rightarrow> ('priv \<Rightarrow> string \<Rightarrow> string + string) \<Rightarrow> time \<Rightarrow> 'priv Server \<Rightarrow> TokenOptions
   \<Rightarrow> mock_error + string" where
  "Mint sha256 sign now s opts =
     (if keys s = [] then Inl IndexOutOfRange
      else
        (case (if opt_SignWithKid opts \<noteq> [] then findKey (opt_SignWithKid opts) s else Inr (hd (keys s))) of
           Inl e \<Rightarrow> Inl e
         | Inr signer \<Rightarrow>
             (let k = (if opt_KidOverride opts \<noteq> [] then opt_KidOverride opts else kid signer);
                  header = JObj [(''alg'', JStr ''RS256''), (''typ'', JStr ''JWT''), (''kid'', JStr k)];
                  signingInput = encodeSegment header @ ''.'' @ encodeSegment (JObj (mint_claims now s opts)) in
              case sign (priv signer) (sha256 signingInput) of
                Inl e \<Rightarrow> Inl (SignToken e)
              | Inr sig \<Rightarrow> Inr (signingInput @ ''.'' @ RawURL_EncodeToString sig))))"

section \<open>The documents served\<close>

text \<open>\<open>json.Encoder.Encode\<close> ends the value with a newline.\<close>

definition writeJSON :: "json \<Rightarrow> string" where
  "writeJSON v = Marshal v @ [CHR 0x0A]"

definition handleDiscovery :: "'priv Server \<Rightarrow> string" where
  "handleDiscovery s =
     writeJSON (JObj
       [(''issuer'', JStr (httpSrv_URL s)),
        (''jwks_uri'', JStr (httpSrv_URL s @ ''/.well-known/jwks.json'')),
        (''authorization_endpoint'', JStr (httpSrv_URL s @ ''/authorize'')),
        (''token_endpoint'', JStr (httpSrv_URL s @ ''/token'')),
        (''response_types_supported'', JArr [JStr ''id_token'']),
        (''subject_types_supported'', JArr [JStr ''public'']),
        (''id_token_signing_alg_values_supported'', JArr [JStr ''RS256'', JStr ''ES384''])])"

text \<open>The eight bytes of the exponent, and the loop that drops leading zeros but the last byte.\<close>

definition PutUint64 :: "64 word \<Rightarrow> string" where
  "PutUint64 e = map (\<lambda>i. char_of (unat (drop_bit (56 - 8 * i) e))) [0..<8]"

fun drop_zeros :: "string \<Rightarrow> string" where
  "drop_zeros b = (case b of x # y # t \<Rightarrow> if byte x = 0 then drop_zeros (y # t) else b | _ \<Rightarrow> b)"

declare drop_zeros.simps [simp del]

definition encodeExponent :: "64 word \<Rightarrow> string" where
  "encodeExponent e = drop_zeros (PutUint64 e)"

text \<open>The public part of a key: the bytes of the modulus and the exponent.\<close>

definition jwk :: "('priv \<Rightarrow> string \<times> 64 word) \<Rightarrow> 'priv key \<Rightarrow> json" where
  "jwk public k =
     JObj [(''kty'', JStr ''RSA''), (''use'', JStr ''sig''), (''alg'', JStr ''RS256''), (''kid'', JStr (kid k)),
           (''n'', JStr (RawURL_EncodeToString (fst (public (priv k))))),
           (''e'', JStr (RawURL_EncodeToString (encodeExponent (snd (public (priv k))))))]"

definition handleJWKS :: "('priv \<Rightarrow> string \<times> 64 word) \<Rightarrow> 'priv Server \<Rightarrow> string" where
  "handleJWKS public s = writeJSON (JObj [(''keys'', JArr (map (jwk public) (keys s)))])"

end
