(* ===== verification/MockoidcProps.thy ===== *)
theory MockoidcProps
  imports Mockoidc AwsAuth VerifierProps
begin

text \<open>
  What the mock OIDC provider promises, together with the code that reads its tokens: the segments
  decode to what was encoded whatever order Go visits its maps in, a minted token shows the
  verifier its issuer and the AWS token source its expiry and audience, its AWS claims are the ones
  \<open>Parse\<close> finds, and the key that signed a token is in the served key set.
\<close>

section \<open>Segments\<close>

lemma sort_key_order:
  assumes "go_map ms" and "mset ms = mset ms'"
  shows "sort_key fst ms = sort_key fst ms'"
proof (rule sort_key_inj_key_eq)
  show "mset ms = mset (sort_key fst ms')" using assms(2) by simp
  show "inj_on fst (set ms)" using assms(1) by (simp add: go_map_def distinct_map)
  show "sorted (map fst (sort_key fst ms'))" by simp
qed

lemma sort_maps_order:
  assumes "go_map ms" and "mset ms = mset ms'"
  shows "sort_maps (JObj ms) = sort_maps (JObj ms')"
proof -
  let ?f = "\<lambda>(k, v). (k, sort_maps v)"
  have "map fst (map ?f ms) = map fst ms" by (simp add: comp_def case_prod_unfold)
  then have "go_map (map ?f ms)" using assms(1) by (simp only: go_map_def)
  moreover have "mset (map ?f ms) = mset (map ?f ms')" using assms(2) by simp
  ultimately show ?thesis using sort_key_order by (simp add: sort_key_order)
qed

text \<open>
  A segment decodes to the value it encodes. For a value with valid strings and numbers that is
  not nested deeper than the decoder allows, decoding the segment and parsing it gives back the
  value with the members of its objects sorted; and the segment of an object does not depend on the
  order its map is listed in.
\<close>

theorem segment_roundtrip:
  assumes "printable v" and "nesting v \<le> 10000"
  shows "Option.bind (RawURL_DecodeString (encodeSegment v)) Unmarshal = Some (sort_maps v)
    \<and> (\<forall>ms ms'. v = JObj ms \<longrightarrow> go_map ms \<longrightarrow> mset ms = mset ms' \<longrightarrow> encodeSegment (JObj ms') = encodeSegment v)"
proof
  show "Option.bind (RawURL_DecodeString (encodeSegment v)) Unmarshal = Some (sort_maps v)"
    using Unmarshal_Marshal(1) [OF assms] by (simp add: encodeSegment_def base64_roundtrip)
  show "\<forall>ms ms'. v = JObj ms \<longrightarrow> go_map ms \<longrightarrow> mset ms = mset ms' \<longrightarrow> encodeSegment (JObj ms') = encodeSegment v"
    using sort_maps_order unfolding encodeSegment_def Marshal_def by metis
qed

theorem segment_roundtrip_witness:
  "Option.bind (RawURL_DecodeString (encodeSegment (JObj [(''sub'', JStr ''a\"b''), (''aud'', JArr [JStr ''n'', JNull])]))) Unmarshal
     = Some (JObj [(''aud'', JArr [JStr ''n'', JNull]), (''sub'', JStr ''a\"b'')])"
proof -
  let ?v = "JObj [(''sub'', JStr ''a\"b''), (''aud'', JArr [JStr ''n'', JNull])]"
  have "printable ?v" by code_simp
  moreover have "nesting ?v \<le> 10000" by simp
  moreover have "sort_maps ?v = JObj [(''aud'', JArr [JStr ''n'', JNull]), (''sub'', JStr ''a\"b'')]" by code_simp
  ultimately show ?thesis using segment_roundtrip by metis
qed

section \<open>The exponent of a key\<close>

definition big_endian :: "string \<Rightarrow> nat" where
  "big_endian b = foldl (\<lambda>n c. 256 * n + byte c) 0 b"

lemma big_endian_zero: "byte x = 0 \<Longrightarrow> big_endian (x # b) = big_endian b"
  by (simp add: big_endian_def)

lemma big_endian_ge: "m \<le> foldl (\<lambda>n c. 256 * n + byte c) m b"
proof (induction b arbitrary: m)
  case (Cons a b)
  have "m \<le> 256 * m + byte a" by simp
  also have "\<dots> \<le> foldl (\<lambda>n c. 256 * n + byte c) m (a # b)" using Cons.IH by simp
  finally show ?case .
qed simp

lemma drop_zeros_value: "big_endian (drop_zeros b) = big_endian b"
proof (induction b rule: drop_zeros.induct)
  case (1 b)
  then show ?case
    by (subst drop_zeros.simps) (auto simp: big_endian_zero split: list.split)
qed

lemma drop_zeros_head: "b \<noteq> [] \<Longrightarrow> drop_zeros b \<noteq> [] \<and> (byte (hd (drop_zeros b)) = 0 \<longrightarrow> length (drop_zeros b) = 1)"
proof (induction b rule: drop_zeros.induct)
  case (1 b)
  then show ?case
    by (subst (1 2 3) drop_zeros.simps) (auto split: list.split)
qed

lemma big_endian_prefix:
  assumes "j \<le> 8"
  shows "big_endian (map (\<lambda>i. char_of (unat (drop_bit (56 - 8 * i) e))) [0..<j]) = unat (e :: 64 word) div 2 ^ (64 - 8 * j)"
  using assms
proof (induction j)
  case 0
  have "unat e < 2 ^ 64" using unsigned_less [of e] by simp
  then show ?case by (simp add: big_endian_def)
next
  case (Suc j)
  have b: "byte (char_of (unat (drop_bit n e))) = unat e div 2 ^ n mod 256" for n
    by (simp add: byte_def unat_drop_bit_eq) (simp add: drop_bit_eq_div)
  have x: "(2 :: nat) ^ (64 - 8 * j) = 2 ^ (56 - 8 * j) * 256"
  proof -
    have "64 - 8 * j = (56 - 8 * j) + 8" using Suc.prems by simp
    then show ?thesis by (simp only: power_add) simp
  qed
  have "256 * (unat e div 2 ^ (64 - 8 * j)) + unat e div 2 ^ (56 - 8 * j) mod 256 = unat e div 2 ^ (56 - 8 * j)"
    unfolding x div_mult2_eq by simp
  moreover have "64 - 8 * Suc j = 56 - 8 * j" by simp
  ultimately show ?case using Suc by (simp add: big_endian_def b)
qed

lemma big_endian_PutUint64: "big_endian (PutUint64 e) = unat e"
  using big_endian_prefix [of 8 e] by (simp add: PutUint64_def)

text \<open>
  The exponent of a key is written as a JWK wants it: the bytes read back, most significant first,
  give the exponent, there is at least one byte and at most eight, and there is no leading zero
  byte except for the exponent zero.
\<close>

theorem exponent_minimal:
  "big_endian (encodeExponent e) = unat e
   \<and> 1 \<le> length (encodeExponent e) \<and> length (encodeExponent e) \<le> 8
   \<and> (byte (hd (encodeExponent e)) = 0 \<longleftrightarrow> e = 0)"
proof (intro conjI iffI)
  have n: "PutUint64 e \<noteq> []" "length (PutUint64 e) = 8" by (simp_all add: PutUint64_def)
  have l: "length (drop_zeros b) \<le> length b" for b
  proof (induction b rule: drop_zeros.induct)
    case (1 b)
    then show ?case by (subst drop_zeros.simps) (fastforce split: list.split)
  qed
  show v: "big_endian (encodeExponent e) = unat e"
    by (simp add: encodeExponent_def drop_zeros_value big_endian_PutUint64)
  note h = drop_zeros_head [OF n(1)]
  show "1 \<le> length (encodeExponent e)" using h by (simp add: encodeExponent_def Suc_le_eq)
  show "length (encodeExponent e) \<le> 8" using l [of "PutUint64 e"] n(2) by (simp add: encodeExponent_def)
  {
    assume z: "byte (hd (encodeExponent e)) = 0"
    then obtain c where "encodeExponent e = [c]" using h by (auto simp: encodeExponent_def length_Suc_conv)
    then have "unat e = 0" using z v by (simp add: big_endian_def)
    then show "e = 0" by (simp add: unat_eq_zero)
  }
  assume "e = 0"
  then have "big_endian (encodeExponent e) = 0" using v by simp
  moreover obtain c cs where c: "encodeExponent e = c # cs" using h by (cases "encodeExponent e") (auto simp: encodeExponent_def)
  ultimately show "byte (hd (encodeExponent e)) = 0" using big_endian_ge [of "byte c" cs] by (simp add: big_endian_def)
qed

section \<open>Minted tokens\<close>

lemma Mint_Inr:
  assumes "Mint sha256 sign now s opts = Inr tok"
  shows "\<exists>signer sig header payload. signer \<in> set (keys s)
    \<and> (if opt_SignWithKid opts = [] then signer = hd (keys s) else kid signer = opt_SignWithKid opts)
    \<and> header = encodeSegment (JObj [(''alg'', JStr ''RS256''), (''typ'', JStr ''JWT''),
        (''kid'', JStr (if opt_KidOverride opts \<noteq> [] then opt_KidOverride opts else kid signer))])
    \<and> payload = encodeSegment (JObj (mint_claims now s opts))
    \<and> sign (priv signer) (sha256 (header @ ''.'' @ payload)) = Inr sig
    \<and> tok = header @ ''.'' @ payload @ ''.'' @ RawURL_EncodeToString sig"
proof -
  obtain signer where s: "keys s \<noteq> []"
    "(if opt_SignWithKid opts \<noteq> [] then findKey (opt_SignWithKid opts) s else Inr (hd (keys s))) = Inr signer"
    using assms by (auto simp: Mint_def split: if_splits sum.splits)
  have "signer \<in> set (keys s)"
    "if opt_SignWithKid opts = [] then signer = hd (keys s) else kid signer = opt_SignWithKid opts"
    using s by (auto simp: findKey_def split: if_splits option.splits dest!: find_Some_set)
  with s assms show ?thesis
    by (auto simp: Mint_def Let_def split: sum.splits)
qed

lemma update_member: "x \<in> set (AList.update k v m) \<Longrightarrow> x = (k, v) \<or> x \<in> set m"
  by (induction m) (auto split: if_splits)

lemma stored_member: "x \<in> set (fold store_member ms m) \<Longrightarrow> x \<in> set ms \<or> x \<in> set m"
proof (induction ms arbitrary: m)
  case (Cons a ms)
  then show ?case using update_member [of x "fst a" "snd a" m]
    by (cases a) (force simp: store_member_def)
qed simp

lemma AList_update_go_map: "go_map m \<Longrightarrow> go_map (AList.update k v m)"
  unfolding go_map_def by (rule distinct_update)

lemma mint_claims_go_map: "go_map (mint_claims now s opts)"
  unfolding mint_claims_def Let_def
  by (auto simp del: fold_Cons fold.simps intro!: AList_update_go_map store_members_go_map)

definition standard_claims :: "time \<Rightarrow> 'priv Server \<Rightarrow> TokenOptions \<Rightarrow> json gomap" where
  "standard_claims now s opts =
     [(''iss'', JStr (minted_issuer s opts)), (''sub'', JStr (opt_Subject opts)),
      (''aud'', json_strings (opt_Audience opts)),
      (''iat'', JNum (FormatInt (Unix (minted_issued_at now opts)))),
      (''exp'', JNum (FormatInt (Unix (minted_expiry now opts)))),
      (''jti'', JStr (opt_Subject opts @ ''-'' @ strconvI (UnixNano (minted_issued_at now opts)))),
      (''nbf'', JNum (FormatInt (Unix (opt_NotBefore opts)))), (Namespace, JObj (namespace_claims opts))]"

lemma mint_claims_member:
  "x \<in> set (mint_claims now s opts) \<Longrightarrow> x \<in> set (opt_ExtraClaims opts) \<or> x \<in> set (standard_claims now s opts)"
  unfolding mint_claims_def Let_def
  by (auto simp del: fold_Cons fold.simps simp: standard_claims_def split: if_splits
      dest!: update_member stored_member)

lemma mint_claims_lookup:
  "map_of (mint_claims now s opts) ''iss'' = Some (JStr (minted_issuer s opts))"
  "map_of (mint_claims now s opts) ''aud'' = Some (json_strings (opt_Audience opts))"
  "map_of (mint_claims now s opts) ''exp'' = Some (JNum (FormatInt (Unix (minted_expiry now opts))))"
  "namespace_claims opts \<noteq> [] \<Longrightarrow> map_of (mint_claims now s opts) Namespace = Some (JObj (namespace_claims opts))"
  by (simp_all add: mint_claims_def Let_def update_conv' store_member_def Namespace_def)

text \<open>Options whose strings are valid and whose extra claims can be printed.\<close>

definition mintable :: "'priv Server \<Rightarrow> TokenOptions \<Rightarrow> bool" where
  "mintable s opts \<longleftrightarrow> valid_utf8 (minted_issuer s opts) \<and> valid_utf8 (opt_Subject opts)
     \<and> printable (json_strings (opt_Audience opts)) \<and> printable (JObj (namespace_claims opts))
     \<and> printable (JObj (opt_ExtraClaims opts)) \<and> nesting (JObj (opt_ExtraClaims opts)) \<le> 10000"

lemma valid_utf8_ascii_all: "list_all (\<lambda>c. byte c < 128) s \<Longrightarrow> valid_utf8 s"
  by (induction s) (simp_all add: valid_utf8_ascii)

lemma FormatInt_valid: "valid_utf8 (FormatInt n)"
proof (rule valid_utf8_ascii_all)
  have "list_all (\<lambda>c. byte c < 128) (decimal m)" for m
    using decimal_digits [of m] by (auto simp: list_all_iff digit_def)
  then show "list_all (\<lambda>c. byte c < 128) (FormatInt n)" by (simp add: FormatInt_def byte_def)
qed

lemma nesting_object: "nesting (JObj ms) \<le> n \<longleftrightarrow> 0 < n \<and> (\<forall>(k, v) \<in> set ms. nesting v < n)"
  by (cases n) (auto simp: less_Suc_eq_le)

lemma nesting_array: "nesting (JArr vs) \<le> n \<longleftrightarrow> 0 < n \<and> (\<forall>v \<in> set vs. nesting v < n)"
  by (cases n) (auto simp: less_Suc_eq_le)

lemma nesting_strings: "nesting (json_strings a) \<le> 1"
  by (cases a) (auto simp del: nesting.simps(1) simp: json_strings_def nesting_array)

lemma nesting_namespace: "nesting (JObj (namespace_claims opts)) \<le> 2"
proof -
  have "nesting (JObj (map (\<lambda>(k, v). (k, JStr v)) m)) < 2" for m :: "string gomap"
    using nesting_object [of "map (\<lambda>(k, v). (k, JStr v)) m" 1] by auto
  then show ?thesis
    unfolding nesting_object namespace_claims_def Let_def
    by (auto simp del: nesting.simps(2) split: if_splits dest!: update_member)
qed

lemma mint_claims_printable:
  assumes "mintable s opts"
  shows "printable (JObj (mint_claims now s opts))" "nesting (JObj (mint_claims now s opts)) \<le> 10000"
proof -
  have v: "valid_utf8 ''iss''" "valid_utf8 ''sub''" "valid_utf8 ''aud''" "valid_utf8 ''iat''"
    "valid_utf8 ''exp''" "valid_utf8 ''jti''" "valid_utf8 ''nbf''" "valid_utf8 Namespace"
    by (rule valid_utf8_ascii_all; simp add: byte_def Namespace_def)+
  have j: "valid_utf8 (opt_Subject opts @ ''-'' @ strconvI n)" for n
    using assms by (simp add: mintable_def valid_utf8_append valid_utf8_ascii byte_def strconvI_def FormatInt_valid)
  have "valid_utf8 k \<and> printable v" if "(k, v) \<in> set (standard_claims now s opts)" for k v
    using that assms v j scan_FormatInt
    by (auto simp del: printable.simps(3,4) simp: standard_claims_def mintable_def)
  moreover have "valid_utf8 k \<and> printable v" if "(k, v) \<in> set (opt_ExtraClaims opts)" for k v
    using that assms by (auto simp: mintable_def list_all_iff)
  ultimately show "printable (JObj (mint_claims now s opts))"
    by (fastforce simp: list_all_iff dest: mint_claims_member)
  have "nesting v < 10000" if "(k, v) \<in> set (standard_claims now s opts)" for k v
    using that nesting_strings [of "opt_Audience opts"] nesting_namespace [of opts]
    by (auto simp del: nesting.simps(2) simp: standard_claims_def)
  moreover have "nesting v < 10000" if "(k, v) \<in> set (opt_ExtraClaims opts)" for k v
    using that assms by (auto simp del: nesting.simps(2) simp: mintable_def nesting_object)
  ultimately show "nesting (JObj (mint_claims now s opts)) \<le> 10000"
    unfolding nesting_object by (fastforce dest: mint_claims_member)
qed

section \<open>Reading a minted token\<close>

lemma fold_ignored: "\<forall>x \<in> set ms. \<forall>c. f x c = c \<Longrightarrow> fold f ms c = c"
  by (induction ms arbitrary: c) auto

lemma fold_one:
  assumes "go_map ms" and "(k, v) \<in> set ms" and "\<forall>(q, u) \<in> set ms. q \<noteq> k \<longrightarrow> (\<forall>c. f (q, u) c = c)"
  shows "fold f ms c = f (k, v) c"
  using assms
proof (induction ms arbitrary: c)
  case (Cons x ms)
  obtain q u where x: "x = (q, u)" by fastforce
  show ?case
  proof (cases "q = k")
    case True
    then have "u = v" "k \<notin> fst ` set ms" using Cons.prems(1,2) by (force simp: x)+
    moreover from this have "fold f ms d = d" for d using Cons.prems(3) by (intro fold_ignored) force
    ultimately show ?thesis using True by (simp add: x)
  next
    case False
    then show ?thesis using Cons by (simp add: x)
  qed
qed simp

lemma fold_two:
  assumes "go_map ms" and "(k, v) \<in> set ms" and "(k', v') \<in> set ms" and "k \<noteq> k'"
    and "\<forall>(q, u) \<in> set ms. q \<noteq> k \<longrightarrow> q \<noteq> k' \<longrightarrow> (\<forall>c. f (q, u) c = c)"
    and "\<And>c. f (k, v) (f (k', v') c) = f (k', v') (f (k, v) c)"
  shows "fold f ms c = f (k, v) (f (k', v') c)"
proof -
  obtain xs ys where ms: "ms = xs @ (k, v) # ys" using assms(2) by (auto dest: split_list)
  have g: "go_map xs" "go_map ys" "k \<notin> fst ` set xs" "k \<notin> fst ` set ys" "fst ` set xs \<inter> fst ` set ys = {}"
    using assms(1) by (auto simp: ms go_map_def)
  have o: "\<forall>(q, u) \<in> set zs. q \<noteq> k' \<longrightarrow> (\<forall>c. f (q, u) c = c)" if "zs = xs \<or> zs = ys" for zs
  proof clarify
    fix q u c
    assume q: "(q, u) \<in> set zs" "q \<noteq> k'"
    then have "q \<in> fst ` set xs \<or> q \<in> fst ` set ys" using that by (metis fst_conv imageI)
    then have "q \<noteq> k" using g(3,4) by blast
    moreover have "(q, u) \<in> set ms" using q(1) that by (auto simp: ms)
    ultimately show "f (q, u) c = c" using assms(5) q(2) by blast
  qed
  have i: "fold f zs d = d" if "zs = xs \<or> zs = ys" "k' \<notin> fst ` set zs" for zs d
      proof (rule fold_ignored, clarify)
    fix q u c
    assume "(q, u) \<in> set zs"
    moreover from this have "q \<noteq> k'" using that(2) by (metis fst_conv imageI)
    ultimately show "f (q, u) c = c" using o [OF that(1)] by blast
  qed
  have "(k', v') \<in> set xs \<or> (k', v') \<in> set ys" using assms(3,4) by (auto simp: ms)
  then consider (left) "(k', v') \<in> set xs" "k' \<notin> fst ` set ys" | (right) "(k', v') \<in> set ys" "k' \<notin> fst ` set xs"
    using g(5) by (metis IntI empty_iff fst_conv imageI)
  then show ?thesis
  proof cases
    case left
    then show ?thesis using fold_one [OF g(1) left(1) o] i by (simp add: ms)
  next
    case right
    then show ?thesis using fold_one [OF g(2) right(1) o] i by (simp add: ms assms(6))
  qed
qed

text \<open>The members of a minted payload, as the decoder lists them.\<close>

definition payload_members :: "json gomap \<Rightarrow> json gomap" where
  "payload_members ms = sort_key fst (map (\<lambda>(k, v). (k, sort_maps v)) ms)"

lemma payload_members:
  "sort_maps (JObj ms) = JObj (payload_members ms)"
  "go_map ms \<Longrightarrow> go_map (payload_members ms)"
  "(k, v) \<in> set ms \<Longrightarrow> (k, sort_maps v) \<in> set (payload_members ms)"
  "fst ` set (payload_members ms) = fst ` set ms"
proof -
  have f: "map fst (map (\<lambda>(k, v). (k, sort_maps v)) ms) = map fst ms" by (simp add: comp_def case_prod_unfold)
  show "go_map ms \<Longrightarrow> go_map (payload_members ms)"
    unfolding payload_members_def by (rule go_map_mset [of "map (\<lambda>(k, v). (k, sort_maps v)) ms"])
      (simp_all only: mset_sort go_map_def f)
  show "fst ` set (payload_members ms) = fst ` set ms" by (force simp: payload_members_def)
  show "(k, v) \<in> set ms \<Longrightarrow> (k, sort_maps v) \<in> set (payload_members ms)" by (force simp: payload_members_def)
qed (simp add: payload_members_def)

text \<open>No extra claim is taken for a field the readers look for, except under its own name.\<close>

definition no_lookalikes :: "TokenOptions \<Rightarrow> bool" where
  "no_lookalikes opts \<longleftrightarrow>
     (\<forall>k \<in> fst ` set (opt_ExtraClaims opts). \<forall>f \<in> {''iss'', ''exp'', ''aud''}. field_match f k \<longrightarrow> k = f)"

lemma mint_claims_match:
  assumes "no_lookalikes opts" and "q \<in> fst ` set (payload_members (mint_claims now s opts))"
    and "f \<in> {''iss'', ''exp'', ''aud''}" and "q \<noteq> f"
  shows "\<not> field_match f q"
proof -
  have m: "map foldRune (runes ''iss'') = [73, 83, 83]" "map foldRune (runes ''sub'') = [83, 85, 66]"
    "map foldRune (runes ''aud'') = [65, 85, 68]" "map foldRune (runes ''iat'') = [73, 65, 84]"
    "map foldRune (runes ''exp'') = [69, 88, 80]" "map foldRune (runes ''jti'') = [74, 84, 73]"
    "map foldRune (runes ''nbf'') = [78, 66, 70]"
    by code_simp+
  have n: "\<forall>f \<in> {''iss'', ''exp'', ''aud''}. \<not> field_match f Namespace" by code_simp
  obtain v where "(q, v) \<in> set (mint_claims now s opts)" using assms(2) payload_members(4) by force
  then have "q \<in> fst ` set (opt_ExtraClaims opts) \<or> q \<in> fst ` set (standard_claims now s opts)"
    using mint_claims_member by force
  then show ?thesis
  proof
    assume "q \<in> fst ` set (opt_ExtraClaims opts)"
    then show ?thesis using assms(1,3,4) by (auto simp: no_lookalikes_def)
  next
    assume "q \<in> fst ` set (standard_claims now s opts)"
    then have "q = Namespace \<or> q \<in> {''iss'', ''sub'', ''aud'', ''iat'', ''exp'', ''jti'', ''nbf''}"
      by (auto simp: standard_claims_def)
    then show ?thesis using assms(3,4) n by (auto simp: field_match_def m)
  qed
qed

lemma digits_value_snoc: "digits_value (s @ [c]) = 10 * digits_value s + (int (byte c) - 48)"
  by (simp add: digits_value_def)

lemma digits_value_decimal: "digits_value (decimal n) = int n"
proof (induction n rule: decimal.induct)
  case (1 n)
  have b: "m < 10 \<Longrightarrow> byte (char_of (48 + m)) = 48 + m" for m by (simp add: byte_char_of)
  show ?case
  proof (cases "n < 10")
    case True
    then show ?thesis using b [of n] by (subst decimal.simps) (simp add: digits_value_def)
  next
    case False
    have "int n = 10 * int (n div 10) + int (n mod 10)" by presburger
    then show ?thesis using 1 [OF False] False b [of "n mod 10"]
      by (subst decimal.simps) (simp add: digits_value_snoc del: of_char_of)
  qed
qed

lemma ParseInt_FormatInt: "ParseInt64 (FormatInt w) = Some w"
proof -
  obtain c cs where d: "decimal (nat (sint w)) = c # cs" using decimal_hd [of "nat (sint w)"] by blast
  have "byte c \<noteq> 45" using decimal_digits [of "nat (sint w)"] d by (auto simp: digit_def)
  moreover have "decimal (nat (- sint w)) \<noteq> []" using decimal_hd [of "nat (- sint w)"] by auto
  moreover have "byte (CHR ''-'') = 45" by (simp add: byte_def)
  ultimately show ?thesis
    using sint_64_bounds [of w] digits_value_decimal [of "nat (sint w)"] digits_value_decimal [of "nat (- sint w)"]
      decimal_digits [of "nat (sint w)"] decimal_digits [of "nat (- sint w)"] d
    by (auto simp: ParseInt64_def FormatInt_def Let_def)
qed

lemma minted_issuer_struct:
  assumes "no_lookalikes opts"
  shows "issuer_struct (sort_maps (JObj (mint_claims now s opts))) = (minted_issuer s opts, False)"
proof -
  let ?ms = "payload_members (mint_claims now s opts)"
  have "go_map ?ms" by (rule payload_members(2) [OF mint_claims_go_map])
  moreover have "(''iss'', JStr (minted_issuer s opts)) \<in> set ?ms"
    using payload_members(3) [OF map_of_SomeD [OF mint_claims_lookup(1)]] by simp
  moreover have "\<forall>(q, u) \<in> set ?ms. q \<noteq> ''iss'' \<longrightarrow> (\<forall>c. string_field ''iss'' (q, u) c = c)"
  proof clarify
    fix q u c e
    assume "(q, u) \<in> set ?ms" and n: "q \<noteq> ''iss''"
    then have "q \<in> fst ` set ?ms" by force
    from mint_claims_match [OF assms this] have "\<not> field_match ''iss'' q" using n by auto
    then show "string_field ''iss'' (q, u) (c, e) = (c, e)" by (simp add: string_field_def)
  qed
  ultimately have "fold (string_field ''iss'') ?ms ([], False) = string_field ''iss'' (''iss'', JStr (minted_issuer s opts)) ([], False)"
    by (rule fold_one)
  then show ?thesis by (simp add: payload_members(1) issuer_struct_def string_field_def field_match_def del: sort_maps.simps)
qed

lemma minted_exp_aud:
  assumes "no_lookalikes opts" and "opt_Audience opts = Some auds"
  shows "exp_aud_struct (sort_maps (JObj (mint_claims now s opts)))
    = (\<lparr>Exp = Unix (minted_expiry now opts), Aud = Some (JArr (map JStr auds))\<rparr>, False)"
proof -
  let ?ms = "payload_members (mint_claims now s opts)" and ?x = "JNum (FormatInt (Unix (minted_expiry now opts)))"
    and ?a = "JArr (map JStr auds)"
  have f: "field_match ''exp'' ''exp''" "\<not> field_match ''exp'' ''aud''" "field_match ''aud'' ''aud''"
    by code_simp+
  have "go_map ?ms" by (rule payload_members(2) [OF mint_claims_go_map])
  moreover have "(''exp'', ?x) \<in> set ?ms"
    using payload_members(3) [OF map_of_SomeD [OF mint_claims_lookup(3)]] by simp
  moreover have "(''aud'', ?a) \<in> set ?ms"
    using payload_members(3) [OF map_of_SomeD [OF mint_claims_lookup(2) [of now s opts]]]
    by (simp add: assms(2) json_strings_def comp_def)
  moreover have "\<forall>(q, u) \<in> set ?ms. q \<noteq> ''exp'' \<longrightarrow> q \<noteq> ''aud'' \<longrightarrow> (\<forall>c. exp_aud_field (q, u) c = c)"
  proof clarify
    fix q u c e
    assume "(q, u) \<in> set ?ms" and n: "q \<noteq> ''exp''" "q \<noteq> ''aud''"
    then have "q \<in> fst ` set ?ms" by force
    from mint_claims_match [OF assms(1) this] have "\<not> field_match ''exp'' q" "\<not> field_match ''aud'' q" using n by auto
    then show "exp_aud_field (q, u) (c, e) = (c, e)" by (simp add: exp_aud_field_def)
  qed
  moreover have "exp_aud_field (''exp'', ?x) (exp_aud_field (''aud'', ?a) c)
      = exp_aud_field (''aud'', ?a) (exp_aud_field (''exp'', ?x) c)" for c
    by (cases c) (simp add: exp_aud_field_def f ParseInt_FormatInt)
  ultimately have "fold exp_aud_field ?ms (\<lparr>Exp = 0, Aud = None\<rparr>, False)
      = exp_aud_field (''exp'', ?x) (exp_aud_field (''aud'', ?a) (\<lparr>Exp = 0, Aud = None\<rparr>, False))"
    by (intro fold_two) simp_all
  then show ?thesis
    by (simp add: payload_members(1) exp_aud_struct_def exp_aud_field_def f ParseInt_FormatInt del: sort_maps.simps)
qed

lemma parseAudience_strings: "parseAudience (Some (JArr (map JStr auds))) = auds"
  by (simp add: parseAudience_def json_string_def list_all_iff comp_def)

lemma no_dot_segment: "CHR ''.'' \<notin> set (encodeSegment v)"
  by (simp add: encodeSegment_def RawURL_EncodeToString_no_dot)

lemma Split_segments:
  assumes "CHR ''.'' \<notin> set h" "CHR ''.'' \<notin> set p" "CHR ''.'' \<notin> set g"
  shows "Split CHR ''.'' (h @ ''.'' @ p @ ''.'' @ g) = [h, p, g]"
  using Split_Join [of "[h, p, g]" "CHR ''.''"] assms by simp

lemma minted_unverifiedIssuer:
  assumes "Mint sha256 sign now s opts = Inr tok" and "mintable s opts" and "no_lookalikes opts"
    and "minted_issuer s opts \<noteq> []"
  shows "unverifiedIssuer tok = Inr (minted_issuer s opts)"
proof -
  let ?v = "JObj (mint_claims now s opts)"
  obtain h g where tok: "tok = encodeSegment h @ ''.'' @ encodeSegment ?v @ ''.'' @ RawURL_EncodeToString g"
    using Mint_Inr [OF assms(1)] by blast
  have "Unmarshal (Marshal ?v) = Some (sort_maps ?v)"
    by (rule Unmarshal_Marshal(1) [OF mint_claims_printable [OF assms(2)]])
  then show ?thesis
    using unverifiedIssuer_encoded [OF no_dot_segment RawURL_EncodeToString_no_dot] assms(4)
    by (simp add: tok encodeSegment_def [of ?v] minted_issuer_struct [OF assms(3)] del: sort_maps.simps)
qed

lemma minted_payload:
  assumes "Mint sha256 sign now s opts = Inr tok"
  shows "RawURL_DecodeString (Split CHR ''.'' tok ! 1) = Some (Marshal (JObj (mint_claims now s opts)))"
proof -
  obtain h g where tok: "tok = encodeSegment h @ ''.'' @ encodeSegment (JObj (mint_claims now s opts)) @ ''.'' @ RawURL_EncodeToString g"
    using Mint_Inr [OF assms] by blast
  then have "Split CHR ''.'' tok = [encodeSegment h, encodeSegment (JObj (mint_claims now s opts)), RawURL_EncodeToString g]"
    unfolding tok by (intro Split_segments no_dot_segment RawURL_EncodeToString_no_dot)
  then show ?thesis by (simp add: encodeSegment_def base64_roundtrip)
qed

text \<open>
  C34. The readers of a token see what was minted. For options that can be printed and extra claims that
  do not pass for the registered ones, the verifier's look at a minted token gives its issuer, and
  the AWS token source's look gives its expiry, to the second, and its audiences.
\<close>

theorem minted_token_readable:
  assumes "Mint sha256 sign now s opts = Inr tok" and "mintable s opts" and "no_lookalikes opts"
    and "minted_issuer s opts \<noteq> []" and "opt_Audience opts = Some auds" and "Unix (minted_expiry now opts) \<noteq> 0"
  shows "unverifiedIssuer tok = Inr (minted_issuer s opts)
    \<and> unverifiedExpiryAudience tok = Inr (time_Unix (Unix (minted_expiry now opts)), auds)"
proof -
  let ?v = "JObj (mint_claims now s opts)"
  obtain h g where tok: "tok = encodeSegment h @ ''.'' @ encodeSegment ?v @ ''.'' @ RawURL_EncodeToString g"
    using Mint_Inr [OF assms(1)] by blast
  have u: "Unmarshal (Marshal ?v) = Some (sort_maps ?v)"
    by (rule Unmarshal_Marshal(1) [OF mint_claims_printable [OF assms(2)]])
  have "unverifiedIssuer tok = Inr (minted_issuer s opts)"
    by (rule minted_unverifiedIssuer [OF assms(1-4)])
  moreover have "Split CHR ''.'' tok = [encodeSegment h, encodeSegment ?v, RawURL_EncodeToString g]"
    unfolding tok by (intro Split_segments no_dot_segment RawURL_EncodeToString_no_dot)
  then have "unverifiedExpiryAudience tok = Inr (time_Unix (Unix (minted_expiry now opts)), auds)"
    using u assms(6)
    by (simp add: unverifiedExpiryAudience_def encodeSegment_def [of ?v] base64_roundtrip
        minted_exp_aud [OF assms(3,5)] parseAudience_strings del: sort_maps.simps)
  ultimately show ?thesis ..
qed

definition sample_opts :: TokenOptions where
  "sample_opts = \<lparr>opt_Subject = ''arn:aws:iam::123456789012:role/ci'', opt_Audience = Some [''nats''],
     opt_AWSAccount = ''123456789012'', opt_OrgID = ''o-1'', opt_PrincipalTags = [(''team'', ''a'')],
     opt_IssuedAt = 0, opt_NotBefore = 0, opt_Expiry = time_Unix 1700000300,
     opt_ExtraClaims = [(''ref'', JStr ''refs/heads/main'')],
     opt_IssuerOverride = [], opt_KidOverride = [], opt_SignWithKid = []\<rparr>"

definition sample_idp :: "string Server" where
  "sample_idp = \<lparr>httpSrv_URL = ''http://127.0.0.1:1'', keys = [\<lparr>kid = ''key-1'', priv = ''p''\<rparr>]\<rparr>"

lemma sample_minted: "\<exists>tok. Mint (\<lambda>m. m) (\<lambda>p d. Inr (p @ take 3 d)) (time_Unix 1700000000) sample_idp sample_opts = Inr tok"
  by (simp add: Mint_def sample_idp_def sample_opts_def Let_def)

lemma sample_mintable: "mintable sample_idp sample_opts"
proof -
  have "valid_utf8 s" if "list_all (\<lambda>c. byte c < 128) s" for s using valid_utf8_ascii_all that .
  then show ?thesis
    by (simp add: mintable_def sample_opts_def sample_idp_def minted_issuer_def json_strings_def namespace_claims_def byte_def)
qed

theorem minted_token_readable_witness:
  "\<exists>tok. unverifiedIssuer tok = Inr ''http://127.0.0.1:1''
    \<and> unverifiedExpiryAudience tok = Inr (time_Unix 1700000300, [''nats''])"
proof -
  obtain tok where t: "Mint (\<lambda>m. m) (\<lambda>p d. Inr (p @ take 3 d)) (time_Unix 1700000000) sample_idp sample_opts = Inr tok"
    using sample_minted by blast
  have x: "Unix (minted_expiry (time_Unix 1700000000) sample_opts) = 1700000300"
    "time_Unix 1700000300 \<noteq> 0"
    by (simp_all add: sample_opts_def minted_expiry_def IsZero_def Unix_time_Unix) (simp_all add: time_Unix_def unixToInternal_def)
  have n: "no_lookalikes sample_opts"
  proof -
    have "\<not> field_match ''iss'' ''ref''" "\<not> field_match ''exp'' ''ref''" "\<not> field_match ''aud'' ''ref''" by code_simp+
    then show ?thesis by (simp add: no_lookalikes_def sample_opts_def)
  qed
  have i: "minted_issuer sample_idp sample_opts = ''http://127.0.0.1:1''" "opt_Audience sample_opts = Some [''nats'']"
    by (simp_all add: minted_issuer_def sample_opts_def sample_idp_def)
  show ?thesis using minted_token_readable [OF t sample_mintable n _ i(2)] i(1) x(1) by auto
qed

section \<open>Keys\<close>

lemma key_index_Some: "key_index k xs = Some i \<Longrightarrow> i < length xs \<and> kid (xs ! i) = k"
  by (induction xs arbitrary: i) (auto split: if_splits)

lemma key_index_None: "key_index k xs = None \<longleftrightarrow> k \<notin> kid ` set xs"
  by (induction xs) auto

lemma SetDefaultKey_mset: "mset (keys (SetDefaultKey k s)) = mset (keys s)"
proof (cases "key_index k (keys s)")
  case (Some i)
  then have "i < length (keys s)" "0 < length (keys s)" using key_index_Some by fastforce+
  then show ?thesis using Some mset_swap [of i "keys s" 0] by (simp add: SetDefaultKey_def)
qed (simp add: SetDefaultKey_def)

lemma SetDefaultKey_hd: "k \<in> kid ` set (keys s) \<Longrightarrow> kid (hd (keys (SetDefaultKey k s))) = k"
proof -
  assume "k \<in> kid ` set (keys s)"
  then obtain i where i: "key_index k (keys s) = Some i" using key_index_None by fastforce
  note b = key_index_Some [OF i]
  then obtain x xs where x: "keys s = x # xs" by (cases "keys s") auto
  have "kid (hd ((keys s)[0 := keys s ! i, i := keys s ! 0])) = k"
    using b by (cases i) (simp_all add: x)
  then show ?thesis by (simp add: SetDefaultKey_def i)
qed

text \<open>
  Rotation keeps every key and changes the signer. After a key with a fresh identifier is added and
  made the default, the keys are those before and the new one, and a token minted without an
  explicit signer is signed with the new key and names it in its header.
\<close>

theorem key_rotation:
  assumes "AddKey (Inr p) k s = Inr (k', s1)" and "k \<notin> kid ` set (keys s)"
    and "Mint sha256 sign now (SetDefaultKey k s1) opts = Inr tok"
    and "opt_SignWithKid opts = []" and "opt_KidOverride opts = []"
  shows "mset (keys (SetDefaultKey k s1)) = add_mset \<lparr>kid = k, priv = p\<rparr> (mset (keys s))
    \<and> (\<exists>payload sig. let header = encodeSegment (JObj [(''alg'', JStr ''RS256''), (''typ'', JStr ''JWT''), (''kid'', JStr k)]) in
         sign p (sha256 (header @ ''.'' @ payload)) = Inr sig
         \<and> tok = header @ ''.'' @ payload @ ''.'' @ RawURL_EncodeToString sig)"
proof -
  have s1: "keys s1 = keys s @ [\<lparr>kid = k, priv = p\<rparr>]" using assms(1) by (auto simp: AddKey_def addKeyLocked_def)
  then have m: "mset (keys (SetDefaultKey k s1)) = add_mset \<lparr>kid = k, priv = p\<rparr> (mset (keys s))"
    by (simp add: SetDefaultKey_mset)
  let ?hd = "hd (keys (SetDefaultKey k s1))"
  have "keys (SetDefaultKey k s1) \<noteq> []" using m by auto
  then have "?hd \<in> set (keys (SetDefaultKey k s1))" by simp
  then have "?hd = \<lparr>kid = k, priv = p\<rparr> \<or> ?hd \<in> set (keys s)"
    using m by (metis insert_iff set_mset_add_mset_insert set_mset_mset)
  moreover have "kid ?hd = k" by (rule SetDefaultKey_hd) (simp add: s1)
  ultimately have h: "?hd = \<lparr>kid = k, priv = p\<rparr>" using assms(2) by (metis imageI)
  show ?thesis using Mint_Inr [OF assms(3)] m by (auto simp: assms(4,5) h Let_def)
qed

lemma valid_base64: "valid_utf8 (RawURL_EncodeToString b)"
proof (rule valid_utf8_ascii_all)
  have a: "byte (alphabet v) < 128" if "v < 64" for v using that by (auto simp: byte_alphabet)
  show "list_all (\<lambda>c. byte c < 128) (RawURL_EncodeToString b)"
  proof (induction b rule: RawURL_EncodeToString.induct)
    case (2 x)
    have "16 * (byte x mod 4) < 64" using sextet_bounds(1) [of "byte x mod 4" 0] by simp
    then show ?case by (simp add: a byte_lt)
  next
    case (3 x y)
    have "4 * (byte y mod 16) < 64" using sextet_bounds(2) [of "byte y mod 16" 0] by simp
    then show ?case by (simp add: a byte_lt sextet_bounds)
  next
    case (4 x y z rest)
    then show ?case by (simp add: a byte_lt sextet_bounds)
  qed simp
qed

lemma ascii_literals: "valid_utf8 ''kty''" "valid_utf8 ''use''" "valid_utf8 ''alg''" "valid_utf8 ''kid''" "valid_utf8 ''n''"
  "valid_utf8 ''e''" "valid_utf8 ''RSA''" "valid_utf8 ''sig''" "valid_utf8 ''RS256''" "valid_utf8 ''keys''"
  "valid_utf8 ''typ''" "valid_utf8 ''JWT''"
  by (rule valid_utf8_ascii_all; simp add: byte_def)+

lemma jwk_printable: "valid_utf8 (kid k) \<Longrightarrow> printable (jwk public k)"
  by (simp add: jwk_def ascii_literals valid_base64)

text \<open>
  Who trusts the key set can check every minted token. A token minted without a false key
  identifier is signed by one of the provider's keys, its header names that key, and the key set
  served at the same time is a JSON document that lists that key.
\<close>

theorem minted_key_is_served:
  assumes "Mint sha256 sign now s opts = Inr tok" and "opt_KidOverride opts = []"
    and "\<forall>x \<in> set (keys s). valid_utf8 (kid x)"
  shows "\<exists>x header payload sig js. x \<in> set (keys s)
    \<and> tok = header @ ''.'' @ payload @ ''.'' @ RawURL_EncodeToString sig
    \<and> sign (priv x) (sha256 (header @ ''.'' @ payload)) = Inr sig
    \<and> Option.bind (RawURL_DecodeString header) Unmarshal
        = Some (JObj [(''alg'', JStr ''RS256''), (''kid'', JStr (kid x)), (''typ'', JStr ''JWT'')])
    \<and> Unmarshal (handleJWKS public s) = Some (JObj [(''keys'', JArr js)])
    \<and> sort_maps (jwk public x) \<in> set js"
proof -
  obtain x sig header payload where m: "x \<in> set (keys s)"
    "header = encodeSegment (JObj [(''alg'', JStr ''RS256''), (''typ'', JStr ''JWT''), (''kid'', JStr (kid x))])"
    "sign (priv x) (sha256 (header @ ''.'' @ payload)) = Inr sig"
    "tok = header @ ''.'' @ payload @ ''.'' @ RawURL_EncodeToString sig"
    using Mint_Inr [OF assms(1)] assms(2) by auto
  let ?h = "JObj [(''alg'', JStr ''RS256''), (''typ'', JStr ''JWT''), (''kid'', JStr (kid x))]"
  have "printable ?h" "nesting ?h \<le> 10000" using assms(3) m(1) by (simp_all add: ascii_literals)
  then have d: "Option.bind (RawURL_DecodeString header) Unmarshal = Some (sort_maps ?h)"
    using Unmarshal_Marshal(1) by (simp add: m(2) encodeSegment_def base64_roundtrip)
  have "sort_maps ?h = JObj [(''alg'', JStr ''RS256''), (''kid'', JStr (kid x)), (''typ'', JStr ''JWT'')]"
    by (simp add: less_char_def less_eq_char_def)
  let ?j = "JObj [(''keys'', JArr (map (jwk public) (keys s)))]"
  have "nesting (jwk public y) = 1" for y by (simp add: jwk_def)
  then have n: "nesting ?j \<le> 10000" by (simp add: image_constant_conv comp_def)
  have p: "printable ?j" using assms(3) jwk_printable by (auto simp: ascii_literals list_all_iff)
  have "Decode (handleJWKS public s) = Some (sort_maps ?j, [CHR 0x0A])"
    using Decode_marshal [OF printable_sort_maps [OF p], of "[CHR 0x0A]"] n
    by (simp add: handleJWKS_def writeJSON_def Marshal_def nesting_sort_maps del: sort_maps.simps)
  then have u: "Unmarshal (handleJWKS public s) = Some (sort_maps ?j)"
    by (simp add: Unmarshal_def skip_ws_def json_space_def byte_def del: sort_maps.simps)
  show ?thesis
    using m d u \<open>sort_maps ?h = _\<close> by (intro exI [of _ x] exI [of _ header] exI [of _ payload] exI [of _ sig]) auto
qed

theorem key_rotation_witness:
  "\<exists>tok sig. Mint (\<lambda>m. m) (\<lambda>p d. Inr p) 1 (SetDefaultKey ''key-2'' (snd (projr (AddKey (Inr ''q'') ''key-2'' sample_idp)))) sample_opts = Inr tok
    \<and> sig = ''q''"
proof -
  obtain s1 where s1: "AddKey (Inr ''q'') ''key-2'' sample_idp = Inr (''key-2'', s1)"
    by (auto simp: AddKey_def addKeyLocked_def)
  have f: "''key-2'' \<notin> kid ` set (keys sample_idp)" by (simp add: sample_idp_def)
  have o: "opt_SignWithKid sample_opts = []" "opt_KidOverride sample_opts = []" by (simp_all add: sample_opts_def)
  have "keys (SetDefaultKey ''key-2'' s1) \<noteq> []"
    using s1 by (auto simp: AddKey_def addKeyLocked_def sample_idp_def SetDefaultKey_def)
  then obtain tok where t: "Mint (\<lambda>m. m) (\<lambda>p d. Inr p) 1 (SetDefaultKey ''key-2'' s1) sample_opts = Inr tok"
    by (simp add: Mint_def o Let_def)
  show ?thesis using key_rotation [OF s1 f t o] t s1 by (auto simp: Let_def)
qed

theorem minted_key_is_served_witness:
  "\<exists>js. Unmarshal (handleJWKS (\<lambda>p. (p, 65537)) sample_idp) = Some (JObj [(''keys'', JArr js)]) \<and> js \<noteq> []"
proof -
  obtain tok where t: "Mint (\<lambda>m. m) (\<lambda>p d. Inr (p @ take 3 d)) (time_Unix 1700000000) sample_idp sample_opts = Inr tok"
    using sample_minted by blast
  have o: "opt_KidOverride sample_opts = []" by (simp add: sample_opts_def)
  have v: "\<forall>x \<in> set (keys sample_idp). valid_utf8 (kid x)"
    by (simp add: sample_idp_def) (rule valid_utf8_ascii_all, simp add: byte_def)
  show ?thesis using minted_key_is_served [OF t o v, of "\<lambda>p. (p, 65537)"] by auto
qed

section \<open>The AWS claims of a minted token\<close>

lemma interface_sorted:
  assumes "go_map ms"
  shows "interface_of (sort_maps (JObj ms)) = JObj (map (\<lambda>(k, v). (k, interface_of v)) (payload_members ms))"
proof -
  let ?ms = "map (\<lambda>(k, v). (k, interface_of v)) (payload_members ms)"
  have "map fst ?ms = map fst (payload_members ms)" by (simp add: comp_def case_prod_unfold)
  then have "distinct (map fst ([] @ ?ms))"
    using payload_members(2) [OF assms] by (simp only: go_map_def append_Nil)
  from fold_AList_update_new [OF this] show ?thesis by (simp add: payload_members(1) del: sort_maps.simps)
qed

lemma payload_member_iff:
  "(k, v) \<in> set (map (\<lambda>(k, v). (k, interface_of v)) (payload_members ms))
    \<longleftrightarrow> (\<exists>u. (k, u) \<in> set ms \<and> v = interface_of (sort_maps u))"
  by (force simp: payload_members_def)

lemma namespace_go_map: "go_map (namespace_claims opts)"
  unfolding namespace_claims_def Let_def by (auto intro!: AList_update_go_map)

lemma namespace_scalars:
  "scalar_at (interface_of (sort_maps (JObj (namespace_claims opts)))) [''aws_account''] t \<longleftrightarrow> opt_AWSAccount opts \<noteq> [] \<and> t = opt_AWSAccount opts"
  "scalar_at (interface_of (sort_maps (JObj (namespace_claims opts)))) [''org_id''] t \<longleftrightarrow> opt_OrgID opts \<noteq> [] \<and> t = opt_OrgID opts"
proof -
  have m: "(k, u) \<in> set (namespace_claims opts) \<longleftrightarrow> map_of (namespace_claims opts) k = Some u" for k u
    using namespace_go_map by (simp add: go_map_def)
  have l: "map_of (namespace_claims opts) ''aws_account'' = (if opt_AWSAccount opts = [] then None else Some (JStr (opt_AWSAccount opts)))"
    "map_of (namespace_claims opts) ''org_id'' = (if opt_OrgID opts = [] then None else Some (JStr (opt_OrgID opts)))"
    by (simp_all add: namespace_claims_def Let_def update_conv')
  show "scalar_at (interface_of (sort_maps (JObj (namespace_claims opts)))) [''aws_account''] t \<longleftrightarrow> opt_AWSAccount opts \<noteq> [] \<and> t = opt_AWSAccount opts"
    unfolding interface_sorted [OF namespace_go_map] scalar_member payload_member_iff m l by auto
  show "scalar_at (interface_of (sort_maps (JObj (namespace_claims opts)))) [''org_id''] t \<longleftrightarrow> opt_OrgID opts \<noteq> [] \<and> t = opt_OrgID opts"
    unfolding interface_sorted [OF namespace_go_map] scalar_member payload_member_iff m l by auto
qed

lemma aws_path:
  assumes "''aws.'' @ x = Join CHR ''.'' (awsPrefix # path)" and "CHR ''.'' \<notin> set x"
  shows "path = [x]"
proof (cases path)
  case (Cons p ps)
  then have "x = Join CHR ''.'' (p # ps)" using assms(1) by (simp add: awsPrefix_def)
  with assms(2) show ?thesis using Cons Join_dot_mem [of ps p] by (cases ps) auto
qed (use assms(1) in \<open>simp add: awsPrefix_def\<close>)

lemma mint_claims_namespace:
  assumes "Namespace \<notin> fst ` set (opt_ExtraClaims opts)"
  shows "(Namespace, u) \<in> set (mint_claims now s opts) \<longleftrightarrow> namespace_claims opts \<noteq> [] \<and> u = JObj (namespace_claims opts)"
proof (cases "namespace_claims opts = []")
  case False
  have "map_of (mint_claims now s opts) Namespace = Some u \<longleftrightarrow> (Namespace, u) \<in> set (mint_claims now s opts)"
    by (rule go_map_lookup [OF mint_claims_go_map])
  then show ?thesis using mint_claims_lookup(4) [OF False, of now s] False by auto
next
  case True
  have "(Namespace, v) \<notin> set (mint_claims now s opts)" for v
  proof
    assume "(Namespace, v) \<in> set (mint_claims now s opts)"
    then have "(Namespace, v) \<in> set (opt_ExtraClaims opts)"
      using True unfolding mint_claims_def Let_def
      by (auto simp del: fold_Cons fold.simps simp: Namespace_def split: if_splits dest!: update_member stored_member)
    then show False using assms by force
  qed
  then show ?thesis using True by blast
qed

text \<open>Options whose extra claims cannot be taken for AWS claims, and the payload as \<open>Parse\<close> decodes it.\<close>

definition no_aws_claims :: "TokenOptions \<Rightarrow> bool" where
  "no_aws_claims opts \<longleftrightarrow>
     (\<forall>k \<in> fst ` set (opt_ExtraClaims opts). k \<noteq> ''aws'' \<and> \<not> HasPrefix k ''aws.'' \<and> k \<noteq> Namespace)"

definition minted_raw :: "time \<Rightarrow> 'priv Server \<Rightarrow> TokenOptions \<Rightarrow> json gomap" where
  "minted_raw now s opts = map (\<lambda>(k, v). (k, interface_of v)) (payload_members (mint_claims now s opts))"

lemma minted_raw_decoded:
  assumes "mintable s opts"
  shows "decode_map (Marshal (JObj (mint_claims now s opts))) = Some (minted_raw now s opts)"
  using Unmarshal_Marshal(2) [OF mint_claims_printable [OF assms]]
  by (simp add: decode_map_def interface_sorted [OF mint_claims_go_map] minted_raw_def del: sort_maps.simps)

lemma minted_raw_keys:
  assumes "no_aws_claims opts"
  shows "\<forall>k \<in> fst ` set (minted_raw now s opts). k \<noteq> ''aws'' \<and> \<not> HasPrefix k ''aws.''"
proof
  fix k
  assume "k \<in> fst ` set (minted_raw now s opts)"
  then obtain u where "(k, u) \<in> set (mint_claims now s opts)" by (force simp: minted_raw_def payload_members_def)
  then have "k \<in> fst ` set (opt_ExtraClaims opts) \<or> k \<in> fst ` set (standard_claims now s opts)"
    using mint_claims_member by force
  then show "k \<noteq> ''aws'' \<and> \<not> HasPrefix k ''aws.''"
    using assms by (auto simp: no_aws_claims_def standard_claims_def HasPrefix_def Namespace_def)
qed

lemma minted_raw_source:
  assumes "no_aws_claims opts" and "CHR ''.'' \<notin> set x"
  shows "claim_source (minted_raw now s opts) (''aws.'' @ x) t
    \<longleftrightarrow> scalar_at (interface_of (sort_maps (JObj (namespace_claims opts)))) [x] t \<and> namespace_claims opts \<noteq> []"
    (is "?source \<longleftrightarrow> ?scalar")
proof -
  have "Namespace \<notin> fst ` set (opt_ExtraClaims opts)" using assms(1) by (auto simp: no_aws_claims_def)
  note ns = mint_claims_namespace [OF this, of _ now s]
  have "?scalar \<longleftrightarrow> scalar_at (JObj (minted_raw now s opts)) (Namespace # [x]) t"
    unfolding scalar_member minted_raw_def payload_member_iff ns by blast
  also have "\<dots> \<longleftrightarrow> ?source"
  proof
    assume "scalar_at (JObj (minted_raw now s opts)) (Namespace # [x]) t"
    moreover have "''aws.'' @ x = Join CHR ''.'' ((if Namespace = Namespace then awsPrefix else Namespace) # [x])"
      by (simp add: awsPrefix_def)
    moreover have "Namespace \<notin> reserved" by (simp add: Namespace_def reserved_def)
    ultimately show ?source unfolding claim_source_def by blast
  next
    assume ?source
    from aws_claim_source [OF minted_raw_keys [OF assms(1)] this]
    show "scalar_at (JObj (minted_raw now s opts)) (Namespace # [x]) t" using aws_path assms(2) by blast
  qed
  finally show ?thesis by simp
qed

lemma minted_Parse:
  assumes "mintable s opts"
  obtains i where "Parse order (Marshal (JObj (mint_claims now s opts))) = Inr i"
  using minted_raw_decoded [OF assms, of now] by (auto simp: Parse_Inr)

lemma minted_aws_claim:
  assumes "visits order" and "mintable s opts" and "no_aws_claims opts"
    and "Parse order (Marshal (JObj (mint_claims now s opts))) = Inr i"
  shows "Claim i ''aws.aws_account'' = (if opt_AWSAccount opts = [] then None else Some (opt_AWSAccount opts))"
    and "Claim i ''aws.org_id'' = (if opt_OrgID opts = [] then None else Some (opt_OrgID opts))"
proof -
  have e: "namespace_claims opts \<noteq> []" if "opt_AWSAccount opts \<noteq> [] \<or> opt_OrgID opts \<noteq> []"
    using that by (auto simp: namespace_claims_def Let_def)
  have a: "claim_source (minted_raw now s opts) ''aws.aws_account'' t \<longleftrightarrow> opt_AWSAccount opts \<noteq> [] \<and> t = opt_AWSAccount opts" for t
    using minted_raw_source [OF assms(3), of "''aws_account''" now s t] namespace_scalars(1) [of opts t] e by auto
  have o: "claim_source (minted_raw now s opts) ''aws.org_id'' t \<longleftrightarrow> opt_OrgID opts \<noteq> [] \<and> t = opt_OrgID opts" for t
    using minted_raw_source [OF assms(3), of "''org_id''" now s t] namespace_scalars(2) [of opts t] e by auto
  have c: "Claim i n = (if w = [] then None else Some w)"
    if "\<And>t. claim_source (minted_raw now s opts) n t \<longleftrightarrow> w \<noteq> [] \<and> t = w" for n w
    using Claim_source [OF assms(1,4) minted_raw_decoded [OF assms(2), of now], of n] that by (cases "Claim i n") auto
  show "Claim i ''aws.aws_account'' = (if opt_AWSAccount opts = [] then None else Some (opt_AWSAccount opts))" by (rule c) (rule a)
  show "Claim i ''aws.org_id'' = (if opt_OrgID opts = [] then None else Some (opt_OrgID opts))" by (rule c) (rule o)
qed

text \<open>
  A minted token shows the policy its AWS claims. For printable options with no extra claim named
  \<open>aws\<close> or \<open>aws.\<close> something, \<open>Parse\<close> reads the payload in every map order, and the claims
  \<open>aws.aws_account\<close> and \<open>aws.org_id\<close> are exactly the account and the organisation asked for, or
  absent when they are empty.
\<close>

theorem minted_aws_claims:
  assumes "visits order" and "mintable s opts" and "no_aws_claims opts"
  shows "\<exists>i. Parse order (Marshal (JObj (mint_claims now s opts))) = Inr i
    \<and> Claim i ''aws.aws_account'' = (if opt_AWSAccount opts = [] then None else Some (opt_AWSAccount opts))
    \<and> Claim i ''aws.org_id'' = (if opt_OrgID opts = [] then None else Some (opt_OrgID opts))"
  using minted_Parse [OF assms(2)] minted_aws_claim [OF assms] by metis

theorem minted_aws_claims_witness:
  "\<exists>i. Parse backwards (Marshal (JObj (mint_claims (time_Unix 1700000000) sample_idp sample_opts))) = Inr i
    \<and> Claim i ''aws.aws_account'' = Some ''123456789012''"
proof -
  have "no_aws_claims sample_opts"
    by (simp add: no_aws_claims_def sample_opts_def HasPrefix_def Namespace_def)
  from minted_aws_claims [OF visits_backwards sample_mintable this, of "time_Unix 1700000000"] show ?thesis
    by (simp add: sample_opts_def) blast
qed

end
