(* ===== verification/EndToEnd.thy ===== *)
theory EndToEnd
  imports CalloutProps MockoidcProps
begin

text \<open>
  The token of the mock provider, through the verifier, \<open>Parse\<close> and the policy, to the user JWT: the
  composition of the components on the policy most deployments have, a table from AWS accounts to
  NATS accounts.
\<close>

section \<open>A table of accounts as a policy\<close>

definition account_rule :: "string \<times> Grant \<Rightarrow> 'prg Rule" where
  "account_rule = (\<lambda>(account, g).
     \<lparr>Rule_Name = [],
      Rule_Match = \<lparr>Match_Issuer = [], Match_Sub = [], Match_Claims = [(''aws.aws_account'', account)],
                    Match_Expr = [], Match_AllowBroad = False\<rparr>,
      Rule_Grant = g, matcher = None, celProgram = None\<rparr>)"

definition account_policy :: "(string \<times> Grant) list \<Rightarrow> 'prg Policy" where
  "account_policy table = \<lparr>Rules = map account_rule table, validated = False\<rparr>"

text \<open>Such a policy validates iff it is not empty, every grant has an account, and every key is an AWS account number.\<close>

lemma account_policy_valid:
  "policy_Validate cel ext (account_policy table) = (p, None) \<longleftrightarrow>
     table \<noteq> [] \<and> (\<forall>(account, g) \<in> set table. Grant_Account g \<noteq> [] \<and> account_id account)
     \<and> p = \<lparr>Rules = map account_rule table, validated = True\<rparr>"
proof -
  have c: "compiled cel ext (account_rule x) = account_rule x" for x
    by (cases x) (simp add: compiled_def account_rule_def compileSub_def)
  have v: "rule_valid cel ext (account_rule (account, g) :: 'a Rule) \<longleftrightarrow> Grant_Account g \<noteq> [] \<and> account_id account" for account g
    by (auto simp: rule_valid_def account_rule_def compileSub_def hasStrongPin_iff githubStrongPinKeys_def
        subIsExact_def accountPinnedInARN_def split: option.split)
  show ?thesis
    unfolding policy_Validate_None account_policy_def by (auto simp: c v comp_def)
qed

lemma account_rule_matches:
  "rule_matches cel now (account_rule x) d \<longleftrightarrow> Claim d ''aws.aws_account'' = Some (fst x)"
  by (cases x) (simp add: rule_matches_iff account_rule_def subMatches_def)

lemma first_account_rule:
  "first_rule cel clock d i (map account_rule table) =
     (case Claim d ''aws.aws_account'' of
        None \<Rightarrow> None
      | Some account \<Rightarrow> (case map_of table account of
          None \<Rightarrow> None
        | Some g \<Rightarrow> Some (i + length (takeWhile (\<lambda>x. fst x \<noteq> account) table), account_rule (account, g))))"
  by (induction table arbitrary: i) (auto simp: account_rule_matches split: option.split)

lemma account_policy_Evaluate:
  fixes cel :: "('env, 'ast, 'prg) cel_api"
  shows "policy_Evaluate cel clock \<lparr>Rules = map account_rule table, validated = True\<rparr> d =
     (case Option.bind (Claim d ''aws.aws_account'') (\<lambda>account. map_option (Pair account) (map_of table account)) of
        None \<Rightarrow> Inl NoRuleMatched
      | Some (account, g) \<Rightarrow>
          Inr (decision_of (length (takeWhile (\<lambda>x. fst x \<noteq> account) table)) (account_rule (account, g) :: 'prg Rule)))"
  by (auto simp: policy_Evaluate_def first_account_rule split: option.split)

lemma decision_account_rule:
  "Account (decision_of i (account_rule (account, g))) = Grant_Account g"
  "Permissions (decision_of i (account_rule (account, g))) = permissionLimits g"
  "MaxExpiry (decision_of i (account_rule (account, g))) = Grant_MaxExpiry g"
  by (simp_all add: decision_of_def account_rule_def)

section \<open>From the mint to the user JWT\<close>

text \<open>
  What the OIDC library documents of a token it has verified: its claims are the payload, the middle
  segment of the token. They are read into a raw message, which is the payload without the white space around it.
\<close>

definition json_trim :: "string \<Rightarrow> string" where
  "json_trim s = rev (skip_ws (rev (skip_ws s)))"

lemma json_trim_Marshal: "json_trim (Marshal (JObj ms)) = Marshal (JObj ms)"
proof -
  have b: "\<not> json_space (CHR ''{'')" "\<not> json_space (CHR ''}'')" by (simp_all add: json_space_def byte_def)
  have "\<exists>l. marshal (JObj ns) = ''{'' @ l @ ''}''" for ns
    using marshal_members_end [of ns] by (cases "ns = []") (auto intro: exI [of _ "[]"])
  moreover have "\<exists>ns. sort_maps (JObj ms) = JObj ns" by simp
  ultimately obtain l where "Marshal (JObj ms) = ''{'' @ l @ ''}''" unfolding Marshal_def by metis
  then show ?thesis using b by (simp add: json_trim_def skip_ws_def)
qed

definition payload_contract :: "('cas, 'prov, 'idv) oidc_api \<Rightarrow> bool" where
  "payload_contract oidc \<longleftrightarrow>
     (\<forall>idv tok idt payload. idv_Verify oidc idv tok = Inr idt \<longrightarrow>
        RawURL_DecodeString (Split CHR ''.'' tok ! 1) = Some payload \<longrightarrow> tok_Claims idt = Inr (json_trim payload))"

lemma minted_verified:
  assumes "Mint sha256 sign now s opts = Inr tok" and "mintable s opts" and "no_lookalikes opts" and "no_aws_claims opts"
    and "minted_issuer s opts \<noteq> []" and "opt_AWSAccount opts \<noteq> []"
    and "payload_contract oidc" and "visits order"
    and "map_of (issuers v) (minted_issuer s opts) = Some entry"
    and "\<forall>(k, want) \<in> set (requireClaims entry). k = ''aws.aws_account'' \<and> want = opt_AWSAccount opts"
    and "idv_Verify oidc (entry_verifier entry) tok = Inr idt" and "audienceAllowed v (tok_Audience idt)"
  shows "\<exists>d. Verify oidc order v tok = Inr d \<and> Claim d ''aws.aws_account'' = Some (opt_AWSAccount opts)
    \<and> Subject d = tok_Subject idt \<and> Expiry d = tok_Expiry idt"
proof -
  obtain i where i: "Parse order (Marshal (JObj (mint_claims now s opts))) = Inr i"
    "Claim i ''aws.aws_account'' = Some (opt_AWSAccount opts)"
    using minted_Parse [OF assms(2)] minted_aws_claim(1) [OF assms(8,2,4)] assms(6) by metis
  let ?d = "i\<lparr>Issuer := tok_Issuer idt, Subject := tok_Subject idt, Audience := tok_Audience idt, Expiry := tok_Expiry idt\<rparr>"
  have d: "Claim ?d n = Claim i n" for n by (simp add: Claim_def)
  have "unmet_claim ?d cs = None" if "\<forall>(k, want) \<in> set cs. k = ''aws.aws_account'' \<and> want = opt_AWSAccount opts" for cs
    using that by (induction cs) (auto simp: d i(2))
  then have m: "unmet_claim ?d (requireClaims entry) = None" using assms(10) by blast
  have t: "tok \<noteq> []" using Mint_Inr [OF assms(1)] by auto
  have c: "tok_Claims idt = Inr (Marshal (JObj (mint_claims now s opts)))"
    using assms(7,11) minted_payload [OF assms(1)] by (auto simp: payload_contract_def json_trim_Marshal)
  have "Verify oidc order v tok = Inr ?d"
    using t minted_unverifiedIssuer [OF assms(1-3,5)] assms(9,11,12) c i(1) m
    by (simp add: Verify_def Let_def)
  then show ?thesis using d i(2) by auto
qed

text \<open>
  C9. An account table does what it says, from the mint to the user JWT. Take the mock provider, a
  verifier that trusts it, and a policy that is a table from AWS accounts to grants. For a token
  the provider mints for an AWS account and the OIDC library accepts: if the table has no entry for the
  account the connection is denied; otherwise the JWT library is asked to sign, for the user key of the request,
  the subject of the token, the NATS account and the permissions of exactly that entry, and the
  expiry of the token capped by the entry, and what it signs is the answer. No other entry of the
  table, and no order Go visits its maps in, has an influence.
\<close>

theorem account_table_decides:
  assumes "Mint sha256 sign now s opts = Inr (Token req)" and "mintable s opts" and "no_lookalikes opts" and "no_aws_claims opts"
    and "minted_issuer s opts \<noteq> []" and "opt_AWSAccount opts \<noteq> []"
    and "payload_contract oidc" and "visits (visit_order env)"
    and "state a = \<lparr>rs_verifier = v, rs_policy = p\<rparr>"
    and "map_of (issuers v) (minted_issuer s opts) = Some entry"
    and "\<forall>(k, want) \<in> set (requireClaims entry). k = ''aws.aws_account'' \<and> want = opt_AWSAccount opts"
    and "idv_Verify oidc (entry_verifier entry) (Token req) = Inr idt" and "audienceAllowed v (tok_Audience idt)"
    and "policy_Validate cel ext (account_policy table) = (p, None)"
    and "NewUserClaims jwt (UserNkey req) = Some uc"
  shows "fst (Authorize oidc cel jwt env req a) =
    (case map_of table (opt_AWSAccount opts) of
       None \<Rightarrow> ErrDenied
     | Some g \<Rightarrow>
         (case Encode jwt (uc\<lparr>uc_Name := tok_Subject idt, uc_Audience := Grant_Account g,
                 uc_Permissions := permissionLimits g,
                 uc_Expires := Unix (cappedExpiry (now_cap env) (tok_Expiry idt) (Grant_MaxExpiry g))\<rparr>) (signKey a) of
            Inl e \<Rightarrow> ErrDenied
          | Inr userJWT \<Rightarrow> Issued userJWT))"
proof -
  obtain d where d: "Verify oidc (visit_order env) v (Token req) = Inr d" "Claim d ''aws.aws_account'' = Some (opt_AWSAccount opts)"
    "Subject d = tok_Subject idt" "Expiry d = tok_Expiry idt"
    using minted_verified [OF assms(1-8,10-13)] by blast
  have t: "Token req \<noteq> []" using Mint_Inr [OF assms(1)] by auto
  have "p = \<lparr>Rules = map account_rule table, validated = True\<rparr>" using assms(14) by (simp add: account_policy_valid)
  then show ?thesis
    using t d assms(9,15)
    by (simp add: Authorize_def Let_def account_policy_Evaluate user_claims_def decision_account_rule
        split: option.split sum.split)
qed

text \<open>An OIDC library that takes the payload as it is, and a table with one entry.\<close>

definition reading_oidc :: "(unit, string, string) oidc_api" where
  "reading_oidc =
     \<lparr>NewProvider = (\<lambda>_ url. Inr url), provider_Verifier = (\<lambda>prov _. prov),
      idv_Verify = (\<lambda>idv tok.
        (case RawURL_DecodeString (Split CHR ''.'' tok ! 1) of
           None \<Rightarrow> Inl ''malformed''
         | Some payload \<Rightarrow> Inr \<lparr>tok_Issuer = idv, tok_Subject = ''s'', tok_Audience = [''nats''],
                                 tok_Expiry = time_Unix 1700000300, tok_Claims = Inr (json_trim payload)\<rparr>))\<rparr>"

definition reading_verifier :: "string Verifier" where
  "reading_verifier = \<lparr>issuers = [(''http://127.0.0.1:1'', \<lparr>entry_verifier = ''http://127.0.0.1:1'', requireClaims = []\<rparr>)],
     audiences = {''nats''}\<rparr>"

theorem account_table_decides_witness:
  "\<exists>tok. fst (Authorize reading_oidc sample_cel sample_jwt sample_env \<lparr>UserNkey = ''U'', Token = tok\<rparr>
      (Authorizer_New reading_verifier \<lparr>Rules = [account_rule (''123456789012'', sample_grant ''APP'')], validated = True\<rparr> ''K'' None))
    = Issued ''KsAPP''"
proof -
  let ?p = "\<lparr>Rules = [account_rule (''123456789012'', sample_grant ''APP'')], validated = True\<rparr> :: string Policy"
  let ?a = "Authorizer_New reading_verifier ?p ''K'' None"
  obtain tok where t: "Mint (\<lambda>m. m) (\<lambda>p d. Inr (p @ take 3 d)) (time_Unix 1700000000) sample_idp sample_opts = Inr tok"
    using sample_minted by blast
  let ?req = "\<lparr>UserNkey = ''U'', Token = tok\<rparr>"
  have m: "Mint (\<lambda>m. m) (\<lambda>p d. Inr (p @ take 3 d)) (time_Unix 1700000000) sample_idp sample_opts = Inr (Token ?req)"
    using t by simp
  have n: "no_lookalikes sample_opts"
  proof -
    have "\<not> field_match ''iss'' ''ref''" "\<not> field_match ''exp'' ''ref''" "\<not> field_match ''aud'' ''ref''" by code_simp+
    then show ?thesis by (simp add: no_lookalikes_def sample_opts_def)
  qed
  have w: "no_aws_claims sample_opts"
    by (simp add: no_aws_claims_def sample_opts_def HasPrefix_def Namespace_def)
  have i: "minted_issuer sample_idp sample_opts = ''http://127.0.0.1:1''" "opt_AWSAccount sample_opts = ''123456789012''"
    by (simp_all add: minted_issuer_def sample_opts_def sample_idp_def)
  have c: "payload_contract reading_oidc" by (auto simp: payload_contract_def reading_oidc_def)
  have v: "visits (visit_order sample_env)" using visits_id by (simp add: sample_env_def)
  have s: "state ?a = \<lparr>rs_verifier = reading_verifier, rs_policy = ?p\<rparr>" "signKey ?a = ''K''"
    by (simp_all add: Authorizer_New_def)
  have e: "map_of (issuers reading_verifier) (minted_issuer sample_idp sample_opts)
      = Some \<lparr>entry_verifier = ''http://127.0.0.1:1'', requireClaims = []\<rparr>"
    by (simp add: i reading_verifier_def)
  have k: "idv_Verify reading_oidc ''http://127.0.0.1:1'' (Token ?req)
      = Inr \<lparr>tok_Issuer = ''http://127.0.0.1:1'', tok_Subject = ''s'', tok_Audience = [''nats''],
             tok_Expiry = time_Unix 1700000300,
             tok_Claims = Inr (Marshal (JObj (mint_claims (time_Unix 1700000000) sample_idp sample_opts)))\<rparr>" (is "_ = Inr ?idt")
    using minted_payload [OF t] by (simp add: reading_oidc_def json_trim_Marshal)
  have u: "audienceAllowed reading_verifier (tok_Audience ?idt)" by (simp add: audienceAllowed_def reading_verifier_def)
  have p: "policy_Validate sample_cel (\<lambda>_. None) (account_policy [(''123456789012'', sample_grant ''APP'')]) = (?p, None)"
    by (simp add: account_policy_valid account_id_def sample_grant_def byte_def)
  obtain uc where uc: "NewUserClaims sample_jwt (UserNkey ?req) = Some uc" by (simp add: sample_jwt_def)
  have "fst (Authorize reading_oidc sample_cel sample_jwt sample_env ?req ?a) = Issued ''KsAPP''"
    using account_table_decides [OF m sample_mintable n w _ _ c v s(1) e _ _ u p uc] k i s(2)
    by (simp add: sample_jwt_def sample_grant_def)
  then show ?thesis by blast
qed

end
