(* ===== verification/Deployment.thy ===== *)
theory Deployment
  imports AwsThreadsProps EndToEnd RunningProps
begin

text \<open>
  A client and the service together: a token that a call of the AWS token source returns, on the client's side
  and under any interleaving there, in a request to the running service, under any interleaving on its side
  and with any configurations reloaded at any time.

  What the two sides do not control is in three contracts, each documented by its party: what STS puts into a
  web identity token (\<open>sts_contract\<close>), and what the OIDC library hands on of a token it has verified
  (\<open>payload_contract\<close>, \<open>audience_contract\<close>).
\<close>

section \<open>What STS and the OIDC library document\<close>

text \<open>The payload of a token as the OIDC library hands it on.\<close>

definition token_payload :: "string \<Rightarrow> string option" where
  "token_payload tok = map_option json_trim (RawURL_DecodeString (Split CHR ''.'' tok ! 1))"

text \<open>
  A web identity token: a compact JWT, so without white space around it, with an expiry and the requested
  audiences; its payload has the AWS object, which names the account of the caller, and no other
  claim of the \<open>aws\<close> names.
\<close>

definition sts_token :: "string list \<Rightarrow> string \<Rightarrow> string \<Rightarrow> bool" where
  "sts_token auds account tok \<longleftrightarrow>
     TrimSpace tok = tok \<and> (\<exists>ex. unverifiedExpiryAudience tok = Inr (ex, auds))
     \<and> (\<exists>payload raw. token_payload tok = Some payload \<and> decode_map payload = Some raw
          \<and> (\<forall>k \<in> fst ` set raw. k \<noteq> ''aws'' \<and> \<not> HasPrefix k ''aws.'')
          \<and> (\<forall>t. scalar_at (JObj raw) [Namespace, ''aws_account''] t \<longleftrightarrow> t = account))"

text \<open>Whatever callers there are: \<open>account_of\<close> is the account of the caller a token was given to.\<close>

definition sts_contract :: "(string \<Rightarrow> string) \<Rightarrow> (sts_input \<times> string) set \<Rightarrow> bool" where
  "sts_contract account_of minted \<longleftrightarrow> (\<forall>(input, tok) \<in> minted. sts_token (in_Audience input) (account_of tok) tok)"

text \<open>The audience of a verified token is the \<open>aud\<close> of its payload.\<close>

definition audience_contract :: "('cas, 'prov, 'idv) oidc_api \<Rightarrow> bool" where
  "audience_contract oidc \<longleftrightarrow>
     (\<forall>idv tok idt ex auds. idv_Verify oidc idv tok = Inr idt \<longrightarrow>
        unverifiedExpiryAudience tok = Inr (ex, auds) \<longrightarrow> tok_Audience idt = auds)"

section \<open>A token of STS, verified\<close>

lemma sts_token_verified:
  assumes "sts_token auds account tok" and "payload_contract oidc" and "audience_contract oidc" and "visits order"
    and "Verify oidc order v tok = Inr d"
  shows "Audience d = auds \<and> Claim d ''aws.aws_account'' = Some account"
proof -
  obtain iss entry idt payload d0 where i: "map_of (issuers v) iss = Some entry" "idv_Verify oidc (entry_verifier entry) tok = Inr idt"
    "tok_Claims idt = Inr payload" "Parse order payload = Inr d0" "d = identity_of_token idt d0"
    using assms(5) unfolding Verify_Inr by blast
  obtain ex raw p where t: "unverifiedExpiryAudience tok = Inr (ex, auds)" "token_payload tok = Some p" "decode_map p = Some raw"
    "\<forall>k \<in> fst ` set raw. k \<noteq> ''aws'' \<and> \<not> HasPrefix k ''aws.''"
    "\<forall>t. scalar_at (JObj raw) [Namespace, ''aws_account''] t \<longleftrightarrow> t = account"
    using assms(1) by (auto simp: sts_token_def)
  have "payload = p" using t(2) i(2,3) assms(2) by (auto simp: token_payload_def payload_contract_def)
  moreover have "claim_source raw (''aws.'' @ ''aws_account'') t \<longleftrightarrow> t = account" for t
  proof -
    have "\<not> scalar_at (JObj raw) [''aws.'' @ ''aws_account''] t" "\<not> scalar_at (JObj raw) [''aws'', ''aws_account''] t"
      using t(4) by (force simp: scalar_member HasPrefix_def)+
    then show ?thesis using t(5) by (subst aws_name_sources) auto
  qed
  ultimately have "Claim d0 ''aws.aws_account'' = Some account"
    using Claim_source [OF assms(4) i(4), of raw "''aws.aws_account''"] t(3) by (cases "Claim d0 ''aws.aws_account''") auto
  moreover have "tok_Audience idt = auds" using assms(3) i(2) t(1) by (simp add: audience_contract_def)
  ultimately show ?thesis by (simp add: i(5) identity_of_token_def)
qed

text \<open>A token the client gets is a whole one that STS has answered to a request for its audience.\<close>

lemma client_token:
  assumes "system_initial d0 w0" and "conc_step\<^sup>*\<^sup>* w0 w" and "(j, Done (Some (Inr tok))) \<in> set (sys_threads w)"
    and "d0 (ts_cachePath (sys_sources w ! j)) = None" and "sts_contract account_of (sys_minted w)"
  shows "\<exists>input. (input, tok) \<in> sys_minted w \<and> in_Audience input = [ts_audience (sys_sources w ! j)]"
proof -
  let ?ts = "sys_sources w ! j"
  have one: "\<exists>aud. in_Audience input = [aud]" if "(input, b) \<in> sys_minted w" for input b
    using requests_to_sts.reachable_inv [OF assms(1,2)] that by (auto simp: single_audience_def)
  have "good_token d0 w j tok"
    using cache_files.reachable_inv [OF assms(1,2)] assms(3) by (auto simp: files_ok_def)
  then consider "(mint_input ?ts, tok) \<in> sys_minted w"
    | input b ex auds where "(input, b) \<in> sys_minted w" "tok = TrimSpace b"
      "unverifiedExpiryAudience tok = Inr (ex, auds)" "ts_audience ?ts \<in> set auds"
    using assms(4) by (auto simp: good_token_def)
  then show ?thesis
  proof cases
    case 1
    then show ?thesis by (intro exI [of _ "mint_input ?ts"]) (simp add: mint_input_def)
  next
    case 2
    then have t: "sts_token (in_Audience input) (account_of b) b" using assms(5) by (auto simp: sts_contract_def)
    then have "tok = b" using 2(2) by (simp add: sts_token_def)
    moreover have "in_Audience input = [ts_audience ?ts]"
      using t 2(3,4) one [OF 2(1)] \<open>tok = b\<close> by (auto simp: sts_token_def)
    ultimately show ?thesis using 2(1) by blast
  qed
qed

section \<open>From the client to the grant\<close>

text \<open>
  C3. From the client's cache to the grant. On one side any number of token sources, calls, accounts and processes over
  one file system, without a file under the source's cache path at the start; on the other the running service, with any
  configurations reloaded at any time. If a call of \<open>Token\<close> returns a token and the service answers a request with
  it by a JWT, then the token is a whole one that STS answered to a request for the source's audience; some one
  configuration that was in force while the request ran lists that audience and the issuer of the token; and a rule of
  its policy granted it. Wherever that issuer's entry or that rule asks for an AWS account, it is the account of
  the caller that STS gave the token to. The JWT carries what that rule grants.
\<close>

theorem client_to_service:
  assumes "system_initial d0 w0" and "conc_step\<^sup>*\<^sup>* w0 w" and "(j, Done (Some (Inr (Token (c_req c))))) \<in> set (sys_threads w)"
    and "d0 (ts_cachePath (sys_sources w ! j)) = None" and "sts_contract account_of (sys_minted w)"
    and "oidc_family apis issuer_of" and "\<forall>oidc \<in> apis. payload_contract oidc \<and> audience_contract oidc"
    and "run cel ext api out path = (acts, Inr s)" and "out_oidc out \<in> apis"
    and "(process_step cel ext jwt recovers errText malformed path apis)\<^sup>*\<^sup>* (start_process acts s) p"
    and "c \<in> set (p_calls p)" and "c_pc c = Q_done (Issued tok)" and "visits (visit_order (c_env c))"
  shows "(\<exists>input. (input, Token (c_req c)) \<in> sys_minted w \<and> in_Audience input = [ts_audience (sys_sources w ! j)])
    \<and> (\<exists>n cfg rs d iss i uc.
        0 < n \<and> c_began c \<le> n \<and> n \<le> c_answered c \<and> c_answered c \<le> length (p_history p)
      \<and> p_history p ! (n - 1) = (cfg, rs)
      \<and> Verify (c_oidc c) (visit_order (c_env c)) (rs_verifier rs) (Token (c_req c)) = Inr d
      \<and> Claim d ''aws.aws_account'' = Some (account_of (Token (c_req c)))
      \<and> ts_audience (sys_sources w ! j) \<in> set (cfg_Audiences cfg)
      \<and> iss \<in> set (cfg_Issuers cfg) \<and> Issuer_URL iss = Issuer d
      \<and> (\<forall>a. (''aws.aws_account'', a) \<in> set (Issuer_RequireClaims iss) \<longrightarrow> a = account_of (Token (c_req c)))
      \<and> i < length (Rules (cfg_Policy cfg))
      \<and> (let r = Rules (cfg_Policy cfg) ! i in
           (\<forall>a. (''aws.aws_account'', a) \<in> set (Match_Claims (Rule_Match r)) \<longrightarrow> a = account_of (Token (c_req c)))
           \<and> (hasStrongPin r \<or> Match_AllowBroad (Rule_Match r))
           \<and> NewUserClaims jwt (UserNkey (c_req c)) = Some uc
           \<and> Encode jwt (user_claims d (decision_of i r) (now_cap (c_env c)) uc) (signKey (svc_auth s)) = Inr tok))"
proof -
  obtain input where m: "(input, Token (c_req c)) \<in> sys_minted w" "in_Audience input = [ts_audience (sys_sources w ! j)]"
    using client_token [OF assms(1-5)] by blast
  have t: "sts_token [ts_audience (sys_sources w ! j)] (account_of (Token (c_req c))) (Token (c_req c))"
    using assms(5) m by (auto simp: sts_contract_def)
  note ok = reachable_ok [OF assms(8-10)]
  obtain n cfg rs d iss i uc where g:
    "0 < n \<and> c_began c \<le> n \<and> n \<le> c_answered c \<and> c_answered c \<le> length (p_history p)" "p_history p ! (n - 1) = (cfg, rs)"
    "Verify (c_oidc c) (visit_order (c_env c)) (rs_verifier rs) (Token (c_req c)) = Inr d"
    "iss \<in> set (cfg_Issuers cfg)" "Issuer_URL iss = Issuer d"
    "\<forall>(k, want) \<in> set (Issuer_RequireClaims iss). Claim d k = Some want"
    "\<exists>aud \<in> set (Audience d). aud \<in> set (cfg_Audiences cfg)" "i < length (Rules (cfg_Policy cfg))"
    "\<forall>(k, want) \<in> set (Match_Claims (Rule_Match (Rules (cfg_Policy cfg) ! i))). Claim d k = Some want"
    "hasStrongPin (Rules (cfg_Policy cfg) ! i) \<or> Match_AllowBroad (Rule_Match (Rules (cfg_Policy cfg) ! i))"
    "NewUserClaims jwt (UserNkey (c_req c)) = Some uc"
    "Encode jwt (user_claims d (decision_of i (Rules (cfg_Policy cfg) ! i)) (now_cap (c_env c)) uc) (signKey (svc_auth s)) = Inr tok"
    using issued_call_grant [OF assms(6) ok assms(11,12)] unfolding Let_def by blast
  have "c_oidc c \<in> apis" using answered_call [OF ok assms(11,12)] by blast
  then have d: "Audience d = [ts_audience (sys_sources w ! j)]" "Claim d ''aws.aws_account'' = Some (account_of (Token (c_req c)))"
    using sts_token_verified [OF t _ _ assms(13) g(3)] assms(7) by blast+
  have "a = account_of (Token (c_req c))"
    if "(''aws.aws_account'', a) \<in> set (Issuer_RequireClaims iss) \<union> set (Match_Claims (Rule_Match (Rules (cfg_Policy cfg) ! i)))" for a
    using that g(6,9) d(2) by fastforce
  then show ?thesis
    by (intro conjI [OF exI [of _ input]] exI [of _ n] exI [of _ cfg] exI [of _ rs] exI [of _ d] exI [of _ iss] exI [of _ i] exI [of _ uc])
      (use m g d in \<open>simp_all add: Let_def\<close>)
qed

lemma RawURL_alphabet: "set (RawURL_EncodeToString s) \<subseteq> alphabet ` {..<64}"
proof (induction s rule: RawURL_EncodeToString.induct)
  case (2 x)
  have "16 * (byte x mod 4) < 64" using sextet_bounds(1) [of "byte x mod 4" 0] by simp
  then show ?case using byte_lt(1) [of x] by simp
next
  case (3 x y)
  have "4 * (byte y mod 16) < 64" using sextet_bounds(2) [of "byte y mod 16" 0] by simp
  moreover have "16 * (byte x mod 4) + byte y div 16 < 64" by (simp add: sextet_bounds byte_lt)
  ultimately show ?case using byte_lt(1) [of x] by simp
next
  case (4 x y z rest)
  have "byte x div 4 < 64" "16 * (byte x mod 4) + byte y div 16 < 64"
    "4 * (byte y mod 16) + byte z div 64 < 64" "byte z mod 64 < 64"
    by (simp_all only: byte_lt sextet_bounds mod_less_divisor zero_less_numeral)
  with 4 show ?case by simp
qed simp

lemma RawURL_printable: "c \<in> set (RawURL_EncodeToString s) \<Longrightarrow> 32 < byte c \<and> byte c < 128"
proof -
  assume "c \<in> set (RawURL_EncodeToString s)"
  then obtain v where "v < 64" "c = alphabet v" using RawURL_alphabet by fast
  then show ?thesis by (auto simp: byte_alphabet)
qed

section \<open>A deployment to evaluate\<close>

text \<open>The only call of a process can run on, as long as it does not panic.\<close>

lemma call_runs:
  assumes "p_exit p = None" and "p_calls p = [c]"
    and "\<forall>m \<le> n. fst ((request_step (c_oidc c) cel jwt (c_env c) (c_req c) ^^ m) (c_pc c, p_auth p)) \<noteq> Q_done Panicked"
  shows "\<exists>p' c'. (process_step cel ext jwt recovers errText malformed path apis)\<^sup>*\<^sup>* p p' \<and> p_calls p' = [c'] \<and> p_exit p' = None
    \<and> c_req c' = c_req c \<and> c_env c' = c_env c \<and> c_oidc c' = c_oidc c
    \<and> (c_pc c', p_auth p') = (request_step (c_oidc c) cel jwt (c_env c) (c_req c) ^^ n) (c_pc c, p_auth p)"
  using assms(3)
proof (induction n)
  case 0
  show ?case using assms(1,2) by (intro exI [of _ p] exI [of _ c]) simp
next
  case (Suc n)
  let ?f = "request_step (c_oidc c) cel jwt (c_env c) (c_req c)"
  obtain q c1 where q: "(process_step cel ext jwt recovers errText malformed path apis)\<^sup>*\<^sup>* p q" "p_calls q = [c1]" "p_exit q = None"
    "c_req c1 = c_req c" "c_env c1 = c_env c" "c_oidc c1 = c_oidc c"
    "(c_pc c1, p_auth q) = (?f ^^ n) (c_pc c, p_auth p)"
    using Suc.IH Suc.prems by auto
  have next_step: "(?f ^^ Suc n) (c_pc c, p_auth p) = ?f (c_pc c1, p_auth q)" by (simp add: q(7))
  show ?case
  proof (cases "call_over (c_pc c1)")
    case True
    then obtain ans where "c_pc c1 = Q_done ans" using call_over_Some by blast
    then have "?f (c_pc c1, p_auth q) = (c_pc c1, p_auth q)" by simp
    then show ?thesis using q next_step by (intro exI [of _ q] exI [of _ c1]) simp
  next
    case False
    obtain c2 a2 where s: "call_step cel jwt (length (p_history q)) c1 (p_auth q) = (c2, a2)" by fastforce
    have e: "(c_pc c2, a2) = ?f (c_pc c1, p_auth q)" "c_req c2 = c_req c1" "c_env c2 = c_env c1" "c_oidc c2 = c_oidc c1"
      using s q(4-6) by (auto simp: call_step_def split: prod.splits)
    have x: "panic_exit recovers (c_pc c2) = None"
      using Suc.prems next_step e(1) unfolding panic_exit_None by (metis fst_conv order_refl)
    have "p_calls q = [] @ c1 # []" using q(2) by simp
    from process_step.lives [OF live_step.calls [OF q(3) this False s]]
    have "process_step cel ext jwt recovers errText malformed path apis q
        (q\<lparr>p_auth := a2, p_calls := [c2], p_exit := panic_exit recovers (c_pc c2)\<rparr>)"
      by simp
    then have "process_step cel ext jwt recovers errText malformed path apis q (q\<lparr>p_auth := a2, p_calls := [c2], p_exit := None\<rparr>)"
      unfolding x .
    with q(1) have "(process_step cel ext jwt recovers errText malformed path apis)\<^sup>*\<^sup>* p (q\<lparr>p_auth := a2, p_calls := [c2], p_exit := None\<rparr>)" by simp
    then show ?thesis using q e next_step
      by (intro exI [of _ "q\<lparr>p_auth := a2, p_calls := [c2], p_exit := None\<rparr>"] exI [of _ c2]) simp
  qed
qed

lemma no_panic_before:
  assumes "(request_step oidc cel jwt env req ^^ n) x = (Q_done ans, a)" and "ans \<noteq> Panicked"
  shows "\<forall>m \<le> n. fst ((request_step oidc cel jwt env req ^^ m) x) \<noteq> Q_done Panicked"
proof (intro allI impI notI)
  fix m assume m: "m \<le> n" and "fst ((request_step oidc cel jwt env req ^^ m) x) = Q_done Panicked"
  then obtain b where "(request_step oidc cel jwt env req ^^ m) x = (Q_done Panicked, b)" by (metis prod.collapse)
  moreover have "(request_step oidc cel jwt env req ^^ n) x
      = (request_step oidc cel jwt env req ^^ (n - m)) ((request_step oidc cel jwt env req ^^ m) x)"
    using m by (metis comp_apply funpow_add le_add_diff_inverse2)
  ultimately show False using assms by (simp add: done_steps)
qed

text \<open>An OIDC library that hands on the payload and the audience of a token as they are.\<close>

definition faithful_oidc :: "(unit, string, string) oidc_api" where
  "faithful_oidc =
     \<lparr>NewProvider = (\<lambda>_ url. Inr url), provider_Verifier = (\<lambda>prov _. prov),
      idv_Verify = (\<lambda>idv tok.
        (case (unverifiedExpiryAudience tok, token_payload tok) of
           (Inr (ex, auds), Some payload) \<Rightarrow>
             Inr \<lparr>tok_Issuer = idv, tok_Subject = ''s'', tok_Audience = auds, tok_Expiry = ex, tok_Claims = Inr payload\<rparr>
         | _ \<Rightarrow> Inl ''malformed''))\<rparr>"

lemma faithful_Verify:
  "idv_Verify faithful_oidc idv tok = Inr idt \<longleftrightarrow>
     (\<exists>ex auds payload. unverifiedExpiryAudience tok = Inr (ex, auds) \<and> token_payload tok = Some payload
        \<and> idt = \<lparr>tok_Issuer = idv, tok_Subject = ''s'', tok_Audience = auds, tok_Expiry = ex, tok_Claims = Inr payload\<rparr>)"
  by (cases "unverifiedExpiryAudience tok"; cases "token_payload tok") (auto simp: faithful_oidc_def)

lemma faithful_contracts:
  "oidc_family {faithful_oidc} (\<lambda>prov. prov)" "payload_contract faithful_oidc" "audience_contract faithful_oidc"
proof -
  have "NewProvider faithful_oidc client url = Inr url" "provider_Verifier faithful_oidc prov cfg = prov" for client url prov cfg
    by (simp_all add: faithful_oidc_def)
  then show "oidc_family {faithful_oidc} (\<lambda>prov. prov)" by (simp add: oidc_family_def) (auto simp: faithful_Verify)
  show "payload_contract faithful_oidc"
    unfolding payload_contract_def faithful_Verify by (auto simp: token_payload_def)
  show "audience_contract faithful_oidc"
    unfolding audience_contract_def faithful_Verify by auto
qed

definition deployed_payload :: string where
  "deployed_payload = ''{\"iss\":\"https://sts\",\"aud\":\"nats\",\"exp\":1700000300,\"https://sts.amazonaws.com/\":{\"aws_account\":\"123456789012\"}}''"

definition deployed_token :: string where
  "deployed_token = ''h'' @ ''.'' @ RawURL_EncodeToString deployed_payload @ ''.'' @ ''s''"

definition deployed_claims :: "(string \<times> json) list" where
  "deployed_claims = [(''iss'', JStr ''https://sts''), (''aud'', JStr ''nats''), (''exp'', JNum ''1700000300''),
    (''https://sts.amazonaws.com/'', JObj [(''aws_account'', JStr ''123456789012'')])]"

lemma deployed_payload_reads:
  "Unmarshal deployed_payload = Some (JObj deployed_claims)" "decode_map deployed_payload = Some deployed_claims"
  "json_trim deployed_payload = deployed_payload" "issuer_struct (JObj deployed_claims) = (''https://sts'', False)"
  by code_simp+

lemma deployed_expiry: "exp_aud_struct (JObj deployed_claims) = (\<lparr>Exp = 1700000300, Aud = Some (JStr ''nats'')\<rparr>, False)"
proof -
  have "\<not> field_match ''exp'' ''iss''" "\<not> field_match ''exp'' ''aud''" "field_match ''exp'' ''exp''"
    "\<not> field_match ''exp'' ''https://sts.amazonaws.com/''" "\<not> field_match ''aud'' ''iss''" "field_match ''aud'' ''aud''"
    "\<not> field_match ''aud'' ''https://sts.amazonaws.com/''"
    by code_simp+
  then show ?thesis by (simp add: exp_aud_struct_def deployed_claims_def exp_aud_field_def sample_expiry)
qed

lemma deployed_token_split: "Split CHR ''.'' deployed_token = [''h'', RawURL_EncodeToString deployed_payload, ''s'']"
  unfolding deployed_token_def by (intro Split_segments RawURL_EncodeToString_no_dot) simp_all

lemma deployed_token_reads:
  "unverifiedExpiryAudience deployed_token = Inr (time_Unix 1700000300, [''nats''])"
  "token_payload deployed_token = Some deployed_payload" "unverifiedIssuer deployed_token = Inr ''https://sts''"
  by (simp_all add: unverifiedExpiryAudience_def unverifiedIssuer_def token_payload_def deployed_token_split base64_roundtrip
      deployed_payload_reads deployed_expiry parseAudience_def json_string_def)

lemma deployed_token_documented: "sts_token [''nats''] ''123456789012'' deployed_token"
proof -
  have "\<forall>c \<in> set deployed_token. 32 < byte c \<and> byte c < 128"
    using RawURL_printable by (auto simp: deployed_token_def byte_def)
  then have t: "TrimSpace deployed_token = deployed_token" by (rule TrimSpace_printable)
  have k: "\<forall>k \<in> fst ` set deployed_claims. k \<noteq> ''aws'' \<and> \<not> HasPrefix k ''aws.''" by code_simp
  have "\<forall>t. scalar_at (JObj deployed_claims) [Namespace, ''aws_account''] t \<longleftrightarrow> t = ''123456789012''"
    by (auto simp: scalar_member Namespace_def deployed_claims_def)
  with t k show ?thesis unfolding sts_token_def
    using deployed_token_reads(1,2) deployed_payload_reads(2) by blast
qed

definition table_outside :: "(string, unit, string, string) outside" where
  "table_outside =
     \<lparr>out_io = sample_io [account_rule (''123456789012'', sample_grant ''APP'')] [], out_oidc = faithful_oidc, out_certs = (\<lambda>_. Some ())\<rparr>"

definition table_service :: "(string, string, string) service" where
  "table_service = projr (snd (run sample_cel (\<lambda>_. None) sample_service_api table_outside ''config.yaml''))"

lemma table_runs:
  "\<exists>acts. run sample_cel (\<lambda>_. None) sample_service_api table_outside ''config.yaml'' = (acts, Inr table_service)"
proof -
  have "\<not> isl (snd (run sample_cel (\<lambda>_. None) sample_service_api table_outside ''config.yaml''))" by code_simp
  then show ?thesis unfolding table_service_def
    by (cases "run sample_cel (\<lambda>_. None) sample_service_api table_outside ''config.yaml''")
      (metis snd_conv sum.collapse(2))
qed

definition deployed_request :: AuthorizationRequest where
  "deployed_request = \<lparr>UserNkey = ''U'', Token = deployed_token\<rparr>"

lemma table_service_state:
  "rs_policy (state (svc_auth table_service)) = \<lparr>Rules = map account_rule [(''123456789012'', sample_grant ''APP'')], validated = True\<rparr>"
  "issuers (rs_verifier (state (svc_auth table_service))) = [(''https://sts'', \<lparr>entry_verifier = ''https://sts'', requireClaims = []\<rparr>)]"
  "audiences (rs_verifier (state (svc_auth table_service))) = {''nats''}" "signKey (svc_auth table_service) = ''SA''"
  by code_simp+

lemma deployed_answer:
  "fst (Authorize faithful_oidc sample_cel sample_jwt sample_env deployed_request (svc_auth table_service)) = Issued ''SAsAPP''"
proof -
  let ?v = "rs_verifier (state (svc_auth table_service))"
  obtain d0 where d0: "Parse (\<lambda>v. v) deployed_payload = Inr d0" using deployed_payload_reads(2) by (simp add: Parse_def)
  have "Verify faithful_oidc (\<lambda>v. v) ?v deployed_token = Inr (identity_of_token \<lparr>tok_Issuer = ''https://sts'', tok_Subject = ''s'',
      tok_Audience = [''nats''], tok_Expiry = time_Unix 1700000300, tok_Claims = Inr deployed_payload\<rparr> d0)" (is "_ = Inr ?d")
    unfolding Verify_Inr using d0 deployed_token_reads
    by (intro exI [of _ "''https://sts''"]) (auto simp: table_service_state faithful_Verify deployed_token_def)
  note v = this
  then have "Claim ?d ''aws.aws_account'' = Some ''123456789012''"
    using sts_token_verified [OF deployed_token_documented faithful_contracts(2,3) visits_id] by blast
  then have e: "policy_Evaluate sample_cel (now_rules sample_env) (rs_policy (state (svc_auth table_service))) ?d
      = Inr (decision_of 0 (account_rule (''123456789012'', sample_grant ''APP'') :: string Rule))"
    unfolding table_service_state account_policy_Evaluate by simp
  have n: "deployed_token \<noteq> []" "Subject ?d = ''s''" by (simp_all add: deployed_token_def identity_of_token_def)
  show ?thesis
    unfolding Authorize_Issued using v e n
    by (auto simp: deployed_request_def table_service_state user_claims_def decision_account_rule sample_jwt_def sample_env_def
        sample_grant_def)
qed

definition direct_source :: TokenSource where
  "direct_source = aws_sample_source\<lparr>ts_cachePath := []\<rparr>"

definition client_start :: aws_system where
  "client_start = \<lparr>sys_disk = Map.empty, sys_used = {}, sys_sources = [direct_source], sys_minted = {}, sys_threads = []\<rparr>"

text \<open>A call without a cache file that STS answers with \<open>tok\<close>.\<close>

lemma client_runs:
  assumes "tok \<noteq> []"
  shows "\<exists>w. conc_step\<^sup>*\<^sup>* client_start w \<and> sys_threads w = [(0, Done (Some (Inr tok)))]
    \<and> sys_minted w = {(mint_input direct_source, tok)} \<and> ts_audience (sys_sources w ! 0) = ''nats''"
proof -
  let ?w1 = "client_start\<lparr>sys_threads := [(0, T_start False)]\<rparr>"
  let ?c = "(sample_choice 0)\<lparr>ch_client := (\<lambda>_. Inr (Some tok))\<rparr>"
  have 1: "conc_step client_start ?w1" using conc_step.arrives [of 0 client_start False] by (simp add: client_start_def)
  have p: "ts_cachePath direct_source = []" "ts_audience direct_source = ''nats''" by (simp_all add: direct_source_def aws_sample_source_def)
  have "\<exists>w. run_schedule (replicate 3 (0, ?c)) ?w1 = Some w \<and> sys_threads w = [(0, Done (Some (Inr tok)))]
      \<and> sys_minted w = {(mint_input direct_source, tok)} \<and> ts_audience (sys_sources w ! 0) = ''nats''"
    using assms p
    by (simp add: numeral_3_eq_3 can_step_def step_at_def client_start_def system_mint_def mint_def Let_def call_return_def)
  then obtain w where w: "run_schedule (replicate 3 (0, ?c)) ?w1 = Some w" "sys_threads w = [(0, Done (Some (Inr tok)))]"
    "sys_minted w = {(mint_input direct_source, tok)}" "ts_audience (sys_sources w ! 0) = ''nats''" by blast
  have "conc_step\<^sup>*\<^sup>* ?w1 w" using w(1) run_schedule_iff run_steps_conc by blast
  with 1 w(2-4) show ?thesis by (meson converse_rtranclp_into_rtranclp)
qed

lemma client_initial: "system_initial Map.empty client_start"
proof -
  have "\<not> tmp_name []" by code_simp
  then show ?thesis by (simp add: system_initial_def client_start_def direct_source_def aws_sample_source_def)
qed

theorem client_to_service_witness:
  "\<exists>w (acts :: (string, string, unit) action list) p c. conc_step\<^sup>*\<^sup>* client_start w \<and> (0, Done (Some (Inr (Token (c_req c))))) \<in> set (sys_threads w)
     \<and> (process_step sample_cel (\<lambda>_. None) sample_jwt False (\<lambda>_. []) (\<lambda>_. False) ''config.yaml'' {faithful_oidc})\<^sup>*\<^sup>*
          (start_process acts table_service) p
     \<and> p_calls p = [c] \<and> c_pc c = Q_done (Issued ''SAsAPP'')
     \<and> (\<exists>cfg. cfg \<in> fst ` set (p_history p) \<and> ''nats'' \<in> set (cfg_Audiences cfg))"
proof -
  let ?step = "process_step sample_cel (\<lambda>_. None) sample_jwt False (\<lambda>_. []) (\<lambda>_. False) ''config.yaml'' {faithful_oidc}"
  let ?f = "request_step faithful_oidc sample_cel sample_jwt sample_env deployed_request"
  have tok: "deployed_token \<noteq> []" by (simp add: deployed_token_def)
  obtain w where w: "conc_step\<^sup>*\<^sup>* client_start w" "sys_threads w = [(0, Done (Some (Inr deployed_token)))]"
    "sys_minted w = {(mint_input direct_source, deployed_token)}" "ts_audience (sys_sources w ! 0) = ''nats''"
    using client_runs [OF tok] by blast
  obtain acts where r: "run sample_cel (\<lambda>_. None) sample_service_api table_outside ''config.yaml'' = (acts, Inr table_service)"
    using table_runs by blast
  let ?c = "new_call deployed_request sample_env faithful_oidc 1"
  let ?p0 = "start_process acts table_service" and ?p1 = "(start_process acts table_service)\<lparr>p_calls := [?c]\<rparr>"
  have 1: "?step ?p0 ?p1"
  proof -
    have e: "p_exit ?p0 = None" "p_calls ?p0 @ [?c] = [?c]" "length (p_history ?p0) = 1" by (simp_all add: start_process_def)
    from process_step.arrives [OF e(1), of faithful_oidc "{faithful_oidc}"] show ?thesis using e(2,3) by (metis singletonI)
  qed
  have x: "p_exit ?p1 = None" "p_calls ?p1 = [?c]" by (simp_all add: start_process_def)
  have c1: "c_oidc ?c = faithful_oidc" "c_env ?c = sample_env" "c_req ?c = deployed_request" "c_pc ?c = Q_load"
    "p_auth ?p1 = svc_auth table_service" by (simp_all add: new_call_def start_process_def)
  have a: "(?f ^^ 9) (Q_load, svc_auth table_service) = (Q_done (Issued ''SAsAPP''),
      snd (Authorize faithful_oidc sample_cel sample_jwt sample_env deployed_request (svc_auth table_service)))"
    by (simp add: authorize_steps deployed_answer)
  obtain p c where p: "?step\<^sup>*\<^sup>* ?p1 p" "p_calls p = [c]" "c_req c = deployed_request" "c_env c = sample_env"
    "c_pc c = Q_done (Issued ''SAsAPP'')"
    using call_runs [OF x, of 9 sample_cel sample_jwt "\<lambda>_. None" False "\<lambda>_. []" "\<lambda>_. False" "''config.yaml''" "{faithful_oidc}"]
      no_panic_before [OF a] unfolding c1 a by auto
  have reach: "?step\<^sup>*\<^sup>* ?p0 p" using 1 p(1) by (rule converse_rtranclp_into_rtranclp)
  have t: "(0, Done (Some (Inr (Token (c_req c))))) \<in> set (sys_threads w)" using w(2) p(3) by (simp add: deployed_request_def)
  have m: "sts_contract (\<lambda>_. ''123456789012'') (sys_minted w)"
    using deployed_token_documented by (simp add: sts_contract_def w(3) mint_input_def direct_source_def aws_sample_source_def)
  have o: "\<forall>oidc \<in> {faithful_oidc}. payload_contract oidc \<and> audience_contract oidc" "out_oidc table_outside \<in> {faithful_oidc}"
    using faithful_contracts by (simp_all add: table_outside_def)
  have c: "c \<in> set (p_calls p)" using p(2) by simp
  have v: "visits (visit_order (c_env c))" using visits_id p(4) by (simp add: sample_env_def)
  from client_to_service [OF client_initial w(1) t _ m faithful_contracts(1) o(1) r o(2) reach c p(5) v] w(4)
  obtain n cfg rs where "0 < n" "n \<le> length (p_history p)" "p_history p ! (n - 1) = (cfg, rs)" "''nats'' \<in> set (cfg_Audiences cfg)"
    by auto
  moreover from this have "cfg \<in> fst ` set (p_history p)" using nth_mem [of "n - 1" "p_history p"] by force
  ultimately show ?thesis using w(1) t reach p(2,5) by blast
qed

end
