(* ===== verification/K8sAuth.thy ===== *)
theory K8sAuth
  imports GoSpace TokenHandler
begin

text \<open>
  \<open>lib/k8sauth/k8sauth.go\<close>: a token source that reads the token from the file the kubelet rotates.
  The file system and the state of the context are the environment of a call. The mutex around
  the last error makes each access to it one step.
\<close>

record K8sConfig =
  TokenPath :: string

datatype k8s_error =
    TokenPathRequired
  | ContextError string
  | ReadTokenFile string string
  | EmptyTokenFile string

record K8sSource =
  k8s_path :: string
  k8s_lastErr :: "k8s_error option"

definition DefaultServiceAccountTokenPath :: string where
  "DefaultServiceAccountTokenPath = ''/var/run/secrets/kubernetes.io/serviceaccount/token''"

definition K8s_New :: "K8sConfig \<Rightarrow> k8s_error + K8sSource" where
  "K8s_New cfg =
     (if TokenPath cfg = [] then Inl TokenPathRequired
      else Inr \<lparr>k8s_path = TokenPath cfg, k8s_lastErr = None\<rparr>)"

definition K8s_Token :: "string option \<Rightarrow> (string \<Rightarrow> string + string) \<Rightarrow> K8sSource \<Rightarrow> k8s_error + string" where
  "K8s_Token ctxErr readFile ts =
     (case ctxErr of
        Some e \<Rightarrow> Inl (ContextError e)
      | None \<Rightarrow>
          (case readFile (k8s_path ts) of
             Inl e \<Rightarrow> Inl (ReadTokenFile (k8s_path ts) e)
           | Inr b \<Rightarrow>
               (let tok = TrimSpace b in
                if tok = [] then Inl (EmptyTokenFile (k8s_path ts)) else Inr tok)))"

definition K8s_setLastError :: "k8s_error option \<Rightarrow> K8sSource \<Rightarrow> K8sSource" where
  "K8s_setLastError e ts = ts\<lparr>k8s_lastErr := e\<rparr>"

definition K8s_LastError :: "K8sSource \<Rightarrow> k8s_error option" where
  "K8s_LastError ts = k8s_lastErr ts"

text \<open>The function \<open>NATSOption\<close> hands to the client: one call, with the background context.\<close>

definition K8s_handler :: "(string \<Rightarrow> string + string) \<Rightarrow> K8sSource \<Rightarrow> string \<times> K8sSource" where
  "K8s_handler readFile ts =
     (case K8s_Token None readFile ts of
        Inl e \<Rightarrow> ([], K8s_setLastError (Some e) ts)
      | Inr tok \<Rightarrow> (tok, K8s_setLastError None ts))"

lemma K8s_Token_nonempty: "K8s_Token ctxErr readFile ts \<noteq> Inr []"
  by (auto simp: K8s_Token_def Let_def split: option.split sum.split)

interpretation k8s: token_handler "\<lambda>w s. (K8s_Token None w s, s)" K8s_handler K8s_LastError
  by unfold_locales
    (auto simp: K8s_Token_nonempty K8s_handler_def K8s_setLastError_def K8s_LastError_def split: sum.split)

text \<open>
  C29. The Kubernetes source hands over the token in the file. If the file holds a token of printable
  ASCII characters, possibly between white space, the handler returns exactly that token and clears
  \<open>LastError\<close>, whatever happened before, so that a rotated file is picked up on the next connect; and
  in every case the handler returns the empty token iff \<open>LastError\<close> is set afterwards.
\<close>

theorem k8s_handler_reads_token:
  assumes "readFile (k8s_path ts) = Inr (concat before @ tok @ concat after)"
    and "set before \<subseteq> set spaces" and "set after \<subseteq> set spaces"
    and "tok \<noteq> []" and "\<forall>c \<in> set tok. 32 < byte c \<and> byte c < 128"
  shows "fst (K8s_handler readFile ts) = tok \<and> K8s_LastError (snd (K8s_handler readFile ts)) = None
    \<and> (\<forall>rd ts'. fst (K8s_handler rd ts') = [] \<longleftrightarrow> K8s_LastError (snd (K8s_handler rd ts')) \<noteq> None)"
proof -
  have "K8s_Token None readFile ts = Inr tok"
    using assms(1,4) TrimSpace_around [OF assms(2,3,5)] by (simp add: K8s_Token_def Let_def)
  then show ?thesis using k8s.handler_token [of readFile ts tok] k8s.handler_empty_iff by simp
qed

theorem k8s_handler_reads_token_witness:
  "fst (K8s_handler (\<lambda>_. Inr (concat [] @ ''a.b.c'' @ concat [[CHR 0x0A]])) \<lparr>k8s_path = ''/t'', k8s_lastErr = Some (ContextError [])\<rparr>) = ''a.b.c''"
proof -
  have "EncodeRune 10 \<in> set spaces" by (simp add: spaces_def space_runes_def)
  moreover have "EncodeRune 10 = [CHR 0x0A]" by code_simp
  ultimately have "[CHR 0x0A] \<in> set spaces" by simp
  moreover have "\<forall>c \<in> set ''a.b.c''. 32 < byte c \<and> byte c < 128" by (simp add: byte_def)
  ultimately show ?thesis
    using k8s_handler_reads_token [of "\<lambda>_. Inr (concat [] @ ''a.b.c'' @ concat [[CHR 0x0A]])"
        "\<lparr>k8s_path = ''/t'', k8s_lastErr = Some (ContextError [])\<rparr>" "[]" "''a.b.c''" "[[CHR 0x0A]]"] by auto
qed

end
