(* ===== verification/K8sClient.thy ===== *)
theory K8sClient
  imports K8sAuth
begin

text \<open>
  \<open>test/k8s/client/main.go\<close>: the client of the Kubernetes end-to-end test. The NATS library is a
  parameter: connecting, which is given the URL and the token handler, publishing and flushing, and
  which of its errors is an authorization violation.
\<close>

record 'e nats_client =
  client_Connect :: "string \<Rightarrow> ((string \<Rightarrow> string + string) \<Rightarrow> string) \<Rightarrow> 'e option"
  is_ErrAuthorization :: "'e \<Rightarrow> bool"
  client_Publish :: "string \<Rightarrow> string \<Rightarrow> 'e option"
  client_Flush :: "'e option"

datatype 'e client_error =
    SourceError k8s_error
  | ConnectError 'e
  | ExpectedDenial
  | PublishError 'e
  | FlushError 'e

text \<open>What the client prints, and the error it ends with.\<close>

definition client_run ::
  "'e nats_client \<Rightarrow> (string \<Rightarrow> string + string) \<Rightarrow> string \<Rightarrow> string \<Rightarrow> string \<Rightarrow> string
   \<Rightarrow> string list \<times> 'e client_error option" where
  "client_run nc readFile url tokenPath subject expect =
     (case K8s_New \<lparr>TokenPath = tokenPath\<rparr> of
        Inl e \<Rightarrow> ([], Some (SourceError e))
      | Inr ts \<Rightarrow>
          (case K8s_Token None readFile ts of
             Inl e \<Rightarrow> ([], Some (SourceError e))
           | Inr _ \<Rightarrow>
               (case client_Connect nc url (\<lambda>rd. fst (K8s_handler rd ts)) of
                  Some e \<Rightarrow>
                    if expect = ''deny'' \<and> is_ErrAuthorization nc e then ([''DENIED_AS_EXPECTED''], None)
                    else ([], Some (ConnectError e))
                | None \<Rightarrow>
                    if expect = ''deny'' then ([], Some ExpectedDenial)
                    else (case client_Publish nc subject ''hello from k8s e2e'' of
                            Some e \<Rightarrow> ([], Some (PublishError e))
                          | None \<Rightarrow> (case client_Flush nc of
                                       Some e \<Rightarrow> ([], Some (FlushError e))
                                     | None \<Rightarrow> ([''PUBLISH_OK''], None))))))"

text \<open>The exit code.\<close>

definition client_main ::
  "'e nats_client \<Rightarrow> (string \<Rightarrow> string + string) \<Rightarrow> string \<Rightarrow> string \<Rightarrow> string \<Rightarrow> string \<Rightarrow> string list \<times> nat" where
  "client_main nc readFile url tokenPath subject expect =
     (if expect \<noteq> ''allow'' \<and> expect \<noteq> ''deny'' then ([], 1)
      else (case client_run nc readFile url tokenPath subject expect of
              (out, Some _) \<Rightarrow> (out, 1) | (out, None) \<Rightarrow> (out, 0)))"

text \<open>
  The verdict of the test client can be trusted. It exits with 0 exactly if there was a token to
  present and the outcome was the expected one: an authorization violation where a denial is
  expected, or a connection over which the message was published and flushed. A missing or empty
  token file and every other failure to connect end with 1 in both modes.
\<close>

theorem client_verdict:
  "snd (client_main nc readFile url tokenPath subject expect) = 0 \<longleftrightarrow>
     tokenPath \<noteq> [] \<and> (\<exists>b. readFile tokenPath = Inr b \<and> TrimSpace b \<noteq> [])
     \<and> (let answer = client_Connect nc url (\<lambda>rd. fst (K8s_handler rd \<lparr>k8s_path = tokenPath, k8s_lastErr = None\<rparr>)) in
        (expect = ''deny'' \<and> (\<exists>e. answer = Some e \<and> is_ErrAuthorization nc e))
        \<or> (expect = ''allow'' \<and> answer = None \<and> client_Publish nc subject ''hello from k8s e2e'' = None
            \<and> client_Flush nc = None))"
  by (auto simp: client_main_def client_run_def K8s_New_def K8s_Token_def Let_def
      split: option.splits sum.splits if_splits)

end
