(* ===== verification/Spec2Isabelle.thy ===== *)
theory Spec2Isabelle
  imports AwsProgress AwsAlone MetricsPath RunningMetrics Deployment K8sClient
begin

text \<open>
  A verification development for nats-oidc-callout: a NATS auth-callout service that accepts OIDC
  tokens, the two client libraries that fetch such tokens, and the mock provider its tests use.

  \<^bold>\<open>The program.\<close> A client connects to NATS with a token. The server asks the callout service, whose
  authorizer (\<open>internal/callout\<close>) verifies the token (\<open>internal/verifier\<close>), which flattens the payload
  into claims (\<open>internal/identity\<close>), asks the policy for the first rule that fits
  (\<open>internal/authz\<close>, with the CEL expressions of \<open>cel.go\<close>), caps the expiry, signs a user JWT and counts the
  answer (\<open>internal/metrics\<close>). Configuration and policy are loaded and validated by \<open>internal/config\<close>; the
  command (\<open>cmd/nats-oidc-callout\<close>) starts the service, swaps verifier and policy on SIGHUP and shuts down on
  SIGTERM. On the other side \<open>lib/awsauth\<close> and \<open>lib/k8sauth\<close> hand the NATS client a token per connect.

  \<^bold>\<open>The theories, and the code each models.\<close>
  \<^item> Prelude: Go maps as association lists in visiting order, lemma collections.
    GoStrings, Utf8, GoSpace, GoTime, Base64, Json, JsonPrint, Regexp, RegexpSyntax: the parts of the
    standard library the sources use (\<open>strings\<close>, \<open>unicode/utf8\<close>, \<open>time\<close> with 64-bit wrap-around and
    saturation, \<open>base64.RawURLEncoding\<close>, \<open>encoding/json\<close> both ways, \<open>regexp\<close> with leftmost-first matching).
  \<^item> SubPattern: \<open>compileSub\<close>, \<open>subMatches\<close>, \<open>subIsExact\<close>, \<open>accountPinnedInARN\<close> of \<open>authz.go\<close>, and the glob they
    implement as an independent specification. Cel: \<open>cel.go\<close>. FirstMatch: the locale of a first-match scan.
    Authz: policy, rules, \<open>Validate\<close> (which compiles rules in place), \<open>Evaluate\<close>, \<open>LoadPolicy\<close>. PolicyProps:
    their properties.
  \<^item> Identity: \<open>identity.go\<close>. Verifier, VerifierProps: \<open>verifier.go\<close>.
  \<^item> Counters, Metrics: \<open>metrics.go\<close>. MetricsServer: \<open>server.go\<close>. AtomicCell, Callout, CalloutProps: \<open>callout.go\<close>,
    with every interleaving of requests and reloads.
  \<^item> Config: \<open>config.go\<close>. Service, ServiceProps: \<open>main.go\<close>, with the start and a reload as functions.
  \<^item> Running: the process that \<open>run\<close> starts, with the main goroutine, \<open>watchReloads\<close>, the goroutine of the metrics
    endpoint, any number of calls of \<open>Authorize\<close> and the signals, one access to shared state at a step.
    RunningProps: its answers. RunningSignals: its signals, its end and its rest. RunningMetrics: its counters.
    MetricsPath: a start with another metrics section, and the crash over a path that \<open>Load\<close> does not check.
  \<^item> TokenHandler: the locale of the handler given to the NATS client. K8sAuth: \<open>k8sauth.go\<close>. AwsAuth,
    AwsAuthProps: \<open>awsauth.go\<close> with a call as one step and its refresh goroutine as a step relation. AwsThreads,
    AwsThreadsProps, AwsProgress: the same code at the grain of its system calls, for any number of calls,
    handlers and goroutines of any number of token sources and processes over one file system. AwsAlone: the
    two models agree. K8sClient: \<open>test/k8s/client\<close>.
  \<^item> Mockoidc, MockoidcProps: \<open>mockoidc.go\<close>, and how the verifier, \<open>Parse\<close> and the AWS token source read what
    it mints. EndToEnd: from the mint through verifier, \<open>Parse\<close>, policy and \<open>Authorize\<close> to the user JWT.
    Deployment: a client of AwsThreads and a service of Running together, with tokens of STS.
  \<^item> StepSystems: the locales of the state machines.

  A struct is a record, an error type a datatype with a constructor per message, a method a function
  on the explicit state that returns the new state beside its result. A method of a name that
  occurs twice carries the name of its type or package (\<open>policy_Validate\<close>, \<open>Config_Validate\<close>, \<open>aws_validate\<close>).

  \<^bold>\<open>What the lemmas show.\<close> The whole path of a request is the theorem below: a JWT is issued only for an identity
  of a configured issuer with its required claims and an allowed audience, under a rule that fits
  and is pinned or marked broad. Underneath: globs mean what the specification says; the claim map
  has exactly the scalars of the payload in every map order; validation, evaluation, verification
  and loading meet their contracts on every branch; a reload takes effect as a whole or not at all;
  the counters add up. For the running service, in every interleaving of its goroutines and signals: each answer is
  that of one ruleset in force while the request ran, made of a loaded and validated configuration; no SIGHUP is
  lost while the service watches; the counters are off from the answers by at most the requests in progress and the
  refusals over a failure to sign; the process ends in order, by a signal or by one of two panics,
  and without new input it comes to rest with every request answered and every signal served. Its
  calls and its reloads alone are the functions of the coarse model. For the clients: where a token comes from, the atomic write and the round trip
  of the cache; and in every interleaving of system calls no reader sees part of a token, the lock and the
  flag refine a machine with a single refresh per source, and every call and refresh ends. The coarse model
  of a call and of a write has exactly the behaviours of the fine one run alone. For the provider: encoding
  and parsing are inverse, and tokens are read back as minted, and a table from AWS accounts to grants decides a minted token as the
  table says. With client and service together: a token from the client's cache is granted only by a configuration that
  lists the audience the client asked for, and what that configuration asks of the AWS account is asked of the caller's.

  \<^bold>\<open>Interfaces.\<close> \<open>first_match\<close> (provided by the scan of the policy), \<open>counters\<close> (provided by the label
  series), \<open>atomic_cell\<close> (provided by the ruleset pointer of the authorizer) and \<open>token_handler\<close> (provided by
  both token sources) are locales, interpreted on the model's definitions. So are those of StepSystems:
  \<open>invariant_system\<close> (the requests and reloads of the authorizer, the running process with four invariants, the
  metrics server, the refresh goroutine, the cache files, the requests to STS, the abstract refresh machine), \<open>ranked_system\<close> (the threads of the token sources),
  \<open>counted_system\<close> (the refresh goroutine, the running process) and \<open>refinement_map\<close> (the single refresh).

  \<^bold>\<open>Bounds and fuel.\<close> The JSON parser takes fuel, twice the length of the input and one; \<open>parser_fuel\<close> shows that more
  changes nothing, and \<open>marshal_parse\<close> that it is enough for everything the encoder writes. Its nesting limit
  of 10000 is the library's. Everything else is structural or has a termination proof. The runs of the
  threads have no fuel: a rank of their program points and of the bytes to be written falls at every step; so does
  the rank of the running process, with twelve for a signal in the channel, the most steps a reload takes.

  \<^bold>\<open>Parameters.\<close> YAML decoding, the file system, the OIDC library, CEL, JWT signing, NATS, STS, RSA, SHA-256, the
  clock and the order Go visits maps in are arguments of the definitions that use them. The hypotheses on
  them are documented behaviour: \<open>oidc_contract\<close> and \<open>oidc_family\<close> (a provider has the URL it was made for, and a
  verified token has its provider's issuer, whatever keys the library has fetched since), \<open>payload_contract\<close> and
  \<open>audience_contract\<close> (the claims and the audience of a verified token are those of its payload), \<open>sts_contract\<close> (a
  web identity token names the requested audience and the account of the caller) and
  \<open>visits\<close> (a \<open>range\<close> loop visits every entry once). The OIDC library makes one exception to the second part of
  \<open>oidc_contract\<close>: for Google's provider it also accepts the issuer written without its scheme. \<open>Verify\<close> chooses the
  provider by the issuer the token names, and no provider can be discovered under a name without a scheme, so
  the exception cannot arise here. Whether the callout library recovers from a panic of \<open>Authorize\<close> is the
  parameter \<open>recovers\<close> of Running; the theorems hold either way.

  \<^bold>\<open>Not modelled.\<close> Regular expressions outside the fragment of Regexp go to a parameter; the size limits of
  \<open>regexp/syntax\<close> are left out. The exposition of metrics, HTTP requests, the text of error messages, command
  line parsing, context deadlines (an expired one is an error of the call it ends) and the locking that
  makes the modelled methods atomic are not represented. Running begins when \<open>run\<close> has started its goroutines; a call
  of \<open>Authorize\<close> that panics takes the process down, or only ends, as \<open>recovers\<close> says. What \<open>svc.Stop\<close>
  and \<open>nc.Close\<close> do to requests in progress is the libraries'; the model lets requests come in until the process ends.
  The version variables, the error values \<open>errDenied\<close> and \<open>ErrUntrustedIssuer\<close> and the accessors of the
  metrics registry have no content to model. The file system of AwsThreads is a map from names to
  contents, so a file that is read or written is the one under that name; \<open>CreateTemp\<close> picks no name twice, no
  program other than the token sources changes the files, and memory is sequentially consistent, the shared
  fields being under the mutex.
\<close>

section \<open>Properties across components\<close>

text \<open>
  C1. The whole path of a request. For an authorizer made from a configuration of trusted issuers and
  a policy that validated: a JWT is issued only if the identity in the verified token comes from a
  configured issuer and has every claim that issuer must have and an allowed audience, and a rule
  of the policy grants it whose issuer, sub and claims all fit the identity and which either is
  marked broad or has a strong pin. The JWT is bound to that rule's account and permissions.
\<close>

theorem issued_only_if_trusted_and_granted:
  assumes "oidc_contract oidc issuer_of" and "Verifier_New oidc opts = Inr v"
    and "\<forall>r \<in> set (Rules p). celProgram r = None" and "policy_Validate cel ext p = (p', None)"
    and "fst (Authorize oidc cel jwt env req (Authorizer_New v p' key m)) = Issued tok"
  shows "\<exists>d opt i re uc.
      Verify oidc (visit_order env) v (Token req) = Inr d
    \<and> opt \<in> set (Issuers opts) \<and> URL opt = Issuer d
    \<and> (\<forall>(k, want) \<in> set (RequireClaims opt). Claim d k = Some want)
    \<and> (\<exists>aud \<in> set (Audience d). aud \<in> set (Audiences opts))
    \<and> i < length (Rules p)
    \<and> (let r = Rules p ! i in
         Match_Issuer (Rule_Match r) \<in> {[], URL opt}
         \<and> compileSub ext (Match_Sub (Rule_Match r)) = Inr re \<and> subMatches re (Subject d)
         \<and> (\<forall>(k, want) \<in> set (Match_Claims (Rule_Match r)). Claim d k = Some want)
         \<and> (hasStrongPin r \<or> Match_AllowBroad (Rule_Match r))
         \<and> NewUserClaims jwt (UserNkey req) = Some uc
         \<and> Encode jwt (user_claims d (decision_of i r) (now_cap env) uc) key = Inr tok)"
proof -
  obtain d decision uc where
    d: "Verify oidc (visit_order env) v (Token req) = Inr d"
    and e: "policy_Evaluate cel (now_rules env) p' d = Inr decision"
    and n: "NewUserClaims jwt (UserNkey req) = Some uc"
    and j: "Encode jwt (user_claims d decision (now_cap env) uc) key = Inr tok"
    using assms(5) unfolding Authorize_Issued by (auto simp: Authorizer_New_def)
  obtain opt where opt: "opt \<in> set (Issuers opts)" "URL opt = Issuer d"
    "\<forall>(k, want) \<in> set (RequireClaims opt). Claim d k = Some want"
    "\<exists>aud \<in> set (Audience d). aud \<in> set (Audiences opts)"
    using verified_trusted [OF assms(1,2) d] by blast
  obtain i re where i: "i < length (Rules p)" "decision = decision_of i (Rules p ! i)"
    and c: "let m = Rule_Match (Rules p ! i) in Match_Issuer m \<in> {[], Issuer d}
         \<and> compileSub ext (Match_Sub m) = Inr re \<and> subMatches re (Subject d)
         \<and> (\<forall>(k, want) \<in> set (Match_Claims m). Claim d k = Some want)"
    using grant_conditions [OF assms(3,4) e] by (auto simp: Let_def)
  have "rule_valid cel ext (Rules p ! i)" using assms(4) i(1) by (simp add: policy_Validate_None)
  then have "hasStrongPin (Rules p ! i) \<or> Match_AllowBroad (Rule_Match (Rules p ! i))"
    by (simp add: rule_valid_def)
  then show ?thesis
    by (intro exI [of _ d] exI [of _ opt] exI [of _ i] exI [of _ re] exI [of _ uc])
      (use d opt i c n j in \<open>simp add: Let_def\<close>)
qed

theorem issued_only_if_trusted_and_granted_witness:
  "Verify sample_oidc (visit_order sample_env) sample_verifier (Token sample_request) = Inr sample_verified
   \<and> (\<exists>opt \<in> set (Issuers sample_options). URL opt = Issuer sample_verified)"
proof -
  have n: "\<forall>r \<in> set (Rules (sample_policy [aws_rule])). celProgram r = None"
    by (simp add: sample_policy_def aws_rule_def sample_rule_def)
  have v: "Verify sample_oidc (visit_order sample_env) sample_verifier (Token sample_request) = Inr sample_verified"
    using sample_token_verified by (simp add: sample_env_def sample_request_def)
  have "\<exists>opt d. opt \<in> set (Issuers sample_options) \<and> URL opt = Issuer d
      \<and> Verify sample_oidc (visit_order sample_env) sample_verifier (Token sample_request) = Inr d"
    using issued_only_if_trusted_and_granted [OF sample_oidc_contract sample_verifier_built n
        aws_rule_validates sample_authorizes [unfolded sample_authorizer_def]] by blast
  with v show ?thesis by auto
qed

end
